(* ===== verification/Prelude.thy ===== *)
theory Prelude
  imports Main "HOL-Library.Word"
begin

section \<open>Prelude: the parts of the Rust language the server is written in\<close>

text \<open>
  What the components share: Rust strings and the methods of \<^verbatim>\<open>str\<close> the sources call,
  fixed-width unsigned integers with their checked and saturating operations, results as
  sums, and generic lemmas on lists and finite maps.

  A Rust \<^verbatim>\<open>str\<close> is a sequence of Unicode scalar values, so a string of the model is a
  list of code points; \<open>slen\<close> is the octet length \<^verbatim>\<open>str::len\<close> reports, the sum of the
  UTF-8 widths. Octet streams (\<^verbatim>\<open>Vec<u8>\<close>) are lists of \<open>8 word\<close>. The literal
  \<open>lit ''abc''\<close> stands for the Rust literal \<^verbatim>\<open>"abc"\<close>.
  An unsigned integer that cannot wrap in the source (checked or saturating arithmetic, or
  a bound established before the operation) is a \<open>nat\<close> with the saturation written out;
  an integer whose bits matter is a word.
\<close>

named_theorems str_simps \<open>unfolding rules of the string model, for evaluation\<close>
named_theorems sat_simps \<open>unfolding rules of saturating arithmetic\<close>

type_synonym rchar = nat
type_synonym rstr = "nat list"
type_synonym octets = "8 word list"
type_synonym ('e, 'a) result = "'e + 'a"

subsection \<open>Fixed-width unsigned integers\<close>

definition u8_max :: nat where
  "u8_max = 255"

definition u16_max :: nat where
  "u16_max = 65535"

definition u32_max :: nat where
  "u32_max = 4294967295"

definition u64_max :: nat where
  "u64_max = 18446744073709551615"

text \<open>\<^verbatim>\<open>usize\<close> is 64 bits wide on the two targets the package is built for
  (x86\_64 and arm64).\<close>

definition usize_max :: nat where
  "usize_max = u64_max"

definition sat_add :: "nat \<Rightarrow> nat \<Rightarrow> nat \<Rightarrow> nat" where
  "sat_add m a b = min (a + b) m"

definition sat_mul :: "nat \<Rightarrow> nat \<Rightarrow> nat \<Rightarrow> nat" where
  "sat_mul m a b = min (a * b) m"

lemmas max_defs [sat_simps] = u8_max_def u16_max_def u32_max_def u64_max_def usize_max_def

lemma sat_add_le_iff: "k < m \<Longrightarrow> sat_add m a b \<le> k \<longleftrightarrow> a + b \<le> k"
  by (auto simp: sat_add_def min_def)

lemma sat_add_gr_iff: "k < m \<Longrightarrow> k < sat_add m a b \<longleftrightarrow> k < a + b"
  by (auto simp: sat_add_def min_def)

lemma sat_add_le: "sat_add m a b \<le> a + b" "sat_add m a b \<le> m"
  by (auto simp: sat_add_def)

lemma sat_add_mono: "a \<le> m \<Longrightarrow> a \<le> sat_add m a b"
  by (auto simp: sat_add_def)

lemma sat_add_eq: "a + b \<le> m \<Longrightarrow> sat_add m a b = a + b"
  by (auto simp: sat_add_def)

subsection \<open>Characters\<close>

definition lit :: "string \<Rightarrow> rstr" where
  "lit s = map of_char s"

definition is_ascii :: "rchar \<Rightarrow> bool" where
  "is_ascii c \<longleftrightarrow> c < 128"

definition is_digit :: "rchar \<Rightarrow> bool" where
  "is_digit c \<longleftrightarrow> 48 \<le> c \<and> c \<le> 57"

definition is_upper :: "rchar \<Rightarrow> bool" where
  "is_upper c \<longleftrightarrow> 65 \<le> c \<and> c \<le> 90"

definition is_lower :: "rchar \<Rightarrow> bool" where
  "is_lower c \<longleftrightarrow> 97 \<le> c \<and> c \<le> 122"

definition is_alnum :: "rchar \<Rightarrow> bool" where
  "is_alnum c \<longleftrightarrow> is_digit c \<or> is_upper c \<or> is_lower c"

text \<open>\<^verbatim>\<open>char::is_control\<close>: the Unicode category Cc, the C0 and C1 ranges and DEL.\<close>

definition is_control :: "rchar \<Rightarrow> bool" where
  "is_control c \<longleftrightarrow> c < 32 \<or> 127 \<le> c \<and> c < 160"

text \<open>\<^verbatim>\<open>char::is_whitespace\<close>: the Unicode property White\_Space.\<close>

definition is_whitespace :: "rchar \<Rightarrow> bool" where
  "is_whitespace c \<longleftrightarrow> 9 \<le> c \<and> c \<le> 13 \<or> c = 32 \<or> c = 133 \<or> c = 160 \<or> c = 5760
     \<or> 8192 \<le> c \<and> c \<le> 8202 \<or> c = 8232 \<or> c = 8233 \<or> c = 8239 \<or> c = 8287 \<or> c = 12288"

text \<open>\<^verbatim>\<open>u8::is_ascii_whitespace\<close>: tab, LF, form feed, CR and space; no vertical tab.\<close>

definition is_ascii_whitespace :: "rchar \<Rightarrow> bool" where
  "is_ascii_whitespace c \<longleftrightarrow> c = 9 \<or> c = 10 \<or> c = 12 \<or> c = 13 \<or> c = 32"

definition to_upper :: "rchar \<Rightarrow> rchar" where
  "to_upper c = (if is_lower c then c - 32 else c)"

definition to_lower :: "rchar \<Rightarrow> rchar" where
  "to_lower c = (if is_upper c then c + 32 else c)"

definition utf8_len :: "rchar \<Rightarrow> nat" where
  "utf8_len c = (if c < 128 then 1 else if c < 2048 then 2 else if c < 65536 then 3 else 4)"

lemmas char_defs [str_simps] =
  is_ascii_def is_digit_def is_upper_def is_lower_def is_alnum_def is_control_def
  is_whitespace_def is_ascii_whitespace_def to_upper_def to_lower_def utf8_len_def lit_def

lemma ascii_whitespace: "is_ascii_whitespace c \<Longrightarrow> is_whitespace c"
  unfolding is_ascii_whitespace_def is_whitespace_def by (elim disjE) simp_all

lemma utf8_len_pos [simp]: "0 < utf8_len c"
  by (simp add: utf8_len_def)

lemma to_lower_idem [simp]: "to_lower (to_lower c) = to_lower c"
  by (auto simp: to_lower_def is_upper_def)

lemma to_lower_upper [simp]: "to_lower (to_upper c) = to_lower c"
  by (auto simp: to_lower_def to_upper_def is_upper_def is_lower_def)

lemma to_upper_lower [simp]: "to_upper (to_lower c) = to_upper c"
  by (auto simp: to_lower_def to_upper_def is_upper_def is_lower_def)

subsection \<open>Strings\<close>

definition slen :: "rstr \<Rightarrow> nat" where
  "slen s = sum_list (map utf8_len s)"

definition ascii_upper :: "rstr \<Rightarrow> rstr" where
  "ascii_upper s = map to_upper s"

definition ascii_lower :: "rstr \<Rightarrow> rstr" where
  "ascii_lower s = map to_lower s"

definition eq_ignore_case :: "rstr \<Rightarrow> rstr \<Rightarrow> bool" where
  "eq_ignore_case a b \<longleftrightarrow> ascii_lower a = ascii_lower b"

definition trim_start :: "rstr \<Rightarrow> rstr" where
  "trim_start s = dropWhile is_whitespace s"

definition trim_end :: "rstr \<Rightarrow> rstr" where
  "trim_end s = rev (dropWhile is_whitespace (rev s))"

definition trim :: "rstr \<Rightarrow> rstr" where
  "trim s = trim_end (trim_start s)"

text \<open>\<^verbatim>\<open>str::split\<close> on a character class: always at least one piece.\<close>

fun split_by :: "('a \<Rightarrow> bool) \<Rightarrow> 'a list \<Rightarrow> 'a list list" where
  "split_by p [] = [[]]"
| "split_by p (c # s) =
     (if p c then [] # split_by p s
      else (case split_by p s of [] \<Rightarrow> [[c]] | w # ws \<Rightarrow> (c # w) # ws))"

definition split_on :: "rchar \<Rightarrow> rstr \<Rightarrow> rstr list" where
  "split_on c s = split_by (\<lambda>x. x = c) s"

definition split_ascii_whitespace :: "rstr \<Rightarrow> rstr list" where
  "split_ascii_whitespace s = filter (\<lambda>w. w \<noteq> []) (split_by is_ascii_whitespace s)"

definition split_whitespace :: "rstr \<Rightarrow> rstr list" where
  "split_whitespace s = filter (\<lambda>w. w \<noteq> []) (split_by is_whitespace s)"

text \<open>\<^verbatim>\<open>str::split_once\<close> and \<^verbatim>\<open>str::rsplit_once\<close> on one character.\<close>

fun split_once :: "'a \<Rightarrow> 'a list \<Rightarrow> ('a list \<times> 'a list) option" where
  "split_once c [] = None"
| "split_once c (x # s) =
     (if x = c then Some ([], s)
      else (case split_once c s of None \<Rightarrow> None | Some (a, b) \<Rightarrow> Some (x # a, b)))"

definition rsplit_once :: "'a \<Rightarrow> 'a list \<Rightarrow> ('a list \<times> 'a list) option" where
  "rsplit_once c s =
     (case split_once c (rev s) of None \<Rightarrow> None | Some (a, b) \<Rightarrow> Some (rev b, rev a))"

fun strip_prefix :: "'a list \<Rightarrow> 'a list \<Rightarrow> 'a list option" where
  "strip_prefix [] s = Some s"
| "strip_prefix (p # ps) [] = None"
| "strip_prefix (p # ps) (x # s) = (if p = x then strip_prefix ps s else None)"

definition starts_with :: "'a list \<Rightarrow> 'a list \<Rightarrow> bool" where
  "starts_with p s \<longleftrightarrow> strip_prefix p s \<noteq> None"

definition ends_with :: "'a list \<Rightarrow> 'a list \<Rightarrow> bool" where
  "ends_with p s \<longleftrightarrow> strip_prefix (rev p) (rev s) \<noteq> None"

text \<open>\<^verbatim>\<open>str::contains\<close> with a string pattern.\<close>

fun contains_str :: "'a list \<Rightarrow> 'a list \<Rightarrow> bool" where
  "contains_str p [] = (p = [])"
| "contains_str p (x # s) = (starts_with p (x # s) \<or> contains_str p s)"

text \<open>\<^verbatim>\<open>str::get(..n)\<close> and \<^verbatim>\<open>str::get(n..)\<close> together: the string cut at octet \<open>n\<close>,
  \<open>None\<close> when \<open>n\<close> is past the end or inside the encoding of a character. Indexing
  (\<^verbatim>\<open>&s[..n]\<close>) panics exactly where this is \<open>None\<close>.\<close>

fun split_at_octet :: "nat \<Rightarrow> rstr \<Rightarrow> (rstr \<times> rstr) option" where
  "split_at_octet n [] = (if n = 0 then Some ([], []) else None)"
| "split_at_octet n (c # s) =
     (if n = 0 then Some ([], c # s)
      else if n < utf8_len c then None
      else (case split_at_octet (n - utf8_len c) s of
              None \<Rightarrow> None | Some (a, b) \<Rightarrow> Some (c # a, b)))"

text \<open>\<^verbatim>\<open>str::parse\<close> for an unsigned integer type with largest value \<open>m\<close>: one leading plus
  sign is accepted, then at least one decimal digit and nothing else; a value above \<open>m\<close>
  is an error.\<close>

definition digits_value :: "rstr \<Rightarrow> nat" where
  "digits_value s = foldl (\<lambda>a c. 10 * a + (c - 48)) 0 s"

definition parse_uint :: "nat \<Rightarrow> rstr \<Rightarrow> nat option" where
  "parse_uint m s =
     (let d = (case s of c # t \<Rightarrow> if c = 43 then t else s | [] \<Rightarrow> s)
      in if d = [] \<or> \<not> list_all is_digit d then None
         else let v = digits_value d in if v \<le> m then Some v else None)"

text \<open>Decimal rendering of an unsigned integer (\<^verbatim>\<open>Display\<close>).\<close>

fun show_nat :: "nat \<Rightarrow> rstr" where
  "show_nat n = (if n < 10 then [48 + n] else show_nat (n div 10) @ [48 + n mod 10])"

declare show_nat.simps [simp del]

lemmas str_defs [str_simps] =
  slen_def ascii_upper_def ascii_lower_def eq_ignore_case_def trim_start_def trim_end_def
  trim_def split_on_def split_ascii_whitespace_def split_whitespace_def rsplit_once_def
  starts_with_def ends_with_def digits_value_def parse_uint_def

subsection \<open>Lemmas on the string operations\<close>

lemma slen_Nil [simp]: "slen [] = 0"
  by (simp add: slen_def)

lemma slen_Cons [simp]: "slen (c # s) = utf8_len c + slen s"
  by (simp add: slen_def)

lemma slen_append [simp]: "slen (a @ b) = slen a + slen b"
  by (simp add: slen_def)

lemma slen_0_iff [simp]: "slen s = 0 \<longleftrightarrow> s = []"
  by (cases s) (auto simp: slen_def)

lemma slen_ascii: "list_all is_ascii s \<Longrightarrow> slen s = length s"
  by (induction s) (auto simp: is_ascii_def utf8_len_def)

lemma ascii_lower_idem [simp]: "ascii_lower (ascii_lower s) = ascii_lower s"
  by (simp add: ascii_lower_def)

lemma ascii_lower_append [simp]: "ascii_lower (a @ b) = ascii_lower a @ ascii_lower b"
  by (simp add: ascii_lower_def)

lemma ascii_lower_Nil_iff [simp]: "ascii_lower s = [] \<longleftrightarrow> s = []"
  by (simp add: ascii_lower_def)

lemma ascii_lower_upper [simp]: "ascii_lower (ascii_upper s) = ascii_lower s"
  by (simp add: ascii_lower_def ascii_upper_def)

lemma ascii_upper_lower [simp]: "ascii_upper (ascii_lower s) = ascii_upper s"
  by (simp add: ascii_lower_def ascii_upper_def)

lemma split_by_not_Nil [simp]: "split_by p s \<noteq> []"
  by (induction s) (auto split: list.splits)

lemma split_by_free: "w \<in> set (split_by p s) \<Longrightarrow> c \<in> set w \<Longrightarrow> \<not> p c"
  by (induction s arbitrary: w) (fastforce split: if_splits list.splits)+

lemma split_by_subset: "w \<in> set (split_by p s) \<Longrightarrow> set w \<subseteq> set s"
  by (induction s arbitrary: w) (fastforce split: if_splits list.splits)+

lemma split_by_mem: "c \<in> set s \<Longrightarrow> p c \<or> (\<exists>w\<in>set (split_by p s). c \<in> set w)"
  by (induction s) (auto split: list.splits)

lemma split_by_none: "\<forall>c\<in>set s. \<not> p c \<Longrightarrow> split_by p s = [s]"
  by (induction s) auto

lemma split_by_append:
  "p c \<Longrightarrow> split_by p (a @ c # b) = split_by p a @ split_by p b"
proof (induction a)
  case (Cons x a)
  then show ?case
    by (cases "split_by p a") auto
qed simp

fun join_with :: "'a list \<Rightarrow> 'a list list \<Rightarrow> 'a list" where
  "join_with sep [] = []"
| "join_with sep [w] = w"
| "join_with sep (w # v # ws) = w @ sep @ join_with sep (v # ws)"

lemma join_with_Cons: "ws \<noteq> [] \<Longrightarrow> join_with sep (w # ws) = w @ sep @ join_with sep ws"
  by (cases ws) auto

lemma join_split: "join_with [c] (split_on c s) = s"
proof (induction s)
  case (Cons x s)
  have ne: "split_by (\<lambda>y. y = c) s \<noteq> []" by simp
  then obtain w ws where ws: "split_by (\<lambda>y. y = c) s = w # ws"
    by (cases "split_by (\<lambda>y. y = c) s") auto
  with Cons show ?case
    by (cases ws) (auto simp: split_on_def)
qed (simp add: split_on_def)

lemma split_join:
  "ws \<noteq> [] \<Longrightarrow> \<forall>w\<in>set ws. c \<notin> set w \<Longrightarrow> split_on c (join_with [c] ws) = ws"
proof (induction ws)
  case (Cons w ws)
  have w: "split_by (\<lambda>y. y = c) w = [w]"
    using Cons.prems by (auto intro: split_by_none)
  show ?case
  proof (cases ws)
    case Nil
    then show ?thesis by (simp add: split_on_def w)
  next
    case (Cons v vs)
    then show ?thesis
      using Cons.IH Cons.prems split_by_append [of "\<lambda>y. y = c" c w "join_with [c] ws"]
      by (simp add: split_on_def w)
  qed
qed simp

lemma split_once_Some:
  "split_once c s = Some (a, b) \<longleftrightarrow> s = a @ c # b \<and> c \<notin> set a"
proof (induction s arbitrary: a b)
  case (Cons x s)
  show ?case
  proof (cases a)
    case Nil
    then show ?thesis by (auto split: option.splits)
  next
    case (Cons y ys)
    then show ?thesis using Cons.IH [of ys b]
      by (cases "split_once c s") auto
  qed
qed simp

lemma split_once_None: "split_once c s = None \<longleftrightarrow> c \<notin> set s"
  by (induction s) (auto split: option.splits)

lemma split_once_append: "c \<notin> set a \<Longrightarrow> split_once c (a @ c # b) = Some (a, b)"
  by (simp add: split_once_Some)

lemma rsplit_once_Some:
  "rsplit_once c s = Some (a, b) \<longleftrightarrow> s = a @ c # b \<and> c \<notin> set b"
proof -
  have "rsplit_once c s = Some (a, b) \<longleftrightarrow> split_once c (rev s) = Some (rev b, rev a)"
    by (auto simp: rsplit_once_def split: option.splits)
  also have "\<dots> \<longleftrightarrow> s = a @ c # b \<and> c \<notin> set b"
    by (simp add: split_once_Some) (metis append.assoc append_Cons append_Nil rev.simps(2)
        rev_append rev_rev_ident)
  finally show ?thesis .
qed

lemma rsplit_once_None: "rsplit_once c s = None \<longleftrightarrow> c \<notin> set s"
  using split_once_None [of c "rev s"]
  by (auto simp: rsplit_once_def split: option.splits)

lemma strip_prefix_Some: "strip_prefix p s = Some t \<longleftrightarrow> s = p @ t"
  by (induction p s rule: strip_prefix.induct) auto

lemma strip_prefix_None: "strip_prefix p s = None \<longleftrightarrow> (\<nexists>t. s = p @ t)"
  using strip_prefix_Some [of p s] by (cases "strip_prefix p s") auto

lemma starts_with_iff: "starts_with p s \<longleftrightarrow> (\<exists>t. s = p @ t)"
  by (simp add: starts_with_def strip_prefix_Some)

lemma ends_with_iff: "ends_with p s \<longleftrightarrow> (\<exists>t. s = t @ p)"
proof -
  have "ends_with p s \<longleftrightarrow> (\<exists>t. rev s = rev p @ t)"
    by (simp add: ends_with_def strip_prefix_Some)
  also have "\<dots> \<longleftrightarrow> (\<exists>t. s = t @ p)"
    by (metis rev_append rev_rev_ident)
  finally show ?thesis .
qed

lemma split_at_octet_Some:
  "split_at_octet n s = Some (a, b) \<longleftrightarrow> s = a @ b \<and> slen a = n"
proof (induction n s arbitrary: a b rule: split_at_octet.induct)
  case (2 n c s)
  have pos: "utf8_len c \<noteq> 0" by simp
  show ?case
  proof (cases "n = 0 \<or> n < utf8_len c")
    case True
    then show ?thesis
      using pos by (cases a) auto
  next
    case False
    show ?thesis
    proof (cases a)
      case Nil
      with False show ?thesis by (auto split: option.splits)
    next
      case (Cons y ys)
      with False "2.IH" [of ys b] show ?thesis
        by (cases "split_at_octet (n - utf8_len c) s") auto
    qed
  qed
qed auto

lemma split_at_octet_ascii:
  "list_all is_ascii p \<Longrightarrow> split_at_octet (length p) (p @ s) = Some (p, s)"
  by (simp add: split_at_octet_Some slen_ascii)

lemma parse_uint_le: "parse_uint m s = Some v \<Longrightarrow> v \<le> m"
  by (auto simp: parse_uint_def Let_def split: if_splits)

lemma trim_start_Nil [simp]: "trim_start [] = []"
  by (simp add: trim_start_def)

lemma trim_end_Nil [simp]: "trim_end [] = []"
  by (simp add: trim_end_def)

lemma trim_start_id: "s = [] \<or> \<not> is_whitespace (hd s) \<Longrightarrow> trim_start s = s"
  by (cases s) (auto simp: trim_start_def)

lemma trim_end_id: "s = [] \<or> \<not> is_whitespace (last s) \<Longrightarrow> trim_end s = s"
  by (cases s rule: rev_cases) (auto simp: trim_end_def)

lemma trim_id:
  "s = [] \<or> \<not> is_whitespace (hd s) \<and> \<not> is_whitespace (last s) \<Longrightarrow> trim s = s"
  by (auto simp: trim_def trim_start_id trim_end_id)

lemma set_trim: "set (trim s) \<subseteq> set s"
  unfolding trim_def trim_end_def trim_start_def
  by (auto dest!: set_dropWhileD)

subsection \<open>Decimal numbers round-trip\<close>

lemma digits_value_snoc: "digits_value (s @ [c]) = 10 * digits_value s + (c - 48)"
  by (simp add: digits_value_def)

lemma show_nat_not_Nil [simp]: "show_nat n \<noteq> []"
  by (subst show_nat.simps) simp

lemma show_nat_digits: "list_all is_digit (show_nat n)"
proof (induction n rule: show_nat.induct)
  case (1 n)
  show ?case
  proof (cases "n < 10")
    case True
    then show ?thesis by (subst show_nat.simps) (simp add: is_digit_def)
  next
    case False
    have "n mod 10 < 10" by simp
    then have "is_digit (48 + n mod 10)" by (simp only: is_digit_def) arith
    with False 1 show ?thesis
      by (subst show_nat.simps) simp
  qed
qed

lemma digits_value_show_nat: "digits_value (show_nat n) = n"
proof (induction n rule: show_nat.induct)
  case (1 n)
  show ?case
  proof (cases "n < 10")
    case True
    then show ?thesis by (subst show_nat.simps) (simp add: digits_value_def)
  next
    case False
    with 1 show ?thesis
      by (subst show_nat.simps) (simp add: digits_value_snoc)
  qed
qed

lemma parse_show_nat: "n \<le> m \<Longrightarrow> parse_uint m (show_nat n) = Some n"
proof -
  assume le: "n \<le> m"
  obtain c t where ct: "show_nat n = c # t"
    by (cases "show_nat n") auto
  then have "c \<noteq> 43"
    using show_nat_digits [of n] by (auto simp: is_digit_def)
  with ct have "(case show_nat n of c # t \<Rightarrow> if c = 43 then t else show_nat n
      | [] \<Rightarrow> show_nat n) = show_nat n"
    by simp
  with le show ?thesis
    using show_nat_digits [of n]
    by (simp add: parse_uint_def Let_def digits_value_show_nat)
qed

subsection \<open>Sums over finite maps\<close>

lemma sum_list_update_nat:
  "i < length xs \<Longrightarrow> sum_list (xs[i := v]) + xs ! i = sum_list xs + (v :: nat)"
proof (induction xs arbitrary: i)
  case (Cons x xs)
  then show ?case by (cases i) (auto simp: algebra_simps)
qed simp

end
