(* ===== verification/Smtp_Line.thy ===== *)
theory Smtp_Line
  imports Prelude
begin

section \<open>Strict CRLF framing\<close>

text \<open>
  The line layer of \<^verbatim>\<open>src/src/smtp/line/mod.rs\<close>: \<^verbatim>\<open>LineCheck\<close>, the per-octet rules shared by
  DATA, the command stream and the BDAT body check, and \<^verbatim>\<open>LineDecoder\<close>, the incremental
  decoder that remembers how far it has scanned. A method with \<^verbatim>\<open>&mut self\<close> returns the new
  state beside its result. The reference notions at the end (\<open>frame\<close>, \<open>weight\<close>,
  \<open>well_framed\<close>) are what the lemmas compare the code with.
\<close>

subsection \<open>The code\<close>

definition MAX_LINE_LENGTH :: nat where
  "MAX_LINE_LENGTH = 998"

datatype line_error = BareControlCharacter | TooLong | NulByte

datatype line_step = More | EndOfLine

record line_check =
  lc_len :: nat
  lc_cr :: bool
  lc_escape_dot :: bool

definition lc_new :: line_check where
  "lc_new = \<lparr>lc_len = 0, lc_cr = False, lc_escape_dot = False\<rparr>"

definition lc_stored :: line_check where
  "lc_stored = lc_new\<lparr>lc_escape_dot := True\<rparr>"

definition lc_resume :: "nat \<Rightarrow> line_check" where
  "lc_resume n = \<lparr>lc_len = n, lc_cr = False, lc_escape_dot = False\<rparr>"

definition lc_step :: "nat \<Rightarrow> 8 word \<Rightarrow> line_check \<Rightarrow> line_check \<times> (line_error, line_step) result" where
  "lc_step max_line byte c =
     (if lc_cr c then
        (if byte \<noteq> 10 then (c, Inl BareControlCharacter)
         else (c\<lparr>lc_len := 0, lc_cr := False\<rparr>,
               if lc_len c > max_line then Inl TooLong else Inr EndOfLine))
      else if byte = 0 then (c, Inl NulByte)
      else if byte = 10 then (c, Inl BareControlCharacter)
      else if byte = 13 then (c\<lparr>lc_cr := True\<rparr>, Inr More)
      else (c\<lparr>lc_len := lc_len c
                + (if lc_escape_dot c \<and> lc_len c = 0 \<and> byte = 46 then 2 else 1)\<rparr>, Inr More))"

definition lc_check_open :: "nat \<Rightarrow> line_check \<Rightarrow> (line_error, unit) result" where
  "lc_check_open max_line c =
     (if lc_len c + of_bool (lc_cr c) > max_line + 1 then Inl TooLong else Inr ())"

text \<open>The loop of \<^verbatim>\<open>feed\<close>, with the early return of \<^verbatim>\<open>?\<close>.\<close>

fun lc_steps :: "nat \<Rightarrow> octets \<Rightarrow> line_check \<Rightarrow> line_check \<times> (line_error, unit) result" where
  "lc_steps max_line [] c = (c, Inr ())"
| "lc_steps max_line (b # bs) c =
     (case lc_step max_line b c of
        (c', Inl e) \<Rightarrow> (c', Inl e)
      | (c', Inr _) \<Rightarrow> lc_steps max_line bs c')"

definition lc_feed :: "nat \<Rightarrow> octets \<Rightarrow> line_check \<Rightarrow> line_check \<times> (line_error, unit) result" where
  "lc_feed max_line bytes c =
     (case lc_steps max_line bytes c of
        (c', Inl e) \<Rightarrow> (c', Inl e)
      | (c', Inr _) \<Rightarrow> (c', lc_check_open max_line c'))"

definition lc_finish :: "nat \<Rightarrow> line_check \<Rightarrow> (line_error, unit) result" where
  "lc_finish max_line c =
     (if lc_cr c then Inl BareControlCharacter
      else if lc_len c > max_line then Inl TooLong
      else Inr ())"

record line_decoder =
  ld_buffer :: octets
  ld_max_line :: nat
  ld_scanned :: nat

definition ld_with_limit :: "nat \<Rightarrow> line_decoder" where
  "ld_with_limit m = \<lparr>ld_buffer = [], ld_max_line = m, ld_scanned = 0\<rparr>"

definition ld_feed :: "octets \<Rightarrow> line_decoder \<Rightarrow> line_decoder" where
  "ld_feed bytes d = d\<lparr>ld_buffer := ld_buffer d @ bytes\<rparr>"

definition ld_take_buffered :: "nat \<Rightarrow> line_decoder \<Rightarrow> line_decoder \<times> octets" where
  "ld_take_buffered m d =
     (let n = min (length (ld_buffer d)) m
      in (d\<lparr>ld_scanned := 0, ld_buffer := drop n (ld_buffer d)\<rparr>, take n (ld_buffer d)))"

definition ld_discard_buffered :: "nat \<Rightarrow> line_decoder \<Rightarrow> line_decoder \<times> nat" where
  "ld_discard_buffered m d =
     (let n = min (length (ld_buffer d)) m
      in (d\<lparr>ld_scanned := 0, ld_buffer := drop n (ld_buffer d)\<rparr>, n))"

text \<open>The loop of \<^verbatim>\<open>next_line\<close> from index \<open>i\<close> on: the index of the LF that ended a line,
  if one did, and the state of the check.\<close>

fun next_line_loop ::
    "nat \<Rightarrow> octets \<Rightarrow> nat \<Rightarrow> line_check \<Rightarrow> (line_error, nat option \<times> line_check) result" where
  "next_line_loop max_line [] i c = Inr (None, c)"
| "next_line_loop max_line (b # bs) i c =
     (case lc_step max_line b c of
        (c', Inl e) \<Rightarrow> Inl e
      | (c', Inr EndOfLine) \<Rightarrow> Inr (Some i, c')
      | (c', Inr More) \<Rightarrow> next_line_loop max_line bs (i + 1) c')"

definition next_line :: "line_decoder \<Rightarrow> line_decoder \<times> (line_error, octets option) result" where
  "next_line d =
     (case next_line_loop (ld_max_line d) (drop (ld_scanned d) (ld_buffer d)) (ld_scanned d)
             (lc_resume (ld_scanned d)) of
        Inl e \<Rightarrow> (d, Inl e)
      | Inr (Some i, c) \<Rightarrow>
          (d\<lparr>ld_buffer := drop (i + 1) (ld_buffer d), ld_scanned := 0\<rparr>,
           Inr (Some (take (i - 1) (ld_buffer d))))
      | Inr (None, c) \<Rightarrow>
          (d\<lparr>ld_scanned := lc_len c\<rparr>,
           (case lc_check_open (ld_max_line d) c of Inl e \<Rightarrow> Inl e | Inr _ \<Rightarrow> Inr None)))"

subsection \<open>Reference notions\<close>

definition plain :: "8 word \<Rightarrow> bool" where
  "plain b \<longleftrightarrow> b \<noteq> 0 \<and> b \<noteq> 10 \<and> b \<noteq> 13"

text \<open>A sequence of lines as the wire carries it.\<close>

definition frame :: "octets list \<Rightarrow> octets" where
  "frame ls = concat (map (\<lambda>l. l @ [13, 10]) ls)"

text \<open>Dot-stuffing of one line (RFC 5321 section 4.5.2), and the octets a line is charged for:
  a stored line is charged for the dot it grows by when it is sent on.\<close>

definition dot_stuff :: "octets \<Rightarrow> octets" where
  "dot_stuff l = (case l of b # _ \<Rightarrow> if b = 46 then 46 # l else l | [] \<Rightarrow> l)"

definition weight :: "bool \<Rightarrow> octets \<Rightarrow> nat" where
  "weight escape l = (if escape then length (dot_stuff l) else length l)"

text \<open>The language the framing admits: lines ended by CRLF and an optional last line left
  open, all of plain octets, none over the cap.\<close>

definition well_framed :: "nat \<Rightarrow> bool \<Rightarrow> octets \<Rightarrow> bool" where
  "well_framed m escape bytes \<longleftrightarrow>
     (\<exists>ls t. bytes = frame ls @ t
        \<and> (\<forall>l\<in>set (t # ls). list_all plain l \<and> weight escape l \<le> m))"

text \<open>A body handed to the check in pieces, the way BDAT does, then ended.\<close>

fun lc_accepts :: "nat \<Rightarrow> line_check \<Rightarrow> octets list \<Rightarrow> bool" where
  "lc_accepts m c [] = (lc_finish m c = Inr ())"
| "lc_accepts m c (p # ps) =
     (case lc_feed m p c of (c', Inl e) \<Rightarrow> False | (c', Inr _) \<Rightarrow> lc_accepts m c' ps)"

definition ld_inv :: "line_decoder \<Rightarrow> bool" where
  "ld_inv d \<longleftrightarrow> ld_scanned d \<le> length (ld_buffer d)
     \<and> list_all plain (take (ld_scanned d) (ld_buffer d))"

subsection \<open>The per-octet check\<close>

lemma frame_simps [simp]: "frame [] = []" "frame (l # ls) = l @ 13 # 10 # frame ls"
  by (simp_all add: frame_def)

lemma weight_snoc:
  "weight e (p @ [b]) = weight e p + (if e \<and> weight e p = 0 \<and> b = 46 then 2 else 1)"
  by (cases p) (auto simp: weight_def dot_stuff_def)

lemma weight_0 [simp]: "weight e [] = 0"
  by (simp add: weight_def dot_stuff_def)

lemma lc_step_plain:
  "plain b \<Longrightarrow> lc_step m b \<lparr>lc_len = weight e p, lc_cr = False, lc_escape_dot = e\<rparr>
     = (\<lparr>lc_len = weight e (p @ [b]), lc_cr = False, lc_escape_dot = e\<rparr>, Inr More)"
  by (simp add: lc_step_def plain_def weight_snoc)

text \<open>A run over a piece without the check at its end, then the end of the stream.\<close>

definition run_ok :: "nat \<Rightarrow> octets \<Rightarrow> line_check \<Rightarrow> bool" where
  "run_ok m bytes c \<longleftrightarrow>
     (case lc_steps m bytes c of (c', Inl e) \<Rightarrow> False | (c', Inr _) \<Rightarrow> lc_finish m c' = Inr ())"

lemma run_ok_Nil: "run_ok m [] c \<longleftrightarrow> \<not> lc_cr c \<and> lc_len c \<le> m"
  by (auto simp: run_ok_def lc_finish_def)

lemma run_ok_Cons:
  "run_ok m (b # bs) c \<longleftrightarrow>
     (case lc_step m b c of (c', Inl e) \<Rightarrow> False | (c', Inr _) \<Rightarrow> run_ok m bs c')"
  by (auto simp: run_ok_def split: prod.splits sum.splits)

lemma lc_steps_append:
  "lc_steps m (xs @ ys) c =
     (case lc_steps m xs c of (c', Inl e) \<Rightarrow> (c', Inl e) | (c', Inr _) \<Rightarrow> lc_steps m ys c')"
  by (induction xs arbitrary: c) (auto split: prod.splits sum.splits)

text \<open>A line that is past the cap when a piece ends can never be accepted later, so the
  check at the end of a piece refuses nothing the whole stream would not.\<close>

lemma over_cap_never_ok:
  "lc_len c + of_bool (lc_cr c) > m + 1 \<Longrightarrow> \<not> run_ok m bytes c"
proof (induction bytes arbitrary: c)
  case Nil
  then show ?case by (cases "lc_cr c") (auto simp: run_ok_Nil)
next
  case (Cons b bs)
  then show ?case
    by (cases "lc_cr c") (auto simp: run_ok_Cons lc_step_def)
qed

lemma run_ok_append:
  "run_ok m (xs @ ys) c \<longleftrightarrow>
     (case lc_feed m xs c of (c', Inl e) \<Rightarrow> False | (c', Inr _) \<Rightarrow> run_ok m ys c')"
proof (cases "lc_steps m xs c")
  case (Pair c' r)
  show ?thesis
  proof (cases r)
    case (Inl e)
    with Pair show ?thesis by (simp add: run_ok_def lc_feed_def lc_steps_append)
  next
    case (Inr u)
    have "run_ok m (xs @ ys) c \<longleftrightarrow> run_ok m ys c'"
      using Pair Inr by (simp add: run_ok_def lc_steps_append)
    then show ?thesis
      using Pair Inr over_cap_never_ok [of m c' ys]
      by (auto simp: lc_feed_def lc_check_open_def)
  qed
qed

lemma lc_accepts_run: "lc_accepts m c ps \<longleftrightarrow> run_ok m (concat ps) c"
proof (induction ps arbitrary: c)
  case Nil
  then show ?case by (simp add: run_ok_def)
next
  case (Cons p ps)
  then show ?case
    by (simp add: run_ok_append split: prod.splits sum.splits)
qed

lemma first_special_unique:
  assumes "list_all plain p" "\<not> plain b" "list_all plain l" "\<not> plain c"
    and "p @ b # bs = l @ c # cs"
  shows "p = l \<and> b = c \<and> bs = cs"
proof -
  have "takeWhile plain (p @ b # bs) = p" "takeWhile plain (l @ c # cs) = l"
    using assms(1-4) by (simp_all add: takeWhile_append list_all_iff)
  then have "p = l" by (metis assms(5))
  with assms(5) show ?thesis by simp
qed

lemma not_plain [simp]: "\<not> plain 0" "\<not> plain 10" "\<not> plain 13"
  by (simp_all add: plain_def)

lemma well_framed_plain:
  "list_all plain p \<Longrightarrow> well_framed m e p \<longleftrightarrow> weight e p \<le> m"
proof
  assume p: "list_all plain p" and "well_framed m e p"
  then obtain ls t where "p = frame ls @ t" "weight e t \<le> m"
    by (auto simp: well_framed_def)
  moreover from this p have "ls = []"
    by (cases ls) auto
  ultimately show "weight e p \<le> m" by simp
next
  assume "list_all plain p" "weight e p \<le> m"
  then show "well_framed m e p"
    unfolding well_framed_def by (intro exI [of _ "[]"] exI [of _ p]) simp
qed

lemma well_framed_special:
  assumes p: "list_all plain p" and b: "\<not> plain b"
  shows "well_framed m e (p @ b # bs) \<longleftrightarrow>
           b = 13 \<and> weight e p \<le> m \<and> (\<exists>bs'. bs = 10 # bs' \<and> well_framed m e bs')"
proof
  assume "well_framed m e (p @ b # bs)"
  then obtain ls t where eq: "p @ b # bs = frame ls @ t"
    and ok: "\<forall>l\<in>set (t # ls). list_all plain l \<and> weight e l \<le> m"
    by (auto simp: well_framed_def)
  have "ls \<noteq> []"
    using eq ok b by auto
  then obtain l ls' where ls: "ls = l # ls'" by (cases ls) auto
  then have "p = l \<and> b = 13 \<and> bs = 10 # frame ls' @ t"
    using first_special_unique [OF p b, of l 13 bs "10 # frame ls' @ t"] eq ok by simp
  moreover have "well_framed m e (frame ls' @ t)"
    using ok ls by (auto simp: well_framed_def)
  ultimately show "b = 13 \<and> weight e p \<le> m \<and> (\<exists>bs'. bs = 10 # bs' \<and> well_framed m e bs')"
    using ok ls by auto
next
  assume h: "b = 13 \<and> weight e p \<le> m \<and> (\<exists>bs'. bs = 10 # bs' \<and> well_framed m e bs')"
  then obtain ls t where "bs = 10 # frame ls @ t"
    "\<forall>l\<in>set (t # ls). list_all plain l \<and> weight e l \<le> m"
    by (auto simp: well_framed_def)
  with h p show "well_framed m e (p @ b # bs)"
    unfolding well_framed_def by (intro exI [of _ "p # ls"] exI [of _ t]) simp
qed

lemma run_ok_well_framed:
  "list_all plain p \<Longrightarrow>
     run_ok m bytes \<lparr>lc_len = weight e p, lc_cr = False, lc_escape_dot = e\<rparr>
       \<longleftrightarrow> well_framed m e (p @ bytes)"
proof (induction bytes arbitrary: p rule: length_induct)
  case (1 bytes)
  show ?case
  proof (cases bytes)
    case Nil
    with 1 show ?thesis by (simp add: run_ok_Nil well_framed_plain)
  next
    case (Cons b bs)
    show ?thesis
    proof (cases "plain b")
      case True
      then show ?thesis
        using 1 Cons by (simp add: run_ok_Cons lc_step_plain)
    next
      case special: False
      show ?thesis
      proof (cases bs)
        case Nil
        then show ?thesis
          using Cons special 1(2) well_framed_special [OF 1(2) special, of m e "[]"]
          by (auto simp: run_ok_Cons run_ok_Nil lc_step_def plain_def)
      next
        case (Cons b' bs')
        have IH: "run_ok m bs' \<lparr>lc_len = 0, lc_cr = False, lc_escape_dot = e\<rparr>
                    \<longleftrightarrow> well_framed m e bs'"
          using 1(1) [rule_format, of bs' "[]"] \<open>bytes = b # bs\<close> Cons by simp
        show ?thesis
          using Cons \<open>bytes = b # bs\<close> special well_framed_special [OF 1(2) special, of m e bs]
          by (auto simp: run_ok_Cons lc_step_def plain_def IH)
      qed
    qed
  qed
qed

lemma lc_accepts_iff:
  "lc_accepts m lc_stored ps \<longleftrightarrow> well_framed m True (concat ps)"
  "lc_accepts m lc_new ps \<longleftrightarrow> well_framed m False (concat ps)"
  using run_ok_well_framed [of "[]" m "concat ps" True]
    run_ok_well_framed [of "[]" m "concat ps" False]
  by (simp_all add: lc_accepts_run lc_stored_def lc_new_def)

lemma well_framed_frame:
  "\<forall>l\<in>set ls. list_all plain l \<Longrightarrow>
     well_framed m e (frame ls) \<longleftrightarrow> (\<forall>l\<in>set ls. weight e l \<le> m)"
proof (induction ls)
  case Nil
  then show ?case using well_framed_plain [of "[]" m e] by simp
next
  case (Cons l ls)
  then show ?case
    using well_framed_special [of l 13 m e "10 # frame ls"] by auto
qed

subsection \<open>The decoder\<close>

text \<open>What \<^verbatim>\<open>next_line\<close> means for a buffer, without the remembered scan position.\<close>

definition ref_next_line :: "nat \<Rightarrow> octets \<Rightarrow> (line_error, (octets \<times> octets) option) result" where
  "ref_next_line m B =
     (let p = takeWhile plain B in
      case dropWhile plain B of
        [] \<Rightarrow> if length p > m + 1 then Inl TooLong else Inr None
      | b # r \<Rightarrow>
          if b = 0 then Inl NulByte
          else if b = 10 then Inl BareControlCharacter
          else (case r of
                  [] \<Rightarrow> if length p > m then Inl TooLong else Inr None
                | c # r' \<Rightarrow>
                    if c \<noteq> 10 then Inl BareControlCharacter
                    else if length p > m then Inl TooLong else Inr (Some (p, r'))))"

lemma next_line_loop_plain:
  "list_all plain p \<Longrightarrow> next_line_loop m (p @ bs) i (lc_resume n)
     = next_line_loop m bs (i + length p) (lc_resume (n + length p))"
proof (induction p arbitrary: i n)
  case (Cons b p)
  then show ?case
    by (simp add: lc_step_def lc_resume_def plain_def)
qed simp

lemma next_line_loop_scanned:
  assumes "ld_inv d"
  shows "next_line_loop m (drop (ld_scanned d) (ld_buffer d)) (ld_scanned d)
           (lc_resume (ld_scanned d))
         = next_line_loop m (dropWhile plain (ld_buffer d))
             (length (takeWhile plain (ld_buffer d)))
             (lc_resume (length (takeWhile plain (ld_buffer d))))"
proof -
  let ?B = "ld_buffer d" and ?s = "ld_scanned d"
  have s: "length (take ?s ?B) = ?s" "list_all plain (take ?s ?B)"
    using assms by (auto simp: ld_inv_def)
  have "next_line_loop m ?B 0 (lc_resume 0)
      = next_line_loop m (drop ?s ?B) ?s (lc_resume ?s)"
    using next_line_loop_plain [OF s(2), of m "drop ?s ?B" 0 0] s(1) by simp
  moreover have "list_all plain (takeWhile plain ?B)"
    by (auto simp: list_all_iff dest: set_takeWhileD)
  then have "next_line_loop m (takeWhile plain ?B @ dropWhile plain ?B) 0 (lc_resume 0)
      = next_line_loop m (dropWhile plain ?B) (length (takeWhile plain ?B))
          (lc_resume (length (takeWhile plain ?B)))"
    using next_line_loop_plain [of "takeWhile plain ?B" m "dropWhile plain ?B" 0 0] by simp
  ultimately show ?thesis by simp
qed

lemma dropWhile_plain_hd: "dropWhile plain B = b # r \<Longrightarrow> b = 0 \<or> b = 10 \<or> b = 13"
  using hd_dropWhile [of plain B] by (auto simp: plain_def)

lemma next_line_loop_special:
  assumes "rest = [] \<or> hd rest = 0 \<or> hd rest = 10 \<or> hd rest = 13"
  shows "next_line_loop m rest n (lc_resume n) =
    (case rest of
       [] \<Rightarrow> Inr (None, lc_resume n)
     | b # r \<Rightarrow>
         if b = 0 then Inl NulByte
         else if b = 10 then Inl BareControlCharacter
         else (case r of
                 [] \<Rightarrow> Inr (None, (lc_resume n)\<lparr>lc_cr := True\<rparr>)
               | c # r' \<Rightarrow>
                   if c \<noteq> 10 then Inl BareControlCharacter
                   else if n > m then Inl TooLong else Inr (Some (n + 1), lc_resume 0)))"
  using assms
  by (cases rest; cases "tl rest") (auto simp: lc_step_def lc_resume_def)

lemma plain_split:
  obtains p rest where "B = p @ rest" "list_all plain p" "takeWhile plain B = p"
    "dropWhile plain B = rest" "rest = [] \<or> hd rest = 0 \<or> hd rest = 10 \<or> hd rest = 13"
proof -
  have "list_all plain (takeWhile plain B)"
    by (auto simp: list_all_iff dest: set_takeWhileD)
  moreover have "dropWhile plain B = [] \<or> hd (dropWhile plain B) = 0
      \<or> hd (dropWhile plain B) = 10 \<or> hd (dropWhile plain B) = 13"
    using dropWhile_plain_hd by (cases "dropWhile plain B") auto
  ultimately show thesis
    by (intro that [of "takeWhile plain B" "dropWhile plain B"]) auto
qed

text \<open>The decoder implements the reference on its buffer, keeps its invariant, and consumes
  octets only with the line it returns.\<close>

lemma next_line_refines:
  assumes inv: "ld_inv d"
  shows "ld_inv (fst (next_line d))" "ld_max_line (fst (next_line d)) = ld_max_line d"
    "case ref_next_line (ld_max_line d) (ld_buffer d) of
       Inl e \<Rightarrow> snd (next_line d) = Inl e \<and> ld_buffer (fst (next_line d)) = ld_buffer d
     | Inr None \<Rightarrow> snd (next_line d) = Inr None \<and> ld_buffer (fst (next_line d)) = ld_buffer d
     | Inr (Some (l, rest)) \<Rightarrow>
         snd (next_line d) = Inr (Some l) \<and> ld_buffer (fst (next_line d)) = rest"
proof -
  obtain p rest where B: "ld_buffer d = p @ rest" "list_all plain p"
    and tw: "takeWhile plain (ld_buffer d) = p" "dropWhile plain (ld_buffer d) = rest"
    and rest: "rest = [] \<or> hd rest = 0 \<or> hd rest = 10 \<or> hd rest = 13"
    using plain_split by blast
  note scan = next_line_loop_scanned [OF inv, of "ld_max_line d", unfolded tw
      next_line_loop_special [OF rest]]
  note ev = next_line_def [of d, unfolded scan]
  show "ld_max_line (fst (next_line d)) = ld_max_line d"
    by (simp add: ev split: sum.splits prod.splits option.splits)
  show "ld_inv (fst (next_line d))"
    using B inv unfolding ev by (auto simp: ld_inv_def lc_resume_def split: list.splits)
  show "case ref_next_line (ld_max_line d) (ld_buffer d) of
       Inl e \<Rightarrow> snd (next_line d) = Inl e \<and> ld_buffer (fst (next_line d)) = ld_buffer d
     | Inr None \<Rightarrow> snd (next_line d) = Inr None \<and> ld_buffer (fst (next_line d)) = ld_buffer d
     | Inr (Some (l, rest)) \<Rightarrow>
         snd (next_line d) = Inr (Some l) \<and> ld_buffer (fst (next_line d)) = rest"
    using B rest unfolding ev ref_next_line_def tw
    by (auto simp: lc_resume_def lc_check_open_def split: list.splits)
qed

subsection \<open>Draining the decoder\<close>

text \<open>The connection loops of the server call \<^verbatim>\<open>next_line\<close> until it asks for more input and
  then feed what they read: \<open>drain\<close> is the inner part of that loop and \<open>pump\<close> the whole.\<close>

lemma next_line_shrinks:
  "next_line d = (d', Inr (Some l)) \<Longrightarrow> length (ld_buffer d') < length (ld_buffer d)"
  by (cases "ld_buffer d")
    (auto simp: next_line_def split: sum.splits prod.splits option.splits)

function drain :: "line_decoder \<Rightarrow> octets list \<times> line_error option \<times> line_decoder" where
  "drain d =
     (case next_line d of
        (d', Inl e) \<Rightarrow> ([], Some e, d')
      | (d', Inr None) \<Rightarrow> ([], None, d')
      | (d', Inr (Some l)) \<Rightarrow> (let (ls, e, d'') = drain d' in (l # ls, e, d'')))"
  by pat_completeness auto
termination
  by (relation "measure (length \<circ> ld_buffer)") (auto dest: next_line_shrinks [OF sym])

declare drain.simps [simp del]

fun pump :: "line_decoder \<Rightarrow> octets list \<Rightarrow> octets list \<times> line_error option \<times> line_decoder" where
  "pump d [] = ([], None, d)"
| "pump d (p # ps) =
     (case drain (ld_feed p d) of
        (ls, Some e, d') \<Rightarrow> (ls, Some e, d')
      | (ls, None, d') \<Rightarrow> (let (ls', e, d'') = pump d' ps in (ls @ ls', e, d'')))"

lemma ld_inv_feed [simp]: "ld_inv d \<Longrightarrow> ld_inv (ld_feed p d)"
  by (simp add: ld_inv_def ld_feed_def)

lemma ld_feed_simps [simp]:
  "ld_buffer (ld_feed p d) = ld_buffer d @ p" "ld_max_line (ld_feed p d) = ld_max_line d"
  by (simp_all add: ld_feed_def)

lemma ref_next_line_frame:
  "list_all plain l \<Longrightarrow> ref_next_line m (l @ 13 # 10 # t)
     = (if length l > m then Inl TooLong else Inr (Some (l, t)))"
  by (simp add: ref_next_line_def Let_def takeWhile_append dropWhile_append list_all_iff)

text \<open>An open tail: plain octets, then possibly a CR whose LF is still to come.\<close>

definition open_tail :: "nat \<Rightarrow> octets \<Rightarrow> bool" where
  "open_tail m t \<longleftrightarrow> (\<exists>p. list_all plain p \<and> length p \<le> m \<and> (t = p \<or> t = p @ [13]))"

lemma ref_next_line_open: "open_tail m t \<Longrightarrow> ref_next_line m t = Inr None"
proof -
  assume "open_tail m t"
  then obtain p where "list_all plain p" "length p \<le> m" "t = p \<or> t = p @ [13]"
    by (auto simp: open_tail_def)
  then show ?thesis
    by (elim disjE)
      (simp_all add: ref_next_line_def Let_def takeWhile_append dropWhile_append list_all_iff
        takeWhile_eq_all_conv [THEN iffD2] dropWhile_eq_Nil_conv [THEN iffD2])
qed

lemma drain_frame:
  assumes "ld_inv d" "ld_buffer d = frame ls @ t" "open_tail (ld_max_line d) t"
    "\<forall>l\<in>set ls. list_all plain l \<and> length l \<le> ld_max_line d"
  shows "\<exists>d'. drain d = (ls, None, d') \<and> ld_inv d' \<and> ld_buffer d' = t
           \<and> ld_max_line d' = ld_max_line d"
  using assms
proof (induction ls arbitrary: d)
  case Nil
  obtain d' r where "next_line d = (d', r)" by force
  then show ?case
    using next_line_refines [OF Nil.prems(1)] Nil.prems
    by (auto simp: ref_next_line_open drain.simps [of d])
next
  case (Cons l ls)
  obtain d' r where nl: "next_line d = (d', r)" by force
  then have d': "r = Inr (Some l)" "ld_buffer d' = frame ls @ t" "ld_inv d'"
    "ld_max_line d' = ld_max_line d"
    using next_line_refines [OF Cons.prems(1)] Cons.prems(2,4)
    by (auto simp: ref_next_line_frame)
  then show ?case
    using Cons.IH [of d'] Cons.prems nl
    by (auto simp: drain.simps [of d])
qed

text \<open>A framed stream cut anywhere: whole lines, an open tail, and the rest.\<close>

lemma frame_cut:
  assumes "B @ X = frame ls" "\<forall>l\<in>set ls. list_all plain l \<and> length l \<le> m"
  shows "\<exists>ls1 ls2 t. ls = ls1 @ ls2 \<and> B = frame ls1 @ t \<and> t @ X = frame ls2 \<and> open_tail m t"
  using assms
proof (induction ls arbitrary: B)
  case Nil
  then show ?case by (auto simp: open_tail_def)
next
  case (Cons l ls)
  show ?case
  proof (cases "length B \<le> length l + 1")
    case True
    have "B = take (length B) (l @ 13 # 10 # frame ls)"
      using Cons.prems(1) by (metis append_eq_conv_conj frame_simps(2))
    also have "\<dots> = (if length B \<le> length l then take (length B) l else l @ [13])"
      using True by (cases "length B - length l") auto
    finally have B: "B = (if length B \<le> length l then take (length B) l else l @ [13])" .
    have "list_all plain (take (length B) l)"
      using Cons.prems(2) by (auto simp: list_all_iff dest: in_set_takeD)
    then have "open_tail m B"
      using B Cons.prems(2) unfolding open_tail_def
      by (metis length_take list.set_intros(1) min.coboundedI1)
    with Cons.prems(1) show ?thesis
      by (intro exI [of _ "[]"] exI [of _ "l # ls"] exI [of _ B]) simp
  next
    case False
    then have len: "length (l @ [13, 10]) \<le> length B" by simp
    have "B @ X = (l @ [13, 10]) @ frame ls"
      using Cons.prems(1) by simp
    then consider B' where "B = (l @ [13, 10]) @ B'" "B' @ X = frame ls"
      | us where "B @ us = l @ [13, 10]" "X = us @ frame ls"
      unfolding append_eq_append_conv2 by blast
    then obtain B' where B': "B = (l @ [13, 10]) @ B'" "B' @ X = frame ls"
    proof cases
      case 2
      then have "length B + length us = length (l @ [13, 10])"
        by (metis length_append)
      with len have "length us = 0" by linarith
      then have "us = []" by simp
      with 2 show thesis by (intro that [of "[]"]) auto
    qed blast
    from Cons.IH [OF B'(2)] Cons.prems(2) obtain ls1 ls2 t where
      "ls = ls1 @ ls2" "B' = frame ls1 @ t" "t @ X = frame ls2" "open_tail m t"
      by auto
    with B'(1) show ?thesis
      by (intro exI [of _ "l # ls1"] exI [of _ ls2] exI [of _ t]) simp
  qed
qed

lemma open_tail_frame: "open_tail m t \<Longrightarrow> t = frame ls \<Longrightarrow> ls = []"
  by (cases ls) (auto simp: open_tail_def list_all_iff plain_def append_eq_append_conv2
      Cons_eq_append_conv)

lemma pump_frame:
  assumes "ld_inv d" "ld_buffer d @ concat ps = frame ls" "open_tail (ld_max_line d) (ld_buffer d)"
    "\<forall>l\<in>set ls. list_all plain l \<and> length l \<le> ld_max_line d"
  shows "\<exists>d'. pump d ps = (ls, None, d') \<and> ld_buffer d' = []"
  using assms
proof (induction ps arbitrary: d ls)
  case Nil
  then show ?case using open_tail_frame [of "ld_max_line d" "ld_buffer d" ls] by simp
next
  case (Cons p ps)
  let ?d = "ld_feed p d"
  have "ld_buffer ?d @ concat ps = frame ls" using Cons.prems(2) by simp
  from frame_cut [OF this Cons.prems(4)] obtain ls1 ls2 t where
    cut: "ls = ls1 @ ls2" "ld_buffer ?d = frame ls1 @ t" "t @ concat ps = frame ls2"
      "open_tail (ld_max_line d) t"
    by auto
  have "\<exists>d'. drain ?d = (ls1, None, d') \<and> ld_inv d' \<and> ld_buffer d' = t
      \<and> ld_max_line d' = ld_max_line ?d"
    by (rule drain_frame) (use Cons.prems(1,4) cut in auto)
  then obtain d' where d': "drain ?d = (ls1, None, d')" "ld_inv d'" "ld_buffer d' = t"
    "ld_max_line d' = ld_max_line d"
    by auto
  have "\<exists>d''. pump d' ps = (ls2, None, d'') \<and> ld_buffer d'' = []"
    by (rule Cons.IH) (use d' cut Cons.prems(4) in auto)
  with d'(1) cut(1) show ?case by auto
qed

lemma next_line_bounded:
  assumes "ld_inv d" "next_line d = (d', Inr (Some l))"
  shows "list_all plain l \<and> length l \<le> ld_max_line d"
proof -
  have "case ref_next_line (ld_max_line d) (ld_buffer d) of
      Inl e \<Rightarrow> False | Inr None \<Rightarrow> False | Inr (Some (l', r)) \<Rightarrow> l' = l"
    using next_line_refines(3) [OF assms(1)] assms(2)
    by (auto split: sum.splits option.splits)
  then show ?thesis
    by (auto simp: ref_next_line_def Let_def list_all_iff split: list.splits if_splits
        dest: set_takeWhileD)
qed

lemma drain_bounded:
  "ld_inv d \<Longrightarrow> drain d = (ls, e, d') \<Longrightarrow>
     (\<forall>l\<in>set ls. length l \<le> ld_max_line d) \<and> ld_inv d' \<and> ld_max_line d' = ld_max_line d"
proof (induction d arbitrary: ls e d' rule: drain.induct)
  case (1 d)
  obtain d1 r where nl: "next_line d = (d1, r)" by force
  then have d1: "ld_inv d1" "ld_max_line d1 = ld_max_line d"
    using next_line_refines [OF "1.prems"(1)] by auto
  show ?case
  proof (cases "\<exists>l. r = Inr (Some l)")
    case True
    then obtain l where l: "r = Inr (Some l)" by auto
    obtain ls1 e1 d2 where dr: "drain d1 = (ls1, e1, d2)" by (metis prod_cases3)
    have "(\<forall>l\<in>set ls1. length l \<le> ld_max_line d1) \<and> ld_inv d2 \<and> ld_max_line d2 = ld_max_line d1"
      using "1.IH" [OF nl [symmetric] l refl d1(1) dr] .
    moreover have "ls = l # ls1" "d' = d2"
      using "1.prems"(2) nl l dr by (simp_all add: drain.simps [of d])
    ultimately show ?thesis
      using d1(2) next_line_bounded [OF "1.prems"(1)] nl l by auto
  next
    case False
    with "1.prems"(2) nl d1 show ?thesis
      by (auto simp: drain.simps [of d] split: sum.splits option.splits)
  qed
qed

lemma pump_bounded:
  "ld_inv d \<Longrightarrow> pump d ps = (ls, e, d') \<Longrightarrow> \<forall>l\<in>set ls. length l \<le> ld_max_line d"
proof (induction ps arbitrary: d ls)
  case (Cons p ps)
  obtain ls1 e1 d1 where dr: "drain (ld_feed p d) = (ls1, e1, d1)" by (metis prod_cases3)
  then have b: "\<forall>l\<in>set ls1. length l \<le> ld_max_line d" "ld_inv d1" "ld_max_line d1 = ld_max_line d"
    using drain_bounded [of "ld_feed p d"] Cons.prems(1) by auto
  obtain ls2 e2 d2 where pu: "pump d1 ps = (ls2, e2, d2)" by (metis prod_cases3)
  show ?case
    using Cons.prems(2) dr pu b Cons.IH [of d1 ls2]
    by (cases e1) auto
qed auto

subsection \<open>Properties\<close>

text \<open>The BDAT body check accepts a body, cut into pieces anywhere (between a CR and its LF
  included), exactly when the whole body consists of CRLF-ended lines and at most one open last
  line, without any bare CR, bare LF or NUL, and with every line within the cap once its
  stuffing dot is counted.\<close>

theorem stored_check_exact:
  "lc_accepts m lc_stored ps \<longleftrightarrow> well_framed m True (concat ps)"
  by (rule lc_accepts_iff(1))

text \<open>C5: The decoder with its remembered scan position computes what a rescan of the whole
  buffer would: the same line, request for more input or error, consuming exactly the returned
  line and its CRLF; it keeps its invariant, and an unfinished line never holds more than the
  cap and one octet.\<close>

theorem next_line_correct:
  assumes "ld_inv d"
  shows "ld_inv (fst (next_line d))
    \<and> (case ref_next_line (ld_max_line d) (ld_buffer d) of
         Inl e \<Rightarrow> snd (next_line d) = Inl e \<and> ld_buffer (fst (next_line d)) = ld_buffer d
       | Inr None \<Rightarrow> snd (next_line d) = Inr None \<and> ld_buffer (fst (next_line d)) = ld_buffer d
           \<and> length (ld_buffer d) \<le> ld_max_line d + 1
       | Inr (Some (l, rest)) \<Rightarrow>
           snd (next_line d) = Inr (Some l) \<and> ld_buffer (fst (next_line d)) = rest
           \<and> ld_buffer d = l @ [13, 10] @ rest \<and> list_all plain l \<and> length l \<le> ld_max_line d)"
proof -
  obtain p rest where B: "ld_buffer d = p @ rest" "list_all plain p"
    and tw: "takeWhile plain (ld_buffer d) = p" "dropWhile plain (ld_buffer d) = rest"
    and rest: "rest = [] \<or> hd rest = 0 \<or> hd rest = 10 \<or> hd rest = 13"
    using plain_split by blast
  then have "case ref_next_line (ld_max_line d) (ld_buffer d) of
         Inl e \<Rightarrow> True | Inr None \<Rightarrow> length (ld_buffer d) \<le> ld_max_line d + 1
       | Inr (Some (l, r)) \<Rightarrow>
           ld_buffer d = l @ [13, 10] @ r \<and> list_all plain l \<and> length l \<le> ld_max_line d"
    unfolding ref_next_line_def tw by (auto split: list.splits)
  then show ?thesis
    using next_line_refines [OF assms] by (auto split: sum.splits option.splits)
qed

theorem next_line_correct_witness:
  "ld_inv \<lparr>ld_buffer = [72, 73, 13, 10, 65], ld_max_line = 998, ld_scanned = 2\<rparr>
   \<and> snd (next_line \<lparr>ld_buffer = [72, 73, 13, 10, 65], ld_max_line = 998, ld_scanned = 2\<rparr>)
       = Inr (Some [72, 73])"
  using next_line_correct [of "\<lparr>ld_buffer = [72, 73, 13, 10, 65], ld_max_line = 998,
      ld_scanned = 2\<rparr>"]
  by (simp add: ld_inv_def plain_def ref_next_line_def)

text \<open>C6: A stream of lines within the cap, sent in pieces cut anywhere, comes out of the decoder
  as exactly those lines, in order, without an error and with nothing left in the buffer.\<close>

theorem framing_round_trip:
  assumes "\<forall>l\<in>set ls. list_all plain l \<and> length l \<le> m" and "concat ps = frame ls"
  shows "\<exists>d'. pump (ld_with_limit m) ps = (ls, None, d') \<and> ld_buffer d' = []"
  by (rule pump_frame) (use assms in \<open>auto simp: ld_with_limit_def ld_inv_def open_tail_def\<close>)

theorem framing_round_trip_witness:
  "\<exists>d'. pump (ld_with_limit 998) [[72, 13], [10, 73], [13, 10]] = ([[72], [73]], None, d')
     \<and> ld_buffer d' = []"
  by (rule framing_round_trip) (simp_all add: plain_def)



end
