(* ===== verification/Net_Cidr.thy ===== *)
theory Net_Cidr
  imports Prelude
begin

section \<open>IP addresses and CIDR blocks\<close>

text \<open>
  Addresses as words (\<^verbatim>\<open>std::net::IpAddr\<close>), the textual parser of the standard library, and
  the blocks of \<^verbatim>\<open>src/src/cidr/mod.rs\<close> that restrict credentials, relays and trusted networks.
  Also \<^verbatim>\<open>client_key\<close> of \<^verbatim>\<open>src/src/smtp/per_ip/mod.rs\<close>, the key every per-client limit uses.
\<close>

unbundle bit_operations_syntax

datatype ipaddr = V4 "32 word" | V6 "128 word"

subsection \<open>The standard library's address parser\<close>

definition hex_value :: "rchar \<Rightarrow> nat option" where
  "hex_value c = (if is_digit c then Some (c - 48)
     else if 97 \<le> c \<and> c \<le> 102 then Some (c - 87)
     else if 65 \<le> c \<and> c \<le> 70 then Some (c - 55) else None)"

definition digit_value :: "nat \<Rightarrow> rchar \<Rightarrow> nat option" where
  "digit_value radix c =
     (case hex_value c of Some v \<Rightarrow> if v < radix then Some v else None | None \<Rightarrow> None)"

text \<open>\<^verbatim>\<open>Parser::read_number\<close>: as many digits as there are; more than \<open>max_digits\<close> of them, none,
  a value above \<open>bound\<close>, or a leading zero where that is not allowed is a failure.\<close>

fun take_digits :: "nat \<Rightarrow> rstr \<Rightarrow> nat list \<times> rstr" where
  "take_digits radix [] = ([], [])"
| "take_digits radix (c # s) =
     (case digit_value radix c of
        None \<Rightarrow> ([], c # s)
      | Some v \<Rightarrow> (let (vs, r) = take_digits radix s in (v # vs, r)))"

definition read_number ::
    "nat \<Rightarrow> nat \<Rightarrow> nat \<Rightarrow> bool \<Rightarrow> rstr \<Rightarrow> (nat \<times> rstr) option" where
  "read_number radix max_digits bound allow_zero s =
     (let (vs, r) = take_digits radix s;
          n = foldl (\<lambda>a v. radix * a + v) 0 vs
      in if vs = [] \<or> length vs > max_digits \<or> n > bound
            \<or> \<not> allow_zero \<and> hd vs = 0 \<and> length vs > 1
         then None else Some (n, r))"

text \<open>\<^verbatim>\<open>Parser::read_separator\<close>: the separator is read before every element but the first.\<close>

definition read_sep :: "rchar \<Rightarrow> nat \<Rightarrow> rstr \<Rightarrow> rstr option" where
  "read_sep sep i s =
     (if i = 0 then Some s else case s of c # t \<Rightarrow> if c = sep then Some t else None | [] \<Rightarrow> None)"

fun read_v4_groups :: "nat list \<Rightarrow> rstr \<Rightarrow> (nat list \<times> rstr) option" where
  "read_v4_groups [] s = Some ([], s)"
| "read_v4_groups (i # is) s =
     (case read_sep 46 i s of None \<Rightarrow> None | Some t \<Rightarrow>
        (case read_number 10 3 255 False t of None \<Rightarrow> None | Some (n, r) \<Rightarrow>
           (case read_v4_groups is r of None \<Rightarrow> None | Some (ns, q) \<Rightarrow> Some (n # ns, q))))"

definition read_ipv4 :: "rstr \<Rightarrow> (nat \<times> rstr) option" where
  "read_ipv4 s = (case read_v4_groups [0, 1, 2, 3] s of None \<Rightarrow> None
     | Some (ns, r) \<Rightarrow> Some (foldl (\<lambda>a n. 256 * a + n) 0 ns, r))"

text \<open>\<^verbatim>\<open>read_groups\<close>: up to as many 16-bit groups as there are indices, the last two possibly written as an embedded
  IPv4 address; the groups, whether they end in one, and the unread rest.\<close>

fun read_groups :: "nat list \<Rightarrow> rstr \<Rightarrow> nat list \<times> bool \<times> rstr" where
  "read_groups [] s = ([], False, s)"
| "read_groups (i # is) s =
     (let v4 = (if is = [] then None
                else case read_sep 58 i s of None \<Rightarrow> None | Some t \<Rightarrow> read_ipv4 t)
      in case v4 of
           Some (a, r) \<Rightarrow> ([a div 65536, a mod 65536], True, r)
         | None \<Rightarrow>
             (case (case read_sep 58 i s of None \<Rightarrow> None | Some t \<Rightarrow> read_number 16 4 65535 True t) of
                None \<Rightarrow> ([], False, s)
              | Some (n, r) \<Rightarrow> (let (ns, e, q) = read_groups is r in (n # ns, e, q))))"

definition groups_value :: "nat list \<Rightarrow> nat" where
  "groups_value ns = foldl (\<lambda>a n. 65536 * a + n) 0 ns"

definition read_ipv6 :: "rstr \<Rightarrow> (nat \<times> rstr) option" where
  "read_ipv6 s =
     (let (head, ends_v4, r) = read_groups [0, 1, 2, 3, 4, 5, 6, 7] s in
      if length head = 8 then Some (groups_value head, r)
      else if ends_v4 then None
      else (case strip_prefix [58, 58] r of
              None \<Rightarrow> None
            | Some t \<Rightarrow>
                (let (tail, _, q) = read_groups (take (8 - (length head + 1)) [0, 1, 2, 3, 4, 5, 6]) t
                 in Some (groups_value (head @ replicate (8 - length head - length tail) 0 @ tail), q))))"

definition parse_ipv4 :: "rstr \<Rightarrow> 32 word option" where
  "parse_ipv4 s = (if slen s > 15 then None else
     case read_ipv4 s of Some (a, []) \<Rightarrow> Some (of_nat a) | _ \<Rightarrow> None)"

definition parse_ipv6 :: "rstr \<Rightarrow> 128 word option" where
  "parse_ipv6 s = (case read_ipv6 s of Some (a, []) \<Rightarrow> Some (of_nat a) | _ \<Rightarrow> None)"

definition parse_ip :: "rstr \<Rightarrow> ipaddr option" where
  "parse_ip s =
     (case read_ipv4 s of
        Some (a, r) \<Rightarrow> if r = [] then Some (V4 (of_nat a)) else None
      | None \<Rightarrow> (case read_ipv6 s of Some (a, []) \<Rightarrow> Some (V6 (of_nat a)) | _ \<Rightarrow> None))"

lemmas ip_parse_defs = parse_ip_def parse_ipv4_def parse_ipv6_def read_ipv4_def read_ipv6_def
  groups_value_def read_number_def read_sep_def digit_value_def hex_value_def

text \<open>\<^verbatim>\<open>IpAddr::to_canonical\<close>: an IPv4-mapped address is its IPv4 address.\<close>

definition to_canonical :: "ipaddr \<Rightarrow> ipaddr" where
  "to_canonical ip =
     (case ip of V4 a \<Rightarrow> V4 a
      | V6 a \<Rightarrow> if drop_bit 32 a = 65535 then V4 (ucast a) else V6 a)"

subsection \<open>Blocks\<close>

record cidr =
  cidr_base :: ipaddr
  cidr_prefix :: nat

definition apply_mask_u128 :: "128 word \<Rightarrow> nat \<Rightarrow> nat \<Rightarrow> 128 word" where
  "apply_mask_u128 v p width =
     (if p = 0 then 0 else if p \<ge> width then v
      else v AND push_bit (width - p) (- 1))"

definition mask_addr :: "ipaddr \<Rightarrow> nat \<Rightarrow> ipaddr" where
  "mask_addr addr p =
     (case addr of
        V4 a \<Rightarrow> V4 (ucast (apply_mask_u128 (ucast a) p 32))
      | V6 a \<Rightarrow> V6 (apply_mask_u128 a p 128))"

definition cidr_parse :: "rstr \<Rightarrow> cidr option" where
  "cidr_parse spec =
     (let spec = trim spec;
          (addr_part, prefix_part) = (case split_once 47 spec of
             Some (a, p) \<Rightarrow> (a, Some p) | None \<Rightarrow> (spec, None))
      in case parse_ip addr_part of
           None \<Rightarrow> None
         | Some addr \<Rightarrow>
             (let mx = (case addr of V4 _ \<Rightarrow> 32 | V6 _ \<Rightarrow> 128)
              in case prefix_part of
                   None \<Rightarrow> Some \<lparr>cidr_base = mask_addr addr mx, cidr_prefix = mx\<rparr>
                 | Some txt \<Rightarrow>
                     (case parse_uint u8_max txt of
                        None \<Rightarrow> None
                      | Some v \<Rightarrow> if v > mx then None
                                  else Some \<lparr>cidr_base = mask_addr addr v, cidr_prefix = v\<rparr>)))"

definition cidr_contains :: "cidr \<Rightarrow> ipaddr \<Rightarrow> bool" where
  "cidr_contains c ip =
     (case (cidr_base c, ip) of
        (V4 _, V4 _) \<Rightarrow> mask_addr ip (cidr_prefix c) = cidr_base c
      | (V6 _, V6 _) \<Rightarrow> mask_addr ip (cidr_prefix c) = cidr_base c
      | _ \<Rightarrow> False)"

definition cidr_is_host :: "cidr \<Rightarrow> bool" where
  "cidr_is_host c = (case cidr_base c of V4 _ \<Rightarrow> cidr_prefix c = 32 | V6 _ \<Rightarrow> cidr_prefix c = 128)"

definition client_key :: "ipaddr \<Rightarrow> ipaddr" where
  "client_key ip =
     (case to_canonical ip of
        V6 a \<Rightarrow> V6 (a AND NOT 18446744073709551615)
      | V4 a \<Rightarrow> V4 a)"

subsection \<open>Reference notions\<close>

text \<open>The width of a family, and an address as a number.\<close>

definition ip_width :: "ipaddr \<Rightarrow> nat" where
  "ip_width ip = (case ip of V4 _ \<Rightarrow> 32 | V6 _ \<Rightarrow> 128)"

definition ip_nat :: "ipaddr \<Rightarrow> nat" where
  "ip_nat ip = (case ip of V4 a \<Rightarrow> unat a | V6 a \<Rightarrow> unat a)"

definition same_family :: "ipaddr \<Rightarrow> ipaddr \<Rightarrow> bool" where
  "same_family a b \<longleftrightarrow> ip_width a = ip_width b"

text \<open>The block of prefix length \<open>p\<close> an address lies in, as the number its top \<open>p\<close> bits spell.\<close>

definition top_bits :: "nat \<Rightarrow> ipaddr \<Rightarrow> nat" where
  "top_bits p ip = ip_nat ip div 2 ^ (ip_width ip - p)"

definition cidr_wf :: "cidr \<Rightarrow> bool" where
  "cidr_wf c \<longleftrightarrow> cidr_prefix c \<le> ip_width (cidr_base c) \<and> mask_addr (cidr_base c) (cidr_prefix c) = cidr_base c"

subsection \<open>Masks\<close>

lemma bit_push_drop: "bit (push_bit h (drop_bit h (a :: 'w::len word))) n \<longleftrightarrow> h \<le> n \<and> bit a n"
  by (auto simp: bit_push_bit_iff bit_drop_bit_eq dest: bit_imp_le_length)

lemma apply_mask_bit:
  "p \<le> width \<Longrightarrow> width \<le> 128 \<Longrightarrow> n < width \<Longrightarrow>
     bit (apply_mask_u128 v p width) n \<longleftrightarrow> width - p \<le> n \<and> bit v n"
  by (auto simp: apply_mask_u128_def bit_and_iff bit_not_iff bit_mask_iff)

lemma mask_V4: "p \<le> 32 \<Longrightarrow> mask_addr (V4 a) p = V4 (push_bit (32 - p) (drop_bit (32 - p) a))"
  by (auto simp: mask_addr_def apply_mask_bit bit_push_drop bit_ucast_iff intro!: bit_eqI)

lemma mask_V6: "p \<le> 128 \<Longrightarrow> mask_addr (V6 a) p = V6 (push_bit (128 - p) (drop_bit (128 - p) a))"
  by (auto simp: mask_addr_def apply_mask_bit bit_push_drop intro!: bit_eqI)

lemma push_drop_eq_iff:
  fixes a b :: "'w::len word"
  shows "push_bit h (drop_bit h a) = push_bit h (drop_bit h b)
           \<longleftrightarrow> unat a div 2 ^ h = unat b div 2 ^ h"
proof -
  have "push_bit h (drop_bit h a) = push_bit h (drop_bit h b) \<longleftrightarrow> drop_bit h a = drop_bit h b"
  proof
    assume "push_bit h (drop_bit h a) = push_bit h (drop_bit h b)"
    then have *: "bit a n \<longleftrightarrow> bit b n" if "h \<le> n" for n
      using that bit_push_drop [of h a n] bit_push_drop [of h b n] by simp
    show "drop_bit h a = drop_bit h b"
      by (rule bit_eqI) (simp add: bit_drop_bit_eq *)
  qed simp
  also have "\<dots> \<longleftrightarrow> unat a div 2 ^ h = unat b div 2 ^ h"
  proof -
    have "unat (drop_bit h x) = unat x div 2 ^ h" for x :: "'w word"
      by (rule trans [OF unat_drop_bit_eq drop_bit_eq_div])
    then show ?thesis by (metis word_unat_eq_iff)
  qed
  finally show ?thesis .
qed

lemma mask_eq_iff:
  assumes "same_family a b" "p \<le> ip_width a"
  shows "mask_addr a p = mask_addr b p \<longleftrightarrow> top_bits p a = top_bits p b"
  using assms
  by (cases a; cases b)
    (simp_all add: same_family_def ip_width_def mask_V4 mask_V6 push_drop_eq_iff top_bits_def
      ip_nat_def)

lemma mask_family [simp]: "same_family (mask_addr a p) a" "ip_width (mask_addr a p) = ip_width a"
  by (cases a; simp add: same_family_def mask_addr_def ip_width_def)+

lemma mask_idem: "p \<le> ip_width a \<Longrightarrow> mask_addr (mask_addr a p) p = mask_addr a p"
  by (cases a) (auto simp: ip_width_def mask_V4 mask_V6 bit_push_drop intro!: bit_eqI)

lemma cidr_wf_mask: "p \<le> ip_width a \<Longrightarrow> cidr_wf \<lparr>cidr_base = mask_addr a p, cidr_prefix = p\<rparr>"
  by (simp add: cidr_wf_def mask_idem)

lemma cidr_parse_wf: "cidr_parse spec = Some c \<Longrightarrow> cidr_wf c"
  by (auto simp: cidr_parse_def Let_def ip_width_def intro!: cidr_wf_mask
      split: option.splits prod.splits if_splits ipaddr.splits)

lemma contains_family: "cidr_contains c ip \<longleftrightarrow>
    same_family (cidr_base c) ip \<and> mask_addr ip (cidr_prefix c) = cidr_base c"
  by (auto simp: cidr_contains_def same_family_def ip_width_def split: ipaddr.splits)

lemma contains_iff_top_bits:
  assumes "cidr_wf c"
  shows "cidr_contains c ip \<longleftrightarrow> same_family (cidr_base c) ip
           \<and> top_bits (cidr_prefix c) ip = top_bits (cidr_prefix c) (cidr_base c)"
proof (cases "same_family (cidr_base c) ip")
  case True
  then have "mask_addr ip (cidr_prefix c) = mask_addr (cidr_base c) (cidr_prefix c)
      \<longleftrightarrow> top_bits (cidr_prefix c) ip = top_bits (cidr_prefix c) (cidr_base c)"
    using assms by (intro mask_eq_iff) (auto simp: same_family_def cidr_wf_def)
  with True assms show ?thesis
    by (simp add: contains_family cidr_wf_def)
qed (simp add: contains_family)

lemma low_half_mask: "(18446744073709551615 :: 128 word) = mask 64"
  by (simp add: mask_eq_exp_minus_1)

lemma client_key_V6:
  "drop_bit 32 a \<noteq> 65535 \<Longrightarrow> client_key (V6 a) = V6 (push_bit 64 (drop_bit 64 a))"
  unfolding client_key_def to_canonical_def low_half_mask
  by (auto simp: bit_push_drop bit_and_iff bit_not_iff bit_mask_iff intro!: bit_eqI)

lemma not_mapped_high: "drop_bit 32 (push_bit 64 (drop_bit 64 (a :: 128 word))) \<noteq> 65535"
proof
  assume "drop_bit 32 (push_bit 64 (drop_bit 64 a)) = 65535"
  then have "bit (drop_bit 32 (push_bit 64 (drop_bit 64 a))) 0 = bit (65535 :: 128 word) 0"
    by simp
  then show False
    by (simp add: bit_drop_bit_eq bit_push_drop)
qed

text \<open>Two clients share a key exactly when they are the same IPv4 address (mapped or not) or
  lie in the same IPv6 /64.\<close>

lemma client_key_eq_iff:
  "client_key a = client_key b \<longleftrightarrow>
     same_family (to_canonical a) (to_canonical b)
     \<and> top_bits (min 64 (ip_width (to_canonical a))) (to_canonical a)
         = top_bits (min 64 (ip_width (to_canonical a))) (to_canonical b)"
proof -
  have key: "client_key ip = (case to_canonical ip of V4 x \<Rightarrow> V4 x
      | V6 x \<Rightarrow> V6 (push_bit 64 (drop_bit 64 x)))" for ip
    unfolding client_key_def low_half_mask
    by (auto simp: bit_push_drop bit_and_iff bit_not_iff bit_mask_iff
        intro!: bit_eqI split: ipaddr.splits)
  show ?thesis
    by (cases "to_canonical a"; cases "to_canonical b")
      (auto simp: key same_family_def ip_width_def top_bits_def ip_nat_def push_drop_eq_iff
        intro: word_unat_eq_iff [THEN iffD2])
qed

lemma client_key_idem: "client_key (client_key ip) = client_key ip"
proof (cases "to_canonical ip")
  case (V4 x)
  then show ?thesis by (simp add: client_key_def to_canonical_def)
next
  case (V6 x)
  then have "ip = V6 x" "drop_bit 32 x \<noteq> 65535"
    by (auto simp: to_canonical_def split: ipaddr.splits if_splits)
  then show ?thesis
    using client_key_V6 [OF not_mapped_high [of x]]
    by (auto simp: client_key_V6 bit_push_drop intro!: bit_eqI)
qed

subsection \<open>Properties\<close>

text \<open>C13: A CIDR specification that parses yields a block whose base has no host bits and whose
  prefix fits its family, and that block contains exactly the addresses of the same family whose
  top prefix-length bits are those of the address written in the specification.\<close>

theorem cidr_parse_exact:
  assumes "cidr_parse spec = Some c"
  shows "cidr_wf c \<and> (\<forall>ip. cidr_contains c ip \<longleftrightarrow> same_family (cidr_base c) ip
           \<and> top_bits (cidr_prefix c) ip = top_bits (cidr_prefix c) (cidr_base c))"
  using cidr_parse_wf [OF assms] contains_iff_top_bits by blast

lemma parse_10_8: "cidr_parse (lit '' 10.1.2.3/8'') = Some \<lparr>cidr_base = V4 0x0A000000, cidr_prefix = 8\<rparr>"
  by (simp add: cidr_parse_def str_simps sat_simps ip_parse_defs mask_addr_def
      apply_mask_u128_def mask_eq_exp_minus_1)

theorem cidr_parse_exact_witness:
  "cidr_parse (lit '' 10.1.2.3/8'') = Some \<lparr>cidr_base = V4 0x0A000000, cidr_prefix = 8\<rparr>
   \<and> cidr_contains \<lparr>cidr_base = V4 0x0A000000, cidr_prefix = 8\<rparr> (V4 0x0AFFFFFF)
   \<and> \<not> cidr_contains \<lparr>cidr_base = V4 0x0A000000, cidr_prefix = 8\<rparr> (V4 0x0B000000)"
  using parse_10_8 cidr_parse_exact [OF parse_10_8]
  by (simp add: same_family_def ip_width_def top_bits_def ip_nat_def)

text \<open>Two peers are counted as one client exactly when, after IPv4-mapped addresses are
  unwrapped, they are the same IPv4 address or two IPv6 addresses of the same /64; and the key of
  a key is the key itself.\<close>

theorem client_key_exact:
  "(client_key a = client_key b \<longleftrightarrow>
     same_family (to_canonical a) (to_canonical b)
     \<and> top_bits (min 64 (ip_width (to_canonical a))) (to_canonical a)
         = top_bits (min 64 (ip_width (to_canonical a))) (to_canonical b))
   \<and> client_key (client_key a) = client_key a"
  using client_key_eq_iff client_key_idem by blast

end
