(* ===== verification/Rate_Limit.thy ===== *)
theory Rate_Limit
  imports Prelude "HOL-Library.AList"
begin

section \<open>Fixed-window rate limiter\<close>

text \<open>
  \<^verbatim>\<open>WindowLimiter\<close> of \<^verbatim>\<open>src/src/smtp/ratelimit/mod.rs\<close>: a map from lowercased keys to the start of
  their window and the units used in it, and a queue of the windows started, oldest first, from
  which a slot is freed when the map is full. The \<^verbatim>\<open>BTreeMap\<close> is an association list with distinct
  keys. The lemmas show that the queue always holds the record of every entry (so a full map can
  always free a slot), that both structures stay bounded, and that a limiter for authenticated
  keys behaves as if it kept every window for ever.
\<close>

subsection \<open>The code\<close>

definition MAX_ENTRIES :: nat where
  "MAX_ENTRIES = 10000"

type_synonym wl_map = "(rstr \<times> nat \<times> nat) list"
type_synonym wl_queue = "(rstr \<times> nat) list"

record window_limiter =
  wl_window_secs :: nat
  wl_authenticated_keys :: bool
  wl_entries :: wl_map
  wl_windows :: wl_queue

definition wl_live :: "wl_map \<Rightarrow> rstr \<times> nat \<Rightarrow> bool" where
  "wl_live es r = (case map_of es (fst r) of Some (s, _) \<Rightarrow> s = snd r | None \<Rightarrow> False)"

definition record_window :: "rstr \<Rightarrow> nat \<Rightarrow> wl_map \<Rightarrow> wl_queue \<Rightarrow> wl_queue" where
  "record_window key start es ws =
     (let ws' = ws @ [(key, start)]
      in if length ws' > 2 * max (length es) MAX_ENTRIES then filter (wl_live es) ws' else ws')"

fun free_slot :: "nat \<Rightarrow> nat \<Rightarrow> bool \<Rightarrow> wl_map \<Rightarrow> wl_queue \<Rightarrow> wl_map \<times> wl_queue \<times> bool" where
  "free_slot now window_secs evict_active es [] = (es, [], False)"
| "free_slot now window_secs evict_active es (r # ws) =
     (if \<not> wl_live es r then free_slot now window_secs evict_active es ws
      else if now - snd r < window_secs \<and> \<not> evict_active then (es, r # ws, False)
      else (AList.delete (fst r) es, ws, True))"

definition wl_new :: "nat \<Rightarrow> window_limiter" where
  "wl_new window_secs = \<lparr>wl_window_secs = max window_secs 1, wl_authenticated_keys = False,
     wl_entries = [], wl_windows = []\<rparr>"

definition wl_for_authenticated_keys :: "nat \<Rightarrow> window_limiter" where
  "wl_for_authenticated_keys window_secs = (wl_new window_secs)\<lparr>wl_authenticated_keys := True\<rparr>"

text \<open>\<^verbatim>\<open>used + count\<close> on an existing entry is a plain \<^verbatim>\<open>u32\<close> addition, which wraps in a release
  build.\<close>

definition check_n :: "rstr \<Rightarrow> nat \<Rightarrow> nat \<Rightarrow> nat \<Rightarrow> window_limiter \<Rightarrow> window_limiter \<times> bool" where
  "check_n key count limit now wl =
     (if limit = 0 \<or> count = 0 then (wl, True)
      else let k = ascii_lower key; es = wl_entries wl in
        case map_of es k of
          Some (s, u) \<Rightarrow>
            (let restart = now - s \<ge> wl_window_secs wl;
                 used = (if restart then 0 else u)
             in if sat_add u32_max used count > limit then (wl, False)
                else if restart then
                  (let es' = AList.update k (now, count) es
                   in (wl\<lparr>wl_entries := es', wl_windows := record_window k now es' (wl_windows wl)\<rparr>,
                       True))
                else (wl\<lparr>wl_entries := AList.update k (s, (used + count) mod 2 ^ 32) es\<rparr>, True))
        | None \<Rightarrow>
            if count > limit then (wl, False)
            else (let (es1, ws1, freed) =
                        (if length es \<ge> MAX_ENTRIES
                         then free_slot now (wl_window_secs wl) (\<not> wl_authenticated_keys wl) es
                                (wl_windows wl)
                         else (es, wl_windows wl, True))
                  in if \<not> freed \<and> \<not> wl_authenticated_keys wl
                     then (wl\<lparr>wl_entries := es1, wl_windows := ws1\<rparr>, False)
                     else let es2 = AList.update k (now, count) es1
                          in (wl\<lparr>wl_entries := es2, wl_windows := record_window k now es2 ws1\<rparr>,
                              True)))"

definition wl_check :: "rstr \<Rightarrow> nat \<Rightarrow> nat \<Rightarrow> window_limiter \<Rightarrow> window_limiter \<times> bool" where
  "wl_check key limit now wl = check_n key 1 limit now wl"

definition wl_has_room :: "rstr \<Rightarrow> nat \<Rightarrow> nat \<Rightarrow> nat \<Rightarrow> window_limiter \<Rightarrow> bool" where
  "wl_has_room key count limit now wl =
     (if limit = 0 \<or> count = 0 then True
      else let used = (case map_of (wl_entries wl) (ascii_lower key) of
                         Some (s, u) \<Rightarrow> if now - s < wl_window_secs wl then u else 0
                       | None \<Rightarrow> 0)
           in sat_add u32_max used count \<le> limit)"

definition wl_refund :: "rstr \<Rightarrow> nat \<Rightarrow> nat \<Rightarrow> window_limiter \<Rightarrow> window_limiter" where
  "wl_refund key count now wl =
     (let k = ascii_lower key in
      case map_of (wl_entries wl) k of
        Some (s, u) \<Rightarrow>
          if s \<le> now \<and> now - s < wl_window_secs wl
          then wl\<lparr>wl_entries := AList.update k (s, u - count) (wl_entries wl)\<rparr> else wl
      | None \<Rightarrow> wl)"

subsection \<open>Reference notions\<close>

text \<open>The window of a key that is running at time \<open>t\<close>, and the units used in it.\<close>

definition running :: "nat \<Rightarrow> nat \<Rightarrow> nat \<times> nat \<Rightarrow> (nat \<times> nat) option" where
  "running w t e = (if t - fst e < w then Some e else None)"

definition wl_view :: "window_limiter \<Rightarrow> nat \<Rightarrow> rstr \<Rightarrow> (nat \<times> nat) option" where
  "wl_view wl t key =
     Option.bind (map_of (wl_entries wl) (ascii_lower key)) (running (wl_window_secs wl) t)"

definition wl_used :: "window_limiter \<Rightarrow> nat \<Rightarrow> rstr \<Rightarrow> nat" where
  "wl_used wl t key = (case wl_view wl t key of Some (s, u) \<Rightarrow> u | None \<Rightarrow> 0)"

text \<open>The starts recorded for a key in the queue, in order.\<close>

definition starts :: "wl_queue \<Rightarrow> rstr \<Rightarrow> nat list" where
  "starts ws k = map snd (filter (\<lambda>r. fst r = k) ws)"

definition queue_inv :: "wl_map \<Rightarrow> wl_queue \<Rightarrow> bool" where
  "queue_inv es ws \<longleftrightarrow> distinct (map fst es) \<and>
     (\<forall>k. case map_of es k of
            None \<Rightarrow> starts ws k = []
          | Some (s, u) \<Rightarrow> starts ws k \<noteq> [] \<and> last (starts ws k) = s
                          \<and> sorted_wrt (<) (starts ws k))"

definition wl_inv :: "window_limiter \<Rightarrow> bool" where
  "wl_inv wl \<longleftrightarrow> 0 < wl_window_secs wl \<and> queue_inv (wl_entries wl) (wl_windows wl)
     \<and> length (wl_windows wl) \<le> 2 * max (length (wl_entries wl)) MAX_ENTRIES
     \<and> (wl_authenticated_keys wl \<or> length (wl_entries wl) \<le> MAX_ENTRIES)"

subsection \<open>The queue of windows\<close>

lemma starts_simps [simp]:
  "starts [] k = []"
  "starts (r # ws) k = (if fst r = k then snd r # starts ws k else starts ws k)"
  "starts (ws @ vs) k = starts ws k @ starts vs k"
  by (simp_all add: starts_def)

lemma queue_inv_None: "queue_inv es ws \<Longrightarrow> map_of es k = None \<Longrightarrow> starts ws k = []"
  unfolding queue_inv_def by (elim conjE allE [of _ k]) simp

lemma queue_inv_Some:
  "queue_inv es ws \<Longrightarrow> map_of es k = Some (s, u) \<Longrightarrow>
     starts ws k \<noteq> [] \<and> last (starts ws k) = s \<and> sorted_wrt (<) (starts ws k)"
  unfolding queue_inv_def by (elim conjE allE [of _ k]) simp

lemma queue_invI:
  assumes "distinct (map fst es)"
    and "\<And>k. map_of es k = None \<Longrightarrow> starts ws k = []"
    and "\<And>k s u. map_of es k = Some (s, u) \<Longrightarrow>
           starts ws k \<noteq> [] \<and> last (starts ws k) = s \<and> sorted_wrt (<) (starts ws k)"
  shows "queue_inv es ws"
  using assms unfolding queue_inv_def by (auto split: option.splits)

lemma pop_dead:
  assumes inv: "queue_inv es (r # ws)" and dead: "\<not> wl_live es r"
  shows "queue_inv es ws"
proof (rule queue_invI)
  show "distinct (map fst es)" using inv by (simp add: queue_inv_def)
next
  fix k assume "map_of es k = None"
  from queue_inv_None [OF inv this] show "starts ws k = []" by (simp split: if_splits)
next
  fix k s u assume k: "map_of es k = Some (s, u)"
  note q = queue_inv_Some [OF inv k]
  show "starts ws k \<noteq> [] \<and> last (starts ws k) = s \<and> sorted_wrt (<) (starts ws k)"
  proof (cases "fst r = k")
    case True
    with dead k have "snd r \<noteq> s" by (simp add: wl_live_def)
    with q True show ?thesis by (auto split: if_splits)
  qed (use q in simp)
qed

lemma length_delete:
  "distinct (map fst es) \<Longrightarrow> map_of es k = Some v \<Longrightarrow> length (AList.delete k es) + 1 = length es"
proof (induction es)
  case (Cons e es)
  show ?case
  proof (cases "fst e = k")
    case True
    with Cons.prems have "k \<notin> set (map fst es)" by auto
    then have "AList.delete k es = es" by (auto simp: AList.delete_idem image_iff)
    with True show ?thesis by (cases e) simp
  next
    case False
    with Cons show ?thesis by (cases e) auto
  qed
qed simp

lemma length_update:
  "length (AList.update k v es) = (if map_of es k = None then length es + 1 else length es)"
  by (induction es) auto

lemma pop_live:
  assumes inv: "queue_inv es (r # ws)" and live: "wl_live es r"
  shows "queue_inv (AList.delete (fst r) es) ws"
    "length (AList.delete (fst r) es) + 1 = length es"
proof -
  obtain u where u: "map_of es (fst r) = Some (snd r, u)"
    using live by (auto simp: wl_live_def split: option.splits)
  have dist: "distinct (map fst es)" using inv by (simp add: queue_inv_def)
  show "length (AList.delete (fst r) es) + 1 = length es"
    by (rule length_delete [OF dist u])
  have empty: "starts ws (fst r) = []"
  proof (rule ccontr)
    assume ne: "starts ws (fst r) \<noteq> []"
    with queue_inv_Some [OF inv u] have "last (starts ws (fst r)) = snd r"
      "\<forall>x\<in>set (starts ws (fst r)). snd r < x" by simp_all
    with last_in_set [OF ne] show False by auto
  qed
  show "queue_inv (AList.delete (fst r) es) ws"
  proof (rule queue_invI)
    show "distinct (map fst (AList.delete (fst r) es))"
      using dist by (rule AList.distinct_delete)
  next
    fix k assume "map_of (AList.delete (fst r) es) k = None"
    then show "starts ws k = []"
      using empty queue_inv_None [OF inv, of k]
      by (auto simp: AList.delete_conv' split: if_splits)
  next
    fix k s u' assume "map_of (AList.delete (fst r) es) k = Some (s, u')"
    then show "starts ws k \<noteq> [] \<and> last (starts ws k) = s \<and> sorted_wrt (<) (starts ws k)"
      using queue_inv_Some [OF inv, of k] by (auto simp: AList.delete_conv' split: if_splits)
  qed
qed

text \<open>Freeing a slot keeps the queue right; it fails only on a running window it may not drop.\<close>

lemma free_slot_correct:
  assumes "queue_inv es ws" "free_slot now w evict es ws = (es', ws', freed)"
  shows "queue_inv es' ws' \<and> length ws' \<le> length ws
    \<and> (if freed then length es' + 1 = length es
         \<and> (\<exists>k s u. map_of es k = Some (s, u) \<and> es' = AList.delete k es \<and> (evict \<or> now - s \<ge> w))
       else es' = es)
    \<and> (evict \<longrightarrow> es \<noteq> [] \<longrightarrow> freed)"
  using assms
proof (induction ws arbitrary: es' ws')
  case Nil
  have False if ne: "es \<noteq> []"
  proof -
    obtain e es0 where "es = e # es0" using ne by (cases es) auto
    moreover obtain k s u where "e = (k, s, u)" by (cases e)
    ultimately have "map_of es k = Some (s, u)" by simp
    from queue_inv_Some [OF Nil.prems(1) this] show False by simp
  qed
  with Nil show ?case by auto
next
  case (Cons r ws)
  show ?case
  proof (cases "wl_live es r")
    case False
    then show ?thesis
      using Cons.IH [OF pop_dead [OF Cons.prems(1) False]] Cons.prems(2)
      by (cases freed) auto
  next
    case True
    then obtain u where "map_of es (fst r) = Some (snd r, u)"
      by (auto simp: wl_live_def split: option.splits)
    then show ?thesis
      using True Cons.prems pop_live [OF Cons.prems(1) True]
      by (auto split: if_splits simp: not_less intro!: exI [of _ "fst r"])
  qed
qed

lemma starts_filter_live:
  assumes "map_of es k = Some (s, u)" "starts ws k \<noteq> []" "last (starts ws k) = s"
    "sorted_wrt (<) (starts ws k)"
  shows "starts (filter (wl_live es) ws) k = [s]"
proof -
  have "starts (filter (wl_live es) ws) k = filter (\<lambda>x. x = s) (starts ws k)"
    using assms(1) by (induction ws) (auto simp: wl_live_def)
  moreover obtain xs where "starts ws k = xs @ [s]"
    using assms(2,3) by (metis append_butlast_last_id)
  ultimately show ?thesis
    using assms(4) by (auto simp: sorted_wrt_append filter_empty_conv)
qed

lemma length_one_each:
  "(\<And>k. length (starts ws k) \<le> 1) \<Longrightarrow> distinct (map fst ws)"
proof (induction ws)
  case (Cons r ws)
  have "length (starts ws k) \<le> 1" for k
    using Cons.prems [of k] by (auto split: if_splits)
  moreover have "fst r \<notin> set (map fst ws)"
  proof
    assume "fst r \<in> set (map fst ws)"
    then have "starts ws (fst r) \<noteq> []"
      by (force simp: starts_def filter_empty_conv)
    then show False using Cons.prems [of "fst r"] by (auto split: if_splits)
  qed
  ultimately show ?case using Cons.IH by simp
qed simp

text \<open>Compaction keeps the record of every entry, and exactly one of them.\<close>

lemma record_window_correct:
  assumes inv: "queue_inv es (ws @ [(k, s)])"
  shows "queue_inv es (record_window k s es ws)"
    "length (record_window k s es ws) \<le> 2 * max (length es) MAX_ENTRIES"
proof -
  define f where "f = filter (wl_live es) (ws @ [(k, s)])"
  have dist: "distinct (map fst es)" using inv by (simp add: queue_inv_def)
  have one: "starts f k' = [s']" if "map_of es k' = Some (s', u')" for k' s' u'
    unfolding f_def using starts_filter_live [OF that] queue_inv_Some [OF inv that] by blast
  have none: "starts f k' = []" if "map_of es k' = None" for k'
    using queue_inv_None [OF inv that] by (auto simp: f_def starts_def filter_empty_conv)
  have compact: "queue_inv es f"
    by (rule queue_invI) (use dist one none in auto)
  have "length (starts f k') \<le> 1" for k'
    by (cases "map_of es k'") (use one none in auto)
  then have "distinct (map fst f)" by (rule length_one_each)
  moreover have "fst r \<in> set (map fst es)" if "r \<in> set f" for r
  proof -
    have "wl_live es r"
      using that unfolding f_def set_filter by blast
    then have "map_of es (fst r) \<noteq> None"
      by (auto simp: wl_live_def split: option.splits)
    then show ?thesis by (simp add: map_of_eq_None_iff)
  qed
  then have "set (map fst f) \<subseteq> set (map fst es)" by auto
  then have "card (set (map fst f)) \<le> card (set (map fst es))"
    by (intro card_mono) auto
  ultimately have "length f \<le> length es"
    using dist distinct_card [of "map fst f"] distinct_card [of "map fst es"] by simp
  then show "length (record_window k s es ws) \<le> 2 * max (length es) MAX_ENTRIES"
    unfolding record_window_def Let_def f_def [symmetric] by (auto simp: max_def)
  show "queue_inv es (record_window k s es ws)"
    using inv compact unfolding record_window_def Let_def f_def [symmetric] by simp
qed

lemma queue_inv_update:
  assumes inv: "queue_inv es ws" and k: "map_of es k = Some (s, u)"
  shows "queue_inv (AList.update k (s, u') es) ws"
proof (rule queue_invI)
  show "distinct (map fst (AList.update k (s, u') es))"
    using inv by (simp add: queue_inv_def AList.distinct_update)
next
  fix k' assume "map_of (AList.update k (s, u') es) k' = None"
  then show "starts ws k' = []"
    using queue_inv_None [OF inv] by (auto simp: AList.update_conv' split: if_splits)
next
  fix k' s' x assume "map_of (AList.update k (s, u') es) k' = Some (s', x)"
  then show "starts ws k' \<noteq> [] \<and> last (starts ws k') = s' \<and> sorted_wrt (<) (starts ws k')"
    using queue_inv_Some [OF inv] k by (auto simp: AList.update_conv' split: if_splits)
qed

lemma sorted_wrt_last_le: "sorted_wrt (<) xs \<Longrightarrow> x \<in> set xs \<Longrightarrow> x \<le> last (xs :: nat list)"
  by (induction xs) (auto simp: less_imp_le)

lemma queue_inv_push:
  assumes inv: "queue_inv es ws" and new: "case map_of es k of Some (s, u) \<Rightarrow> s < now | None \<Rightarrow> True"
  shows "queue_inv (AList.update k (now, c) es) (ws @ [(k, now)])"
proof (rule queue_invI)
  show "distinct (map fst (AList.update k (now, c) es))"
    using inv by (simp add: queue_inv_def AList.distinct_update)
next
  fix k' assume "map_of (AList.update k (now, c) es) k' = None"
  then show "starts (ws @ [(k, now)]) k' = []"
    using queue_inv_None [OF inv] by (auto simp: AList.update_conv' split: if_splits)
next
  fix k' s' x assume k': "map_of (AList.update k (now, c) es) k' = Some (s', x)"
  show "starts (ws @ [(k, now)]) k' \<noteq> [] \<and> last (starts (ws @ [(k, now)]) k') = s'
      \<and> sorted_wrt (<) (starts (ws @ [(k, now)]) k')"
  proof (cases "k' = k")
    case True
    have "sorted_wrt (<) (starts ws k) \<and> (\<forall>y\<in>set (starts ws k). y < now)"
    proof (cases "map_of es k")
      case None
      then show ?thesis using queue_inv_None [OF inv] by simp
    next
      case (Some e)
      obtain s u where e: "e = (s, u)" by (cases e)
      with Some new have "s < now" by simp
      with queue_inv_Some [OF inv Some [unfolded e]] sorted_wrt_last_le show ?thesis
        by (metis le_less_trans)
    qed
    with True k' show ?thesis by (simp add: AList.update_conv' sorted_wrt_append)
  next
    case False
    with k' show ?thesis using queue_inv_Some [OF inv] by (simp add: AList.update_conv')
  qed
qed

subsection \<open>The limiter's operations\<close>

lemma check_n_window [simp]:
  "wl_window_secs (fst (check_n key count limit now wl)) = wl_window_secs wl"
  "wl_authenticated_keys (fst (check_n key count limit now wl)) = wl_authenticated_keys wl"
  by (auto simp: check_n_def Let_def split: option.splits prod.splits if_splits)

text \<open>The branch for an unseen key: a slot is found, and the map does not grow past its cap.\<close>

definition make_room :: "nat \<Rightarrow> window_limiter \<Rightarrow> wl_map \<times> wl_queue \<times> bool" where
  "make_room now wl =
     (if length (wl_entries wl) \<ge> MAX_ENTRIES
      then free_slot now (wl_window_secs wl) (\<not> wl_authenticated_keys wl) (wl_entries wl)
             (wl_windows wl)
      else (wl_entries wl, wl_windows wl, True))"

lemma make_room_correct:
  assumes inv: "wl_inv wl" and mr: "make_room now wl = (es1, ws1, freed)"
  shows "queue_inv es1 ws1 \<and> (\<not> wl_authenticated_keys wl \<longrightarrow> freed \<and> length es1 < MAX_ENTRIES)
    \<and> (es1 = wl_entries wl \<or>
       (\<exists>k s u. map_of (wl_entries wl) k = Some (s, u) \<and> es1 = AList.delete k (wl_entries wl)
          \<and> (wl_authenticated_keys wl \<longrightarrow> now - s \<ge> wl_window_secs wl)))"
proof (cases "length (wl_entries wl) \<ge> MAX_ENTRIES")
  case True
  have q: "queue_inv (wl_entries wl) (wl_windows wl)" using inv by (simp add: wl_inv_def)
  have "free_slot now (wl_window_secs wl) (\<not> wl_authenticated_keys wl) (wl_entries wl)
      (wl_windows wl) = (es1, ws1, freed)"
    using mr True by (simp add: make_room_def)
  note f = free_slot_correct [OF q this]
  have "wl_entries wl \<noteq> []" using True by (auto simp: MAX_ENTRIES_def)
  with f inv True show ?thesis
    by (cases freed) (auto simp: wl_inv_def)
next
  case False
  with mr inv show ?thesis by (auto simp: make_room_def wl_inv_def)
qed

lemma check_n_unseen:
  "limit \<noteq> 0 \<Longrightarrow> count \<noteq> 0 \<Longrightarrow> map_of (wl_entries wl) (ascii_lower key) = None \<Longrightarrow>
   count \<le> limit \<Longrightarrow> make_room now wl = (es1, ws1, freed) \<Longrightarrow>
   freed \<or> wl_authenticated_keys wl \<Longrightarrow>
   check_n key count limit now wl =
     (let es2 = AList.update (ascii_lower key) (now, count) es1
      in (wl\<lparr>wl_entries := es2, wl_windows := record_window (ascii_lower key) now es2 ws1\<rparr>, True))"
  unfolding check_n_def make_room_def Let_def by (auto split: if_splits)

lemma check_n_noop:
  "limit = 0 \<or> count = 0 \<Longrightarrow> check_n key count limit now wl = (wl, True)"
  by (simp add: check_n_def)

lemma check_n_refused:
  assumes inv: "wl_inv wl" and no: "\<not> snd (check_n key count limit now wl)"
  shows "fst (check_n key count limit now wl) = wl"
proof (cases "limit = 0 \<or> count = 0")
  case False
  show ?thesis
  proof (cases "map_of (wl_entries wl) (ascii_lower key)")
    case None
    obtain es1 ws1 freed where mr: "make_room now wl = (es1, ws1, freed)" by (metis prod_cases3)
    have "\<not> count \<le> limit"
      using no False check_n_unseen [OF _ _ None _ mr] make_room_correct [OF inv mr]
      by (auto simp: Let_def)
    then show ?thesis using None by (simp add: check_n_def Let_def)
  next
    case (Some e)
    with no False show ?thesis
      by (cases e) (auto simp: check_n_def Let_def split: if_splits)
  qed
qed (simp add: check_n_noop)

lemma check_n_inv:
  assumes inv: "wl_inv wl"
  shows "wl_inv (fst (check_n key count limit now wl))"
proof (cases "snd (check_n key count limit now wl) \<and> limit \<noteq> 0 \<and> count \<noteq> 0")
  case False
  then have "fst (check_n key count limit now wl) = wl"
    using check_n_refused [OF inv] by (cases "limit = 0 \<or> count = 0") (auto simp: check_n_noop)
  with inv show ?thesis by simp
next
  case True
  let ?k = "ascii_lower key"
  have q: "queue_inv (wl_entries wl) (wl_windows wl)" using inv by (simp add: wl_inv_def)
  show ?thesis
  proof (cases "map_of (wl_entries wl) ?k")
    case None
    obtain es1 ws1 freed where mr: "make_room now wl = (es1, ws1, freed)" by (metis prod_cases3)
    note m = make_room_correct [OF inv mr]
    have le: "count \<le> limit"
      using True None by (auto simp: check_n_def Let_def split: if_splits)
    have k1: "map_of es1 ?k = None"
      using m None by (auto simp: AList.delete_conv' split: if_splits)
    let ?es2 = "AList.update ?k (now, count) es1"
    have "queue_inv ?es2 (ws1 @ [(?k, now)])"
      by (rule queue_inv_push) (use m k1 in auto)
    note r = record_window_correct [OF this]
    have "length ?es2 \<le> MAX_ENTRIES \<or> wl_authenticated_keys wl"
      using m k1 by (auto simp: length_update)
    then show ?thesis
      using r m inv True check_n_unseen [OF _ _ None le mr]
      by (auto simp: wl_inv_def Let_def)
  next
    case (Some e)
    obtain s u where e: "e = (s, u)" by (cases e)
    note k = Some [unfolded e]
    show ?thesis
    proof (cases "now - s \<ge> wl_window_secs wl")
      case restart: True
      have "s < now" using restart inv by (auto simp: wl_inv_def)
      then have "queue_inv (AList.update ?k (now, count) (wl_entries wl))
          (wl_windows wl @ [(?k, now)])"
        by (intro queue_inv_push q) (simp add: k)
      note r = record_window_correct [OF this]
      show ?thesis
        using r inv True restart by (auto simp: check_n_def Let_def k wl_inv_def length_update)
    next
      case False
      then show ?thesis
        using inv True queue_inv_update [OF q k]
        by (auto simp: check_n_def Let_def k wl_inv_def length_update)
    qed
  qed
qed

lemma check_n_result:
  assumes inv: "wl_inv wl" and u32: "limit < u32_max"
  shows "snd (check_n key count limit now wl)
           \<longleftrightarrow> limit = 0 \<or> count = 0 \<or> wl_used wl now key + count \<le> limit"
proof (cases "limit = 0 \<or> count = 0")
  case False
  show ?thesis
  proof (cases "map_of (wl_entries wl) (ascii_lower key)")
    case None
    obtain es1 ws1 freed where mr: "make_room now wl = (es1, ws1, freed)" by (metis prod_cases3)
    have "count \<le> limit \<Longrightarrow> snd (check_n key count limit now wl)"
      using False check_n_unseen [OF _ _ None _ mr] make_room_correct [OF inv mr]
      by (auto simp: Let_def)
    moreover have "\<not> count \<le> limit \<Longrightarrow> \<not> snd (check_n key count limit now wl)"
      using None False by (simp add: check_n_def Let_def)
    ultimately show ?thesis
      using None False by (auto simp: wl_used_def wl_view_def)
  next
    case (Some e)
    with False u32 show ?thesis
      by (cases e) (auto simp: check_n_def Let_def wl_used_def wl_view_def running_def
          sat_add_gr_iff)
  qed
qed (auto simp: check_n_noop)

lemma has_room_result:
  "limit < u32_max \<Longrightarrow> wl_has_room key count limit now wl
     \<longleftrightarrow> limit = 0 \<or> count = 0 \<or> wl_used wl now key + count \<le> limit"
  by (auto simp: wl_has_room_def wl_used_def wl_view_def running_def sat_add_le_iff
      split: option.splits)

text \<open>The window of every key at every later time, after a charge.\<close>

lemma check_n_view:
  assumes inv: "wl_inv wl" and auth: "wl_authenticated_keys wl" and u32: "limit < u32_max"
    and le: "now \<le> t" and ok: "snd (check_n key count limit now wl)"
    and pos: "limit \<noteq> 0" "count \<noteq> 0"
  shows "wl_view (fst (check_n key count limit now wl)) t k =
    (if ascii_lower k = ascii_lower key
     then (case wl_view wl now key of
             Some (s, u) \<Rightarrow> running (wl_window_secs wl) t (s, u + count)
           | None \<Rightarrow> running (wl_window_secs wl) t (now, count))
     else wl_view wl t k)"
proof (cases "map_of (wl_entries wl) (ascii_lower key)")
  case None
  obtain es1 ws1 freed where mr: "make_room now wl = (es1, ws1, freed)" by (metis prod_cases3)
  note m = make_room_correct [OF inv mr]
  have "count \<le> limit"
    using ok pos None by (auto simp: check_n_def Let_def split: if_splits)
  note un = check_n_unseen [OF pos None this mr]
  have same: "Option.bind (map_of es1 x) (running (wl_window_secs wl) t)
      = Option.bind (map_of (wl_entries wl) x) (running (wl_window_secs wl) t)" for x
    using m auth le by (auto simp: AList.delete_conv' running_def)
  show ?thesis
    using un auth None same
    by (auto simp: wl_view_def Let_def AList.update_conv')
next
  case (Some e)
  obtain s u where e: "e = (s, u)" by (cases e)
  show ?thesis
  proof (cases "now - s \<ge> wl_window_secs wl")
    case True
    with Some e ok pos show ?thesis
      by (auto simp: check_n_def Let_def wl_view_def AList.update_conv' running_def split: if_splits)
  next
    case False
    have "u + count \<le> limit"
      using check_n_result [OF inv u32] ok pos Some e False
      by (simp add: wl_used_def wl_view_def running_def)
    then have "(u + count) mod 2 ^ 32 = u + count"
      using u32 by (simp add: u32_max_def)
    with Some e False ok pos show ?thesis
      by (auto simp: check_n_def Let_def wl_view_def AList.update_conv' running_def split: if_splits)
  qed
qed

lemma refund_inv: "wl_inv wl \<Longrightarrow> wl_inv (wl_refund key count now wl)"
  by (auto simp: wl_refund_def Let_def wl_inv_def length_update queue_inv_update
      split: option.splits)

lemma refund_window [simp]:
  "wl_window_secs (wl_refund key count now wl) = wl_window_secs wl"
  "wl_authenticated_keys (wl_refund key count now wl) = wl_authenticated_keys wl"
  by (auto simp: wl_refund_def Let_def split: option.splits)

text \<open>No window of the limiter starts after \<open>now\<close>: the clock has not gone back.\<close>

definition wl_past :: "nat \<Rightarrow> window_limiter \<Rightarrow> bool" where
  "wl_past now wl \<longleftrightarrow> (\<forall>k s u. map_of (wl_entries wl) k = Some (s, u) \<longrightarrow> s \<le> now)"

lemma wl_past_refund: "wl_past now wl \<Longrightarrow> wl_past now (wl_refund key count t wl)"
  by (auto simp: wl_past_def wl_refund_def Let_def AList.update_conv' split: option.splits if_splits)

lemma wl_past_check:
  assumes inv: "wl_inv wl" and past: "wl_past now wl"
  shows "wl_past now (fst (check_n key count limit now wl))"
proof (cases "snd (check_n key count limit now wl) \<and> limit \<noteq> 0 \<and> count \<noteq> 0")
  case False
  then show ?thesis
    using check_n_refused [OF inv] past
    by (cases "limit = 0 \<or> count = 0") (auto simp: check_n_noop)
next
  case True
  show ?thesis
  proof (cases "map_of (wl_entries wl) (ascii_lower key)")
    case None
    obtain es1 ws1 freed where mr: "make_room now wl = (es1, ws1, freed)" by (metis prod_cases3)
    have "count \<le> limit"
      using True None by (auto simp: check_n_def Let_def split: if_splits)
    then have st: "fst (check_n key count limit now wl) = wl\<lparr>wl_entries :=
        AList.update (ascii_lower key) (now, count) es1, wl_windows := record_window
          (ascii_lower key) now (AList.update (ascii_lower key) (now, count) es1) ws1\<rparr>"
      using True check_n_unseen [OF _ _ None _ mr] make_room_correct [OF inv mr]
      by (auto simp: Let_def)
    have "map_of (wl_entries wl) k = Some e" if "map_of es1 k = Some e" for k e
      using make_room_correct [OF inv mr] that by (auto simp: AList.delete_conv' split: if_splits)
    with past show ?thesis
      unfolding st wl_past_def by (auto simp: AList.update_conv' split: if_splits) blast
  next
    case (Some e)
    with True past show ?thesis
      by (cases e) (auto simp: wl_past_def check_n_def Let_def AList.update_conv' split: if_splits)
  qed
qed

lemma refund_used:
  "wl_past now wl \<Longrightarrow> wl_used (wl_refund key count now wl) now k =
     wl_used wl now k - (if ascii_lower k = ascii_lower key then count else 0)"
  by (auto simp: wl_past_def wl_used_def wl_view_def wl_refund_def Let_def running_def
      AList.update_conv' split: option.splits)

lemma check_n_used:
  assumes "wl_inv wl" "wl_authenticated_keys wl" "limit < u32_max" "0 < limit"
  shows "wl_used (fst (check_n key count limit now wl)) now k = wl_used wl now k
    + (if snd (check_n key count limit now wl) \<and> ascii_lower k = ascii_lower key then count else 0)"
proof (cases "snd (check_n key count limit now wl) \<and> count \<noteq> 0")
  case False
  then show ?thesis
    using check_n_refused [OF assms(1)] by (cases "count = 0") (auto simp: check_n_noop)
next
  case True
  have w: "0 < wl_window_secs wl" using assms(1) by (simp add: wl_inv_def)
  have same: "wl_view wl now k = wl_view wl now key" if "ascii_lower k = ascii_lower key"
    using that by (simp add: wl_view_def)
  have run: "now - s < wl_window_secs wl" if "wl_view wl now key = Some (s, u)" for s u
    using that by (auto simp: wl_view_def running_def bind_eq_Some_conv split: if_splits)
  show ?thesis
    using True assms w same run check_n_view [OF assms(1-3) le_refl,
        where key = key and count = count and k = k and now = now]
    by (auto simp: wl_used_def running_def split: option.splits)
qed

subsection \<open>Properties\<close>

lemma wl_inv_new: "wl_inv (wl_new w)" "wl_inv (wl_for_authenticated_keys w)"
  by (auto simp: wl_inv_def wl_new_def wl_for_authenticated_keys_def queue_inv_def)

inductive wl_reachable :: "window_limiter \<Rightarrow> bool" where
  wl_start: "wl_reachable (wl_new w)"
| wl_start_authenticated: "wl_reachable (wl_for_authenticated_keys w)"
| wl_step_check: "wl_reachable wl \<Longrightarrow> wl_reachable (fst (check_n key count limit now wl))"
| wl_step_refund: "wl_reachable wl \<Longrightarrow> wl_reachable (wl_refund key count now wl)"

lemma wl_reachable_inv: "wl_reachable wl \<Longrightarrow> wl_inv wl"
  by (induction rule: wl_reachable.induct) (auto intro: wl_inv_new check_n_inv refund_inv)

text \<open>C9: However a limiter is used (any keys, limits and clock readings, the clock going back
  included), its window queue never holds more than twice as many records as the map has entries
  (or as the cap), a network-keyed map never exceeds its cap, and a key it has not seen whose units
  fit the limit is always admitted: the map being full never refuses it.\<close>

theorem limiter_bounded_and_never_stuck:
  assumes "wl_reachable wl"
  shows "length (wl_windows wl) \<le> 2 * max (length (wl_entries wl)) MAX_ENTRIES
    \<and> (wl_authenticated_keys wl \<or> length (wl_entries wl) \<le> MAX_ENTRIES)
    \<and> (map_of (wl_entries wl) (ascii_lower key) = None \<and> count \<le> limit
        \<longrightarrow> snd (check_n key count limit now wl))"
proof -
  note inv = wl_reachable_inv [OF assms]
  have "snd (check_n key count limit now wl)"
    if None: "map_of (wl_entries wl) (ascii_lower key) = None" and le: "count \<le> limit"
  proof (cases "limit = 0 \<or> count = 0")
    case False
    obtain es1 ws1 freed where mr: "make_room now wl = (es1, ws1, freed)" by (metis prod_cases3)
    show ?thesis
      using False check_n_unseen [OF _ _ None le mr] make_room_correct [OF inv mr]
      by (auto simp: Let_def)
  qed (simp add: check_n_noop)
  with inv show ?thesis by (simp add: wl_inv_def)
qed

theorem limiter_bounded_and_never_stuck_witness:
  "snd (check_n (lit ''bob'') 2 5 1000 (fst (check_n (lit ''Ann'') 1 5 1000 (wl_new 60))))"
proof -
  have "wl_reachable (fst (check_n (lit ''Ann'') 1 5 1000 (wl_new 60)))"
    by (intro wl_reachable.intros)
  from limiter_bounded_and_never_stuck [OF this, of "lit ''bob''" 2 5 1000] show ?thesis
    by (simp add: check_n_def Let_def wl_new_def str_simps record_window_def MAX_ENTRIES_def)
qed

text \<open>C8: A limiter for authenticated keys implements per-key fixed windows that are never evicted.
  A charge is admitted exactly when the units used in the running window plus the charge fit the
  limit; an admitted charge adds its units to the running window of that key, or starts one; a
  refused charge, and every other key's running window at any later time, is left as it was, even
  when room had to be made in a full map. Asking for room answers what the charge would.\<close>

theorem authenticated_limiter_refines_windows:
  assumes "wl_reachable wl" "wl_authenticated_keys wl"
    and "0 < limit" "limit < u32_max" "0 < count" "now \<le> t"
  shows "(snd (check_n key count limit now wl) \<longleftrightarrow> wl_used wl now key + count \<le> limit)
    \<and> wl_has_room key count limit now wl = snd (check_n key count limit now wl)
    \<and> wl_view (fst (check_n key count limit now wl)) t k =
        (if snd (check_n key count limit now wl) \<and> ascii_lower k = ascii_lower key
         then (case wl_view wl now key of
                 Some (s, u) \<Rightarrow> running (wl_window_secs wl) t (s, u + count)
               | None \<Rightarrow> running (wl_window_secs wl) t (now, count))
         else wl_view wl t k)"
proof -
  note inv = wl_reachable_inv [OF assms(1)]
  show ?thesis
    using assms(3-6) check_n_result [OF inv assms(4)] has_room_result [OF assms(4)]
      check_n_view [OF inv assms(2,4,6)] check_n_refused [OF inv]
    by (cases "snd (check_n key count limit now wl)") auto
qed

theorem authenticated_limiter_refines_windows_witness:
  "snd (check_n (lit ''bob'') 3 5 1000 (wl_for_authenticated_keys 60)) \<and>
   wl_view (fst (check_n (lit ''bob'') 3 5 1000 (wl_for_authenticated_keys 60))) 1030 (lit ''BOB'')
     = Some (1000, 3)"
proof -
  have r: "wl_reachable (wl_for_authenticated_keys 60)" by (rule wl_reachable.intros)
  show ?thesis
    using authenticated_limiter_refines_windows [OF r, of 5 3 1000 1030 "lit ''bob''" "lit ''BOB''"]
    by (simp add: wl_for_authenticated_keys_def wl_new_def u32_max_def wl_used_def wl_view_def
        running_def str_simps)
qed

end
