(* ===== verification/Submission_Budget.thy ===== *)
theory Submission_Budget
  imports Rate_Limit
begin

section \<open>Submission limits charged together\<close>

text \<open>
  \<^verbatim>\<open>Budget\<close> of \<^verbatim>\<open>src/src/smtp/submission_budget/mod.rs\<close> with the tenants of
  \<^verbatim>\<open>src/src/api/tenant_limits/mod.rs\<close> it collects limits from. The limiters are shared
  (\<^verbatim>\<open>Arc<SendLimiter>\<close>), so they live in a store indexed by what an \<^verbatim>\<open>Arc\<close> points to: the one
  per-account limiter, or the limiter of a tenant. What a budget needs of a limiter is the locale
  \<open>unit_limiter\<close>; the charging lemmas are proved in it and used through its interpretation on the
  window limiter.
\<close>

subsection \<open>Tenants\<close>

record tenant =
  t_name :: "rstr option"
  t_domains :: "rstr list"
  t_rate_per_min :: "nat option"

datatype limiter_ref = AccountLimiter | TenantLimiter nat

record tenant_limits =
  tl_tenants :: "tenant list"
  tl_by_domain :: "(rstr \<times> nat) list"

definition domains_lc :: "tenant \<Rightarrow> rstr list" where
  "domains_lc t = map ascii_lower (t_domains t)"

definition index_domains :: "nat \<times> tenant \<Rightarrow> (rstr \<times> nat) list \<Rightarrow> (rstr \<times> nat) list" where
  "index_domains it m = fold (\<lambda>d. AList.update d (fst it)) (domains_lc (snd it)) m"

definition tl_from_config :: "tenant list \<Rightarrow> tenant_limits" where
  "tl_from_config ts =
     \<lparr>tl_tenants = ts, tl_by_domain = fold index_domains (zip [0..<length ts] ts) []\<rparr>"

definition tenant_label :: "tenant \<Rightarrow> rstr" where
  "tenant_label t = (case t_name t of Some n \<Rightarrow> n | None \<Rightarrow> lit ''<unnamed tenant>'')"

text \<open>Positions of the tenants owning one of the addresses, each once.\<close>

fun tenants_for_addresses :: "(rstr \<times> nat) list \<Rightarrow> nat list \<Rightarrow> rstr list \<Rightarrow> nat list" where
  "tenants_for_addresses by_domain seen [] = []"
| "tenants_for_addresses by_domain seen (raw # rest) =
     (case rsplit_once 64 raw of
        None \<Rightarrow> tenants_for_addresses by_domain seen rest
      | Some (_, domain) \<Rightarrow>
          (case map_of by_domain (ascii_lower domain) of
             None \<Rightarrow> tenants_for_addresses by_domain seen rest
           | Some i \<Rightarrow>
               if i \<in> set seen then tenants_for_addresses by_domain seen rest
               else i # tenants_for_addresses by_domain (i # seen) rest))"

definition has_rate_limits :: "tenant_limits \<Rightarrow> bool" where
  "has_rate_limits tls = list_ex (\<lambda>t. t_rate_per_min t \<noteq> None) (tl_tenants tls)"

definition submission_limiters :: "tenant_limits \<Rightarrow> rstr list \<Rightarrow> (limiter_ref \<times> rstr \<times> nat) list" where
  "submission_limiters tls addresses =
     List.map_filter (\<lambda>i. case t_rate_per_min (tl_tenants tls ! i) of
         None \<Rightarrow> None
       | Some per_min \<Rightarrow> Some (TenantLimiter i, tenant_label (tl_tenants tls ! i), per_min))
       (tenants_for_addresses (tl_by_domain tls) [] addresses)"

subsection \<open>Budgets\<close>

record limit =
  l_limiter :: limiter_ref
  l_key :: rstr
  l_per_min :: nat

definition for_account :: "rstr \<Rightarrow> nat option \<Rightarrow> tenant_limits option \<Rightarrow> rstr list \<Rightarrow> limit list" where
  "for_account account account_limit tenants addresses =
     (case account_limit of
        Some per_min \<Rightarrow> [\<lparr>l_limiter = AccountLimiter, l_key = account, l_per_min = per_min\<rparr>]
      | None \<Rightarrow> [])
     @ (case tenants of
          None \<Rightarrow> []
        | Some tls \<Rightarrow>
            if has_rate_limits tls
            then map (\<lambda>(r, k, n). \<lparr>l_limiter = r, l_key = k, l_per_min = n\<rparr>)
                   (submission_limiters tls addresses)
            else [])"

text \<open>\<^verbatim>\<open>Charge\<close>: the limiters and keys charged, the units of each, and when.\<close>

record charge =
  c_charged :: "(limiter_ref \<times> rstr) list"
  c_count :: nat
  c_now :: nat

fun refund_all :: "(rstr \<Rightarrow> nat \<Rightarrow> nat \<Rightarrow> 'l \<Rightarrow> 'l) \<Rightarrow> nat \<Rightarrow> nat \<Rightarrow> (limiter_ref \<times> rstr) list
    \<Rightarrow> (limiter_ref \<Rightarrow> 'l) \<Rightarrow> limiter_ref \<Rightarrow> 'l" where
  "refund_all refund count now [] st = st"
| "refund_all refund count now ((r, k) # cs) st =
     refund_all refund count now cs (st(r := refund k count now (st r)))"

fun charge_loop :: "(rstr \<Rightarrow> nat \<Rightarrow> nat \<Rightarrow> nat \<Rightarrow> 'l \<Rightarrow> 'l \<times> bool) \<Rightarrow> (rstr \<Rightarrow> nat \<Rightarrow> nat \<Rightarrow> 'l \<Rightarrow> 'l)
    \<Rightarrow> nat \<Rightarrow> nat \<Rightarrow> limit list \<Rightarrow> (limiter_ref \<times> rstr) list
    \<Rightarrow> (limiter_ref \<Rightarrow> 'l) \<Rightarrow> (limiter_ref \<Rightarrow> 'l) \<times> (unit, (limiter_ref \<times> rstr) list) result" where
  "charge_loop check refund recipients now [] charged st = (st, Inr charged)"
| "charge_loop check refund recipients now (l # ls) charged st =
     (let (lim, ok) = check (l_key l) recipients (l_per_min l) now (st (l_limiter l));
          st' = st(l_limiter l := lim)
      in if \<not> ok then (refund_all refund recipients now charged st', Inl ())
         else charge_loop check refund recipients now ls
                (charged @ [(l_limiter l, l_key l)]) st')"

type_synonym limiter_store = "limiter_ref \<Rightarrow> window_limiter"

definition budget_has_room :: "limit list \<Rightarrow> nat \<Rightarrow> limiter_store \<Rightarrow> bool" where
  "budget_has_room limits now st =
     list_all (\<lambda>l. wl_has_room (l_key l) 1 (l_per_min l) now (st (l_limiter l))) limits"

definition budget_charge ::
    "limit list \<Rightarrow> nat \<Rightarrow> nat \<Rightarrow> limiter_store \<Rightarrow> limiter_store \<times> (unit, charge) result" where
  "budget_charge limits recipients now st =
     (case charge_loop check_n wl_refund recipients now limits [] st of
        (st', Inl e) \<Rightarrow> (st', Inl e)
      | (st', Inr charged) \<Rightarrow>
          (st', Inr \<lparr>c_charged = charged, c_count = recipients, c_now = now\<rparr>))"

definition charge_refund :: "charge \<Rightarrow> limiter_store \<Rightarrow> limiter_store" where
  "charge_refund c st = refund_all wl_refund (c_count c) (c_now c) (c_charged c) st"

text \<open>\<^verbatim>\<open>PendingCharge\<close>: held across the checks after DATA; dropping it refunds what it holds.\<close>

type_synonym pending_charge = "charge option"

definition pending_accept :: "pending_charge \<Rightarrow> pending_charge" where
  "pending_accept p = None"

definition pending_drop :: "pending_charge \<Rightarrow> limiter_store \<Rightarrow> limiter_store" where
  "pending_drop p st = (case p of Some c \<Rightarrow> charge_refund c st | None \<Rightarrow> st)"

subsection \<open>What a budget relies on\<close>

definition same_key :: "rstr \<Rightarrow> rstr \<Rightarrow> bool" where
  "same_key a b \<longleftrightarrow> ascii_lower a = ascii_lower b"

text \<open>How often a limiter and key occur among those charged.\<close>

definition occurrences :: "(limiter_ref \<times> rstr) list \<Rightarrow> limiter_ref \<Rightarrow> rstr \<Rightarrow> nat" where
  "occurrences cs r k = length (filter (\<lambda>(r', k'). r' = r \<and> same_key k' k) cs)"

lemma occurrences_simps [simp]:
  "occurrences [] r k = 0"
  "occurrences ((r', k') # cs) r k =
     (if r' = r \<and> same_key k' k then Suc (occurrences cs r k) else occurrences cs r k)"
  "occurrences (cs @ ds) r k = occurrences cs r k + occurrences ds r k"
  by (simp_all add: occurrences_def)

definition good_limits :: "limit list \<Rightarrow> bool" where
  "good_limits ls \<longleftrightarrow> (\<forall>l\<in>set ls. 0 < l_per_min l \<and> l_per_min l < u32_max)"

locale unit_limiter =
  fixes linv :: "nat \<Rightarrow> 'l \<Rightarrow> bool"
    and lused :: "'l \<Rightarrow> nat \<Rightarrow> rstr \<Rightarrow> nat"
    and lcheck :: "rstr \<Rightarrow> nat \<Rightarrow> nat \<Rightarrow> nat \<Rightarrow> 'l \<Rightarrow> 'l \<times> bool"
    and lrefund :: "rstr \<Rightarrow> nat \<Rightarrow> nat \<Rightarrow> 'l \<Rightarrow> 'l"
  assumes check_inv: "linv now l \<Longrightarrow> linv now (fst (lcheck k c lim now l))"
    and refund_inv: "linv now l \<Longrightarrow> linv now (lrefund k c now l)"
    and check_ok: "linv now l \<Longrightarrow> 0 < lim \<Longrightarrow> lim < u32_max \<Longrightarrow>
      snd (lcheck k c lim now l) \<longleftrightarrow> c = 0 \<or> lused l now k + c \<le> lim"
    and check_used: "linv now l \<Longrightarrow> 0 < lim \<Longrightarrow> lim < u32_max \<Longrightarrow>
      lused (fst (lcheck k c lim now l)) now k' =
        lused l now k' + (if snd (lcheck k c lim now l) \<and> same_key k k' then c else 0)"
    and refund_used: "linv now l \<Longrightarrow>
      lused (lrefund k c now l) now k' = lused l now k' - (if same_key k k' then c else 0)"
begin

lemma refund_all_used:
  "(\<And>r. linv now (st r)) \<Longrightarrow>
     linv now (refund_all lrefund c now cs st r)
     \<and> lused (refund_all lrefund c now cs st r) now k = lused (st r) now k - c * occurrences cs r k"
proof (induction cs arbitrary: st)
  case (Cons rk cs)
  obtain r' k' where rk: "rk = (r', k')" by (cases rk)
  define st' where "st' = st(r' := lrefund k' c now (st r'))"
  have st': "st' x = (if x = r' then lrefund k' c now (st r') else st x)" for x
    by (simp add: st'_def)
  have inv: "linv now (st' x)" for x
    using Cons.prems refund_inv by (simp add: st')
  have "lused (st' r) now k = lused (st r) now k - (if r' = r \<and> same_key k' k then c else 0)"
    using refund_used [OF Cons.prems [of r'], of k' c k] by (auto simp: st')
  then show ?case
    using Cons.IH [of st', OF inv] by (auto simp: rk st'_def [symmetric] algebra_simps)
qed simp

lemma charge_loop_used:
  assumes "\<And>r. linv now (st r)" "good_limits ls"
    and "\<And>r k. lused (st r) now k = u0 r k + c * occurrences charged r k"
  shows "case charge_loop lcheck lrefund c now ls charged st of
      (st', Inl _) \<Rightarrow> (\<forall>r. linv now (st' r)) \<and> (\<forall>r k. lused (st' r) now k = u0 r k)
    | (st', Inr cs) \<Rightarrow> (\<forall>r. linv now (st' r))
        \<and> cs = charged @ map (\<lambda>l. (l_limiter l, l_key l)) ls
        \<and> (\<forall>r k. lused (st' r) now k = u0 r k + c * occurrences cs r k)"
  using assms
proof (induction ls arbitrary: charged st)
  case (Cons l ls)
  obtain lim ok where ch: "lcheck (l_key l) c (l_per_min l) now (st (l_limiter l)) = (lim, ok)"
    by force
  define st' where "st' = st(l_limiter l := lim)"
  have st': "st' x = (if x = l_limiter l then lim else st x)" for x
    by (simp add: st'_def)
  have lim: "0 < l_per_min l" "l_per_min l < u32_max" and ls: "good_limits ls"
    using Cons.prems(2) by (auto simp: good_limits_def)
  note inv = check_inv [OF Cons.prems(1) [of "l_limiter l"], of "l_key l" c "l_per_min l", unfolded ch]
  note used = check_used [OF Cons.prems(1) [of "l_limiter l"] lim, of "l_key l" c, unfolded ch]
  have inv': "linv now (st' r)" for r
    using inv Cons.prems(1) by (simp add: st')
  show ?case
  proof (cases ok)
    case False
    have "lused (refund_all lrefund c now charged st' r) now k = u0 r k" for r k
      using refund_all_used [of now st' c charged r k, OF inv'] used Cons.prems(3) False by (auto simp: st')
    then show ?thesis
      using refund_all_used [of now st', OF inv'] False
      by (simp add: ch st'_def [symmetric])
  next
    case True
    have "lused (st' r) now k = u0 r k + c * occurrences (charged @ [(l_limiter l, l_key l)]) r k"
      for r k
      using used Cons.prems(3) True by (auto simp: st' algebra_simps)
    from Cons.IH [of st' "charged @ [(l_limiter l, l_key l)]", OF inv' ls this] True show ?thesis
      by (simp add: ch st'_def [symmetric] split: prod.splits sum.splits)
  qed
qed simp

lemma charge_loop_ok_iff:
  assumes "\<And>r. linv now (st r)" "good_limits ls" "distinct (map l_limiter ls)"
  shows "(\<exists>cs. snd (charge_loop lcheck lrefund c now ls charged st) = Inr cs) \<longleftrightarrow>
    c = 0 \<or> (\<forall>l\<in>set ls. lused (st (l_limiter l)) now (l_key l) + c \<le> l_per_min l)"
  using assms
proof (induction ls arbitrary: charged st)
  case (Cons l ls)
  obtain lim ok where ch: "lcheck (l_key l) c (l_per_min l) now (st (l_limiter l)) = (lim, ok)"
    by force
  define st' where "st' = st(l_limiter l := lim)"
  have st': "st' x = (if x = l_limiter l then lim else st x)" for x
    by (simp add: st'_def)
  have lim: "0 < l_per_min l" "l_per_min l < u32_max" and ls: "good_limits ls"
    and dist: "distinct (map l_limiter ls)"
    using Cons.prems by (auto simp: good_limits_def)
  have inv': "linv now (st' r)" for r
    using check_inv [OF Cons.prems(1) [of "l_limiter l"], of "l_key l" c "l_per_min l", unfolded ch]
      Cons.prems(1) by (simp add: st')
  have ok: "ok \<longleftrightarrow> c = 0 \<or> lused (st (l_limiter l)) now (l_key l) + c \<le> l_per_min l"
    using check_ok [OF Cons.prems(1) [of "l_limiter l"] lim, of "l_key l" c] ch by simp
  have keep: "st' (l_limiter x) = st (l_limiter x)" if "x \<in> set ls" for x
    using imageI [OF that, of l_limiter] Cons.prems(3) by (auto simp: st')
  show ?case
    using Cons.IH [of st', OF inv' ls dist, of "charged @ [(l_limiter l, l_key l)]"] ok keep
    by (auto simp: ch st'_def [symmetric])
qed simp

end

subsection \<open>The window limiter meets the contract\<close>

definition wl_good :: "nat \<Rightarrow> window_limiter \<Rightarrow> bool" where
  "wl_good now wl \<longleftrightarrow> wl_inv wl \<and> wl_authenticated_keys wl \<and> wl_past now wl"

interpretation wlim: unit_limiter wl_good wl_used check_n wl_refund
proof
  fix now wl k c lim
  assume g: "wl_good now wl"
  then show "wl_good now (fst (check_n k c lim now wl))"
    by (simp add: wl_good_def check_n_inv wl_past_check)
  from g show "wl_good now (wl_refund k c now wl)"
    by (simp add: wl_good_def Rate_Limit.refund_inv wl_past_refund)
next
  fix now wl lim k c
  assume "wl_good now wl" "0 < lim" "lim < u32_max"
  then show "snd (check_n k c lim now wl) \<longleftrightarrow> c = 0 \<or> wl_used wl now k + c \<le> lim"
    using check_n_result by (auto simp: wl_good_def)
next
  fix now wl lim k c k'
  assume "wl_good now wl" "0 < lim" "lim < u32_max"
  then show "wl_used (fst (check_n k c lim now wl)) now k' =
      wl_used wl now k' + (if snd (check_n k c lim now wl) \<and> same_key k k' then c else 0)"
    using check_n_used [of wl lim k c now k'] by (auto simp: wl_good_def same_key_def)
next
  fix now wl k c k'
  assume "wl_good now wl"
  then show "wl_used (wl_refund k c now wl) now k' =
      wl_used wl now k' - (if same_key k k' then c else 0)"
    using Rate_Limit.refund_used [of now wl k c k'] by (auto simp: wl_good_def same_key_def)
qed

subsection \<open>Properties\<close>

lemma tenants_distinct:
  "distinct (tenants_for_addresses m seen as) \<and> set (tenants_for_addresses m seen as) \<inter> set seen = {}"
proof (induction as arbitrary: seen)
  case (Cons a as)
  show ?case
    using Cons.IH [of seen] Cons.IH [of "_ # seen"]
    by (auto split: option.splits)
qed simp

lemma map_filter_distinct:
  "distinct xs \<Longrightarrow> distinct (map fst (List.map_filter
     (\<lambda>i. case f i of None \<Rightarrow> None | Some n \<Rightarrow> Some (TenantLimiter i, g i, n)) xs))
   \<and> fst ` set (List.map_filter (\<lambda>i. case f i of None \<Rightarrow> None
       | Some n \<Rightarrow> Some (TenantLimiter i, g i, n)) xs) \<subseteq> TenantLimiter ` set xs"
  by (induction xs) (auto simp: map_filter_simps split: option.splits)

lemma for_account_distinct: "distinct (map l_limiter (for_account account lim tls as))"
proof -
  have sub: "distinct (map fst (submission_limiters t as))
      \<and> fst ` set (submission_limiters t as) \<subseteq> range TenantLimiter" for t
    using map_filter_distinct [OF tenants_distinct [THEN conjunct1]]
    by (fastforce simp: submission_limiters_def)
  then have "AccountLimiter \<notin> fst ` set (submission_limiters t as)" for t
    by blast
  moreover have "l_limiter \<circ> (\<lambda>(r, k, n). \<lparr>l_limiter = r, l_key = k, l_per_min = n\<rparr>) = fst"
    by (auto simp: fun_eq_iff)
  ultimately show ?thesis
    using sub unfolding for_account_def
    by (cases tls; cases lim) (simp_all add: image_comp)
qed

lemma budget_charge_simp:
  "budget_charge ls n now st =
     (fst (charge_loop check_n wl_refund n now ls [] st),
      map_sum id (\<lambda>cs. \<lparr>c_charged = cs, c_count = n, c_now = now\<rparr>)
        (snd (charge_loop check_n wl_refund n now ls [] st)))"
  by (simp add: budget_charge_def split: prod.splits sum.splits)

lemma has_room_charge:
  assumes "good_limits ls" "\<not> budget_has_room ls now st"
  shows "\<exists>l\<in>set ls. \<not> wl_used (st (l_limiter l)) now (l_key l) + 1 \<le> l_per_min l"
  using assms has_room_result
  by (fastforce simp: budget_has_room_def good_limits_def list_all_iff)

text \<open>C10: A message is charged against the account's limit and every tenant's limit together or
  against none. The charge succeeds exactly when every limit has room for all recipients; it then
  adds the recipients once to each of those limits and to nothing else; a refused charge leaves
  every limiter's running windows with the units they had; giving an accepted charge back restores
  them; and a sender told at MAIL FROM that there is no room is also refused at the end.\<close>

theorem budget_charge_all_or_none:
  assumes "\<forall>r. wl_good now (st r)" and "good_limits ls"
    and "ls = for_account account account_limit tenants addresses"
    and "budget_charge ls n now st = (st', res)"
  shows "((\<exists>c. res = Inr c) \<longleftrightarrow>
            n = 0 \<or> (\<forall>l\<in>set ls. wl_used (st (l_limiter l)) now (l_key l) + n \<le> l_per_min l))
    \<and> (\<forall>r k. wl_used (st' r) now k = wl_used (st r) now k
         + (case res of Inl _ \<Rightarrow> 0
            | Inr _ \<Rightarrow> n * occurrences (map (\<lambda>l. (l_limiter l, l_key l)) ls) r k))
    \<and> (\<forall>c r k. res = Inr c \<longrightarrow> wl_used (charge_refund c st' r) now k = wl_used (st r) now k)
    \<and> (\<not> budget_has_room ls now st \<and> 0 < n \<longrightarrow> res = Inl ())"
proof -
  have dist: "distinct (map l_limiter ls)"
    using assms(3) for_account_distinct by simp
  let ?cl = "charge_loop check_n wl_refund n now ls [] st"
  have ok: "(\<exists>c. res = Inr c) \<longleftrightarrow>
      n = 0 \<or> (\<forall>l\<in>set ls. wl_used (st (l_limiter l)) now (l_key l) + n \<le> l_per_min l)"
    using wlim.charge_loop_ok_iff [of now st ls n "[]"] assms(1,2,4) dist
    by (auto simp: budget_charge_simp map_sum_def split: sum.splits)
  have loop: "case ?cl of
      (st', Inl _) \<Rightarrow> (\<forall>r. wl_good now (st' r)) \<and> (\<forall>r k. wl_used (st' r) now k = wl_used (st r) now k)
    | (st', Inr cs) \<Rightarrow> (\<forall>r. wl_good now (st' r))
        \<and> cs = map (\<lambda>l. (l_limiter l, l_key l)) ls
        \<and> (\<forall>r k. wl_used (st' r) now k = wl_used (st r) now k + n * occurrences cs r k)"
    using wlim.charge_loop_used [of now st ls "\<lambda>r. wl_used (st r) now" n "[]"] assms(1,2) by simp
  then have used: "\<forall>r k. wl_used (st' r) now k = wl_used (st r) now k
      + (case res of Inl _ \<Rightarrow> 0
         | Inr _ \<Rightarrow> n * occurrences (map (\<lambda>l. (l_limiter l, l_key l)) ls) r k)"
    using assms(4) by (auto simp: budget_charge_simp split: prod.splits sum.splits)
  have refund: "wl_used (charge_refund c st' r) now k = wl_used (st r) now k"
    if "res = Inr c" for c r k
  proof -
    have c: "c = \<lparr>c_charged = map (\<lambda>l. (l_limiter l, l_key l)) ls, c_count = n, c_now = now\<rparr>"
      and inv: "\<And>r. wl_good now (st' r)"
      using loop assms(4) that by (auto simp: budget_charge_simp split: prod.splits sum.splits)
    show ?thesis
      using wlim.refund_all_used [of now st' n "c_charged c" r k, OF inv] used that
      by (simp add: c charge_refund_def)
  qed
  show ?thesis
    using ok used refund has_room_charge [OF assms(2), of now st]
    by (cases res) (auto, fastforce)
qed

lemma wl_good_new: "wl_good now (wl_for_authenticated_keys w)"
  by (simp add: wl_good_def wl_inv_new wl_past_def)
    (simp add: wl_for_authenticated_keys_def wl_new_def)

theorem budget_charge_all_or_none_witness:
  "(\<exists>c. snd (budget_charge (for_account (lit ''ann'') (Some 5) None []) 3 1000
        (\<lambda>_. wl_for_authenticated_keys 60)) = Inr c)
   \<and> snd (budget_charge (for_account (lit ''ann'') (Some 5) None []) 6 1000
        (\<lambda>_. wl_for_authenticated_keys 60)) = Inl ()"
proof -
  let ?ls = "for_account (lit ''ann'') (Some 5) None []" and ?st = "\<lambda>_. wl_for_authenticated_keys 60"
  have h: "\<forall>r. wl_good 1000 (?st r)" "good_limits ?ls"
    by (simp_all add: wl_good_new good_limits_def for_account_def u32_max_def)
  have empty: "wl_used (wl_for_authenticated_keys 60) 1000 k = 0" for k
    by (simp add: wl_for_authenticated_keys_def wl_new_def wl_used_def wl_view_def)
  show ?thesis
    using budget_charge_all_or_none [OF h refl prod.collapse [symmetric], of 3]
      budget_charge_all_or_none [OF h refl prod.collapse [symmetric], of 6]
    by (cases "snd (budget_charge ?ls 6 1000 ?st)") (simp_all add: for_account_def empty)
qed

end
