(* ===== verification/Memory_Budget.thy ===== *)
theory Memory_Budget
  imports Net_Cidr "HOL-Library.AList"
begin

section \<open>The memory budget of message bodies\<close>

text \<open>
  \<^verbatim>\<open>MemoryBudget\<close> and \<^verbatim>\<open>Reservation\<close> of \<^verbatim>\<open>src/src/smtp/memory_budget/mod.rs\<close>. Every session
  claims octets from one shared budget and holds them in reservations that hand them back when
  dropped; there is one budget in the server, so a reservation only remembers whether it is
  attached to it. The pool of all reservations of all sessions, stepping in any interleaving, is
  the inductive relation \<open>pool_step\<close>.
\<close>

subsection \<open>The code\<close>

record memory_budget =
  mb_cap :: nat
  mb_client_share :: nat
  mb_used :: nat
  mb_per_client :: "(ipaddr \<times> nat) list"

definition mb_with_cap :: "nat \<Rightarrow> memory_budget" where
  "mb_with_cap cap = \<lparr>mb_cap = cap, mb_client_share = cap, mb_used = 0, mb_per_client = []\<rparr>"

definition mb_with_client_share :: "nat \<Rightarrow> memory_budget \<Rightarrow> memory_budget" where
  "mb_with_client_share share mb = mb\<lparr>mb_client_share := min share (mb_cap mb)\<rparr>"

definition held_by :: "memory_budget \<Rightarrow> ipaddr \<Rightarrow> nat" where
  "held_by mb c = (case map_of (mb_per_client mb) c of Some h \<Rightarrow> h | None \<Rightarrow> 0)"

definition try_reserve_for ::
    "ipaddr option \<Rightarrow> nat \<Rightarrow> memory_budget \<Rightarrow> memory_budget \<times> (nat, unit) result" where
  "try_reserve_for client bytes mb =
     (if mb_cap mb = 0 then (mb, Inr ())
      else if sat_add u64_max (mb_used mb) bytes > mb_cap mb then (mb, Inl bytes)
      else (case client of
              None \<Rightarrow> (mb\<lparr>mb_used := (mb_used mb + bytes) mod 2 ^ 64\<rparr>, Inr ())
            | Some c \<Rightarrow>
                if sat_add u64_max (held_by mb c) bytes > mb_client_share mb then (mb, Inl bytes)
                else (mb\<lparr>mb_per_client := AList.update c ((held_by mb c + bytes) mod 2 ^ 64)
                             (mb_per_client mb),
                         mb_used := (mb_used mb + bytes) mod 2 ^ 64\<rparr>, Inr ())))"

definition release_for :: "ipaddr option \<Rightarrow> nat \<Rightarrow> memory_budget \<Rightarrow> memory_budget" where
  "release_for client bytes mb =
     (if mb_cap mb = 0 \<or> bytes = 0 then mb
      else let mb' = mb\<lparr>mb_used := mb_used mb - bytes\<rparr> in
        case client of
          None \<Rightarrow> mb'
        | Some c \<Rightarrow>
            (case map_of (mb_per_client mb) c of
               None \<Rightarrow> mb'
             | Some held \<Rightarrow>
                 let held' = held - bytes
                 in if held' = 0 then mb'\<lparr>mb_per_client := AList.delete c (mb_per_client mb)\<rparr>
                    else mb'\<lparr>mb_per_client := AList.update c held' (mb_per_client mb)\<rparr>))"

record reservation =
  r_attached :: bool
  r_client :: "ipaddr option"
  r_bytes :: nat

definition res_none :: reservation where
  "res_none = \<lparr>r_attached = False, r_client = None, r_bytes = 0\<rparr>"

definition try_grow :: "ipaddr option \<Rightarrow> nat \<Rightarrow> reservation \<Rightarrow> memory_budget
    \<Rightarrow> reservation \<times> memory_budget \<times> bool" where
  "try_grow peer bytes r mb =
     (let client = map_option client_key peer in
      case try_reserve_for client bytes mb of
        (mb', Inl _) \<Rightarrow> (r, mb', False)
      | (mb', Inr _) \<Rightarrow>
          (let r1 = (if r_attached r then r else r\<lparr>r_attached := True, r_client := client\<rparr>)
           in (r1\<lparr>r_bytes := sat_add u64_max (r_bytes r1) bytes\<rparr>, mb', True)))"

definition res_drop :: "reservation \<Rightarrow> memory_budget \<Rightarrow> memory_budget" where
  "res_drop r mb = (if r_attached r then release_for (r_client r) (r_bytes r) mb else mb)"

text \<open>\<^verbatim>\<open>absorb\<close> takes the octets out of \<open>other\<close>, whose remains are then dropped.\<close>

definition absorb :: "reservation \<Rightarrow> reservation \<Rightarrow> memory_budget \<Rightarrow> reservation \<times> memory_budget" where
  "absorb r other mb =
     (let (r1, other1) =
            (if r_attached r then (r, other)
             else (r\<lparr>r_attached := r_attached other, r_client := r_client other\<rparr>,
                   other\<lparr>r_attached := False\<rparr>))
      in (r1\<lparr>r_bytes := sat_add u64_max (r_bytes r1) (r_bytes other1)\<rparr>,
          res_drop (other1\<lparr>r_bytes := 0\<rparr>) mb))"

subsection \<open>All reservations of the server\<close>

type_synonym pool = "memory_budget \<times> reservation list"

definition res_sum :: "reservation list \<Rightarrow> nat" where
  "res_sum rs = sum_list (map r_bytes rs)"

definition client_sum :: "ipaddr \<Rightarrow> reservation list \<Rightarrow> nat" where
  "client_sum c rs = sum_list (map (\<lambda>r. if r_client r = Some c then r_bytes r else 0) rs)"

text \<open>A session grows its reservations for its own peer only, and absorbs its own.\<close>

inductive pool_step :: "pool \<Rightarrow> pool \<Rightarrow> bool" where
  pool_new: "pool_step (mb, rs) (mb, rs @ [res_none])"
| pool_grow: "i < length rs \<Longrightarrow>
    \<not> r_attached (rs ! i) \<or> r_client (rs ! i) = map_option client_key peer \<Longrightarrow>
    try_grow peer bytes (rs ! i) mb = (r', mb', ok) \<Longrightarrow>
    pool_step (mb, rs) (mb', rs[i := r'])"
| pool_absorb: "i < length rs \<Longrightarrow> j < length rs \<Longrightarrow> i \<noteq> j \<Longrightarrow>
    \<not> r_attached (rs ! i) \<or> \<not> r_attached (rs ! j) \<or> r_client (rs ! i) = r_client (rs ! j) \<Longrightarrow>
    absorb (rs ! i) (rs ! j) mb = (r', mb') \<Longrightarrow>
    pool_step (mb, rs) (mb', rs[i := r', j := res_none])"
| pool_drop: "i < length rs \<Longrightarrow>
    pool_step (mb, rs) (res_drop (rs ! i) mb, rs[i := res_none])"

inductive pool_reachable :: "nat \<Rightarrow> nat \<Rightarrow> pool \<Rightarrow> bool" for cap share where
  pool_start: "pool_reachable cap share (mb_with_client_share share (mb_with_cap cap), [])"
| pool_next: "pool_reachable cap share p \<Longrightarrow> pool_step p q \<Longrightarrow> pool_reachable cap share q"

definition res_wf :: "reservation \<Rightarrow> bool" where
  "res_wf r \<longleftrightarrow> r_attached r \<or> r_client r = None \<and> r_bytes r = 0"

definition pool_inv :: "pool \<Rightarrow> bool" where
  "pool_inv p \<longleftrightarrow> (let (mb, rs) = p in
     0 < mb_cap mb \<and> mb_cap mb < u64_max \<and> mb_client_share mb \<le> mb_cap mb
     \<and> list_all res_wf rs
     \<and> mb_used mb = res_sum rs \<and> res_sum rs \<le> mb_cap mb
     \<and> distinct (map fst (mb_per_client mb))
     \<and> (\<forall>c. held_by mb c = client_sum c rs \<and> client_sum c rs \<le> mb_client_share mb))"

subsection \<open>Accounting lemmas\<close>

lemma res_sum_update: "i < length rs \<Longrightarrow> res_sum (rs[i := r]) + r_bytes (rs ! i) = res_sum rs + r_bytes r"
  using sum_list_update_nat [of i "map r_bytes rs" "r_bytes r"]
  by (simp add: res_sum_def map_update)

abbreviation client_bytes :: "ipaddr \<Rightarrow> reservation \<Rightarrow> nat" where
  "client_bytes c r \<equiv> (if r_client r = Some c then r_bytes r else 0)"

lemma client_sum_update:
  "i < length rs \<Longrightarrow>
     client_sum c (rs[i := r]) + client_bytes c (rs ! i) = client_sum c rs + client_bytes c r"
  using sum_list_update_nat [of i "map (client_bytes c) rs" "client_bytes c r"]
  by (simp add: client_sum_def map_update)

lemma res_le_sum: "i < length rs \<Longrightarrow> r_bytes (rs ! i) \<le> res_sum rs"
  unfolding res_sum_def by (simp add: elem_le_sum_list [of i "map r_bytes rs", simplified])

lemma client_le_sum: "i < length rs \<Longrightarrow> client_bytes c (rs ! i) \<le> client_sum c rs"
  unfolding client_sum_def
  using elem_le_sum_list [of i "map (client_bytes c) rs"] by simp

lemma held_by_update:
  "held_by (mb\<lparr>mb_per_client := AList.update c h (mb_per_client mb), mb_used := u\<rparr>) d
     = (if d = c then h else held_by mb d)"
  by (simp add: held_by_def AList.update_conv')

text \<open>What a claim does when the cap and the share are below the largest \<^verbatim>\<open>u64\<close>.\<close>

lemma try_reserve_for_cases:
  assumes cap: "0 < mb_cap mb" "mb_cap mb < u64_max" "mb_client_share mb \<le> mb_cap mb"
    and res: "try_reserve_for client bytes mb = (mb', x)"
  shows "case x of
      Inl _ \<Rightarrow> mb' = mb \<and> (mb_used mb + bytes > mb_cap mb
               \<or> (\<exists>c. client = Some c \<and> held_by mb c + bytes > mb_client_share mb))
    | Inr _ \<Rightarrow> mb_used mb' = mb_used mb + bytes \<and> mb_used mb' \<le> mb_cap mb
        \<and> mb_cap mb' = mb_cap mb \<and> mb_client_share mb' = mb_client_share mb
        \<and> (distinct (map fst (mb_per_client mb)) \<longrightarrow> distinct (map fst (mb_per_client mb')))
        \<and> (\<forall>c. held_by mb' c = held_by mb c + (if client = Some c then bytes else 0))
        \<and> (\<forall>c. client = Some c \<longrightarrow> held_by mb' c \<le> mb_client_share mb)"
proof (cases x)
  case (Inl e)
  with res cap show ?thesis
    by (auto simp: try_reserve_for_def sat_add_gr_iff split: if_splits option.splits)
next
  case (Inr u)
  have fit: "mb_used mb + bytes \<le> mb_cap mb"
    using res cap Inr by (auto simp: try_reserve_for_def sat_add_gr_iff split: if_splits)
  then have mod: "(mb_used mb + bytes) mod 2 ^ 64 = mb_used mb + bytes"
    using cap by (simp add: u64_max_def)
  show ?thesis
  proof (cases client)
    case None
    with res Inr fit mod cap show ?thesis
      by (auto simp: try_reserve_for_def held_by_def split: if_splits)
  next
    case (Some c)
    have fitc: "held_by mb c + bytes \<le> mb_client_share mb"
      using res cap Inr Some by (auto simp: try_reserve_for_def sat_add_gr_iff split: if_splits)
    then have modc: "(held_by mb c + bytes) mod 2 ^ 64 = held_by mb c + bytes"
      using cap by (simp add: u64_max_def)
    have mb': "mb' = mb\<lparr>mb_per_client := AList.update c (held_by mb c + bytes) (mb_per_client mb),
        mb_used := mb_used mb + bytes\<rparr>"
      using res cap Inr Some fit mod modc
      by (auto simp: try_reserve_for_def sat_add_gr_iff split: if_splits)
    then show ?thesis
      using Inr Some fit fitc by (auto simp: held_by_update AList.distinct_update)
  qed
qed

lemma release_for_effect:
  assumes "0 < mb_cap mb" "distinct (map fst (mb_per_client mb))"
  shows "mb_used (release_for client bytes mb) = mb_used mb - bytes"
    "mb_cap (release_for client bytes mb) = mb_cap mb"
    "mb_client_share (release_for client bytes mb) = mb_client_share mb"
    "distinct (map fst (mb_per_client (release_for client bytes mb)))"
    "held_by (release_for client bytes mb) c
       = held_by mb c - (if client = Some c then bytes else 0)"
  using assms
  by (auto simp: release_for_def Let_def held_by_def AList.update_conv' AList.delete_conv'
      AList.distinct_update AList.distinct_delete simp del: map_of_eq_Some_iff
      split: option.splits)

lemma res_drop_effect:
  assumes "0 < mb_cap mb" "distinct (map fst (mb_per_client mb))" "res_wf r"
  shows "mb_used (res_drop r mb) = mb_used mb - r_bytes r"
    "mb_cap (res_drop r mb) = mb_cap mb"
    "mb_client_share (res_drop r mb) = mb_client_share mb"
    "distinct (map fst (mb_per_client (res_drop r mb)))"
    "held_by (res_drop r mb) c = held_by mb c - client_bytes c r"
  using assms release_for_effect [OF assms(1,2)]
  by (auto simp: res_drop_def res_wf_def)

lemma res_none_simps [simp]:
  "r_bytes res_none = 0" "r_client res_none = None" "\<not> r_attached res_none" "res_wf res_none"
  by (simp_all add: res_none_def res_wf_def)

lemma list_all_update: "list_all P xs \<Longrightarrow> P x \<Longrightarrow> list_all P (xs[i := x])"
  by (auto simp: list_all_iff dest: set_update_subset_insert [THEN subsetD])

text \<open>Replacing one reservation by one whose octets were claimed from or released to the budget
  keeps the accounts.\<close>

lemma pool_inv_replace:
  assumes inv: "pool_inv (mb, rs)" and i: "i < length rs" and wf: "res_wf r'"
    and same: "mb_cap mb' = mb_cap mb" "mb_client_share mb' = mb_client_share mb"
      "distinct (map fst (mb_per_client mb'))"
    and used: "mb_used mb' + r_bytes (rs ! i) = mb_used mb + r_bytes r'" "mb_used mb' \<le> mb_cap mb"
    and held: "\<And>c. held_by mb' c + client_bytes c (rs ! i) = held_by mb c + client_bytes c r'"
      "\<And>c. held_by mb' c \<le> mb_client_share mb"
  shows "pool_inv (mb', rs[i := r'])"
proof -
  have a: "mb_used mb = res_sum rs" "\<And>c. held_by mb c = client_sum c rs"
    "0 < mb_cap mb" "mb_cap mb < u64_max" "mb_client_share mb \<le> mb_cap mb" "list_all res_wf rs"
    using inv by (auto simp: pool_inv_def)
  have "mb_used mb' = res_sum (rs[i := r'])"
    using res_sum_update [OF i, of r'] used(1) a(1) by simp
  moreover have "held_by mb' c = client_sum c (rs[i := r'])" for c
    using client_sum_update [OF i, of c r'] held(1) [of c] a(2) [of c] by (simp split: if_splits)
  ultimately show ?thesis
    using a same used(2) held(2) wf by (auto simp: pool_inv_def list_all_update)
qed

lemma pool_invD:
  assumes "pool_inv (mb, rs)"
  shows "0 < mb_cap mb" "mb_cap mb < u64_max" "mb_client_share mb \<le> mb_cap mb"
    "distinct (map fst (mb_per_client mb))" "list_all res_wf rs"
    "mb_used mb = res_sum rs" "mb_used mb \<le> mb_cap mb"
    "held_by mb c = client_sum c rs" "held_by mb c \<le> mb_client_share mb"
  using assms unfolding pool_inv_def by simp_all

lemma pool_inv_drop:
  assumes inv: "pool_inv (mb, rs)" and i: "i < length rs"
  shows "pool_inv (res_drop (rs ! i) mb, rs[i := res_none])"
proof -
  have a: "0 < mb_cap mb" "distinct (map fst (mb_per_client mb))" "res_wf (rs ! i)"
    "mb_used mb = res_sum rs" "\<And>c. held_by mb c = client_sum c rs"
    "mb_used mb \<le> mb_cap mb" "\<And>c. held_by mb c \<le> mb_client_share mb"
    using pool_invD [OF inv] i by (simp_all add: list_all_length)
  note e = res_drop_effect [OF a(1-3)]
  show ?thesis
  proof (rule pool_inv_replace [OF inv i])
    show "mb_used (res_drop (rs ! i) mb) + r_bytes (rs ! i) = mb_used mb + r_bytes res_none"
      using e(1) res_le_sum [OF i] a(4) by simp
    show "held_by (res_drop (rs ! i) mb) c + client_bytes c (rs ! i)
        = held_by mb c + client_bytes c res_none" for c
      using e(5) [of c] client_le_sum [OF i, of c] a(5) [of c] by (simp split: if_splits)
    show "mb_used (res_drop (rs ! i) mb) \<le> mb_cap mb" using e(1) a(6) by simp
    show "held_by (res_drop (rs ! i) mb) c \<le> mb_client_share mb" for c
      using e(5) [of c] a(7) [of c] by simp
  qed (use e in simp_all)
qed

lemma pool_inv_grow:
  assumes inv: "pool_inv (mb, rs)" and i: "i < length rs"
    and own: "\<not> r_attached (rs ! i) \<or> r_client (rs ! i) = map_option client_key peer"
    and grow: "try_grow peer bytes (rs ! i) mb = (r', mb', ok)"
  shows "pool_inv (mb', rs[i := r'])"
proof -
  let ?r = "rs ! i"
  define cl where "cl = map_option client_key peer"
  note own = own [folded cl_def]
  have a: "0 < mb_cap mb" "mb_cap mb < u64_max" "mb_client_share mb \<le> mb_cap mb"
    "distinct (map fst (mb_per_client mb))" "res_wf ?r"
    "mb_used mb = res_sum rs" "mb_used mb \<le> mb_cap mb" "\<And>c. held_by mb c \<le> mb_client_share mb"
    using pool_invD [OF inv] i by (simp_all add: list_all_length)
  obtain mb1 x where tr: "try_reserve_for cl bytes mb = (mb1, x)" by force
  note t = try_reserve_for_cases [OF a(1-3) tr]
  show ?thesis
  proof (cases x)
    case (Inl e)
    with grow tr t have "r' = ?r" "mb' = mb" by (auto simp: try_grow_def cl_def [symmetric])
    with inv show ?thesis by simp
  next
    case (Inr u)
    note t = t [unfolded Inr sum.case]
    have r': "r' = \<lparr>r_attached = True, r_client = cl, r_bytes = sat_add u64_max (r_bytes ?r) bytes\<rparr>"
      and mb': "mb' = mb1"
      using grow tr Inr own by (auto simp: try_grow_def Let_def cl_def [symmetric] split: if_splits)
    have "r_bytes ?r + bytes \<le> mb_cap mb"
      using t res_le_sum [OF i] a(6) by linarith
    then have bytes: "r_bytes r' = r_bytes ?r + bytes"
      using a(2) by (simp add: r' sat_add_eq)
    have old: "r_client ?r = cl \<or> r_bytes ?r = 0 \<and> r_client ?r = None"
      using own a(5) by (auto simp: res_wf_def)
    show ?thesis
      unfolding mb'
    proof (rule pool_inv_replace [OF inv i])
      show "held_by mb1 c + client_bytes c ?r = held_by mb c + client_bytes c r'" for c
        using t old bytes by (auto simp: r')
      show "held_by mb1 c \<le> mb_client_share mb" for c
        using t a(8) [of c] by (cases "cl = Some c") auto
    qed (use t bytes a(4) in \<open>auto simp: r' res_wf_def\<close>)
  qed
qed

lemma pool_inv_absorb:
  assumes inv: "pool_inv (mb, rs)" and ij: "i < length rs" "j < length rs" "i \<noteq> j"
    and own: "\<not> r_attached (rs ! i) \<or> \<not> r_attached (rs ! j) \<or> r_client (rs ! i) = r_client (rs ! j)"
    and ab: "absorb (rs ! i) (rs ! j) mb = (r', mb')"
  shows "pool_inv (mb', rs[i := r', j := res_none])"
proof -
  let ?a = "rs ! i" and ?b = "rs ! j"
  note d = pool_invD [OF inv]
  have wf: "res_wf ?a" "res_wf ?b"
    using d(5) ij by (simp_all add: list_all_length)
  have mb': "mb' = mb"
    using ab by (auto simp: absorb_def Let_def res_drop_def release_for_def split: if_splits)
  have two: "r_bytes ?a + r_bytes ?b \<le> res_sum rs"
    using res_sum_update [OF ij(1), of res_none] res_le_sum [of j "rs[i := res_none]"] ij by simp
  have r': "r_bytes r' = r_bytes ?a + r_bytes ?b \<and> res_wf r'
      \<and> client_bytes c r' = client_bytes c ?a + client_bytes c ?b" for c
    using ab own wf two d(2,6,7)
    by (auto simp: absorb_def Let_def res_wf_def sat_add_eq split: if_splits)
  have sum: "res_sum (rs[i := r', j := res_none]) = res_sum rs"
    using res_sum_update [OF ij(1), of r'] res_sum_update [of j "rs[i := r']" res_none] ij r' by simp
  have csum: "client_sum c (rs[i := r', j := res_none]) = client_sum c rs" for c
    using client_sum_update [OF ij(1), of c r'] client_sum_update [of j "rs[i := r']" c res_none]
      ij r' [of c] by (simp split: if_splits)
  show ?thesis
    using inv r' sum csum by (simp add: mb' pool_inv_def list_all_update)
qed

lemma pool_inv_step: "pool_step p q \<Longrightarrow> pool_inv p \<Longrightarrow> pool_inv q"
proof (induction rule: pool_step.induct)
  case (pool_new mb rs)
  then show ?case by (simp add: pool_inv_def res_sum_def client_sum_def)
qed (auto intro: pool_inv_grow pool_inv_absorb pool_inv_drop)

lemma pool_reachable_inv:
  "pool_reachable cap share p \<Longrightarrow> 0 < cap \<Longrightarrow> cap < u64_max \<Longrightarrow> pool_inv p"
proof (induction rule: pool_reachable.induct)
  case pool_start
  then show ?case
    by (simp add: pool_inv_def mb_with_cap_def mb_with_client_share_def res_sum_def client_sum_def
        held_by_def)
qed (auto intro: pool_inv_step)

subsection \<open>Properties\<close>

lemma pool_step_params: "pool_step p q \<Longrightarrow> mb_cap (fst q) = mb_cap (fst p)
    \<and> mb_client_share (fst q) = mb_client_share (fst p)"
  by (induction rule: pool_step.induct)
    (auto simp: try_grow_def try_reserve_for_def absorb_def res_drop_def release_for_def Let_def
      split: if_splits option.splits)

lemma pool_params: "pool_reachable cap share p \<Longrightarrow> mb_cap (fst p) = cap
    \<and> mb_client_share (fst p) = min share cap"
  by (induction rule: pool_reachable.induct)
    (auto simp: mb_with_cap_def mb_with_client_share_def dest: pool_step_params)

text \<open>C11: Whatever sessions do, in any interleaving of growing, merging and dropping reservations,
  the octets counted as used are exactly those the live reservations hold, in total and for each
  client; the total never exceeds the cap and no client ever holds more than its share; so once
  every reservation is dropped nothing remains counted.\<close>

theorem memory_budget_exact:
  assumes "pool_reachable cap share (mb, rs)" and "0 < cap" and "cap < u64_max"
  shows "mb_used mb = res_sum rs \<and> mb_used mb \<le> cap
    \<and> (\<forall>c. held_by mb c = client_sum c rs \<and> held_by mb c \<le> min share cap)
    \<and> ((\<forall>r\<in>set rs. r_bytes r = 0) \<longrightarrow> mb_used mb = 0 \<and> (\<forall>c. held_by mb c = 0))"
proof -
  note inv = pool_reachable_inv [OF assms]
  have "res_sum rs = 0 \<and> (\<forall>c. client_sum c rs = 0)" if "\<forall>r\<in>set rs. r_bytes r = 0"
    using that by (auto simp: res_sum_def client_sum_def)
  then show ?thesis
    using pool_invD [OF inv] pool_params [OF assms(1)] by auto
qed

definition demo_client :: ipaddr where
  "demo_client = V4 0xC0000201"

definition demo_budget :: memory_budget where
  "demo_budget = \<lparr>mb_cap = 1000, mb_client_share = 250, mb_used = 100,
     mb_per_client = [(demo_client, 100)]\<rparr>"

definition demo_reservation :: reservation where
  "demo_reservation = \<lparr>r_attached = True, r_client = Some demo_client, r_bytes = 100\<rparr>"

lemma demo_reachable: "pool_reachable 1000 250 (demo_budget, [demo_reservation])"
proof -
  have "pool_reachable 1000 250 (mb_with_client_share 250 (mb_with_cap 1000), [res_none])"
    using pool_next [OF pool_start pool_new, of 1000 250] by simp
  moreover have "try_grow (Some demo_client) 100 res_none
      (mb_with_client_share 250 (mb_with_cap 1000)) = (demo_reservation, demo_budget, True)"
    by (simp add: try_grow_def try_reserve_for_def mb_with_client_share_def mb_with_cap_def
        demo_budget_def demo_client_def demo_reservation_def res_none_def held_by_def sat_add_def
        u64_max_def client_key_def to_canonical_def)
  ultimately show ?thesis
    using pool_next pool_grow [of 0 "[res_none]" "Some demo_client" 100] by fastforce
qed

theorem memory_budget_exact_witness:
  "mb_used demo_budget = res_sum [demo_reservation] \<and> mb_used demo_budget = 100"
  using memory_budget_exact [OF demo_reachable]
  by (simp add: u64_max_def) (simp add: demo_budget_def)

text \<open>A claim of zero octets for a client that holds nothing leaves an entry for that client
  in the per-client map, and dropping the reservation does not remove it: the map keeps one entry
  for every client that announced a chunk and sent none of it.\<close>

theorem zero_claim_leaves_an_entry:
  assumes "0 < mb_cap mb" "mb_cap mb < u64_max" "mb_used mb \<le> mb_cap mb"
    and "mb_client_share mb \<le> mb_cap mb" and "map_of (mb_per_client mb) (client_key ip) = None"
    and "try_grow (Some ip) 0 res_none mb = (r, mb', ok)"
  shows "ok \<and> r_bytes r = 0 \<and> map_of (mb_per_client (res_drop r mb')) (client_key ip) = Some 0"
  using assms
  by (auto simp: try_grow_def try_reserve_for_def held_by_def res_drop_def release_for_def
      res_none_def sat_add_def AList.update_conv' Let_def split: if_splits)

theorem zero_claim_leaves_an_entry_witness:
  "map_of (mb_per_client (res_drop (fst (try_grow (Some demo_client) 0 res_none (mb_with_cap 1000)))
     (fst (snd (try_grow (Some demo_client) 0 res_none (mb_with_cap 1000)))))) demo_client = Some 0"
proof -
  have key: "client_key demo_client = demo_client"
    by (simp add: demo_client_def client_key_def to_canonical_def)
  have "mb_used (mb_with_cap 1000) = 0" "mb_cap (mb_with_cap 1000) = 1000"
    "mb_client_share (mb_with_cap 1000) = 1000" "mb_per_client (mb_with_cap 1000) = []"
    by (simp_all add: mb_with_cap_def)
  then show ?thesis
    using zero_claim_leaves_an_entry [of "mb_with_cap 1000" demo_client
        "fst (try_grow (Some demo_client) 0 res_none (mb_with_cap 1000))"
        "fst (snd (try_grow (Some demo_client) 0 res_none (mb_with_cap 1000)))"
        "snd (snd (try_grow (Some demo_client) 0 res_none (mb_with_cap 1000)))"]
    by (simp add: key u64_max_def)
qed

end
