(* ===== verification/Per_Ip.thy ===== *)
theory Per_Ip
  imports Net_Cidr "HOL-Library.AList"
begin

section \<open>The per-client connection counter\<close>

text \<open>
  \<^verbatim>\<open>PerIpCounter\<close> of \<^verbatim>\<open>src/src/smtp/per_ip/mod.rs\<close>: at most \<open>cap\<close> connections at a time from one
  client, counted under \<^verbatim>\<open>client_key\<close>; a \<^verbatim>\<open>Slot\<close> gives its count back when dropped. The accept
  loop and the connection tasks interleave freely: \<open>slots_step\<close>.
\<close>

subsection \<open>The code\<close>

record per_ip =
  pi_cap :: nat
  pi_counts :: "(ipaddr \<times> nat) list"

text \<open>A slot: the key counted for it, \<open>None\<close> for a trusted peer.\<close>

type_synonym slot = "ipaddr option"

definition per_ip_new :: "nat \<Rightarrow> per_ip" where
  "per_ip_new cap = \<lparr>pi_cap = max cap 1, pi_counts = []\<rparr>"

definition per_ip_try_acquire :: "ipaddr \<Rightarrow> cidr list \<Rightarrow> per_ip \<Rightarrow> per_ip \<times> slot option" where
  "per_ip_try_acquire ip trusted st =
     (if list_ex (\<lambda>c. cidr_contains c ip) trusted then (st, Some None)
      else let k = client_key ip;
               current = (case map_of (pi_counts st) k of Some n \<Rightarrow> n | None \<Rightarrow> 0)
           in if current \<ge> pi_cap st then (st, None)
              else (st\<lparr>pi_counts := AList.update k (current + 1) (pi_counts st)\<rparr>, Some (Some k)))"

definition slot_drop :: "slot \<Rightarrow> per_ip \<Rightarrow> per_ip" where
  "slot_drop s st =
     (case s of
        None \<Rightarrow> st
      | Some k \<Rightarrow>
          (case map_of (pi_counts st) k of
             None \<Rightarrow> st
           | Some n \<Rightarrow>
               (let n' = n - 1
                in if n' = 0 then st\<lparr>pi_counts := AList.delete k (pi_counts st)\<rparr>
                   else st\<lparr>pi_counts := AList.update k n' (pi_counts st)\<rparr>)))"

definition per_ip_count :: "per_ip \<Rightarrow> ipaddr \<Rightarrow> nat" where
  "per_ip_count st ip = (case map_of (pi_counts st) (client_key ip) of Some n \<Rightarrow> n | None \<Rightarrow> 0)"

subsection \<open>Accepts and connection ends in any order\<close>

inductive slots_step :: "cidr list \<Rightarrow> per_ip \<times> slot list \<Rightarrow> per_ip \<times> slot list \<Rightarrow> bool"
  for trusted where
  slots_accept: "per_ip_try_acquire ip trusted st = (st', Some s) \<Longrightarrow>
    slots_step trusted (st, ss) (st', s # ss)"
| slots_refuse: "per_ip_try_acquire ip trusted st = (st', None) \<Longrightarrow>
    slots_step trusted (st, ss) (st', ss)"
| slots_end: "slots_step trusted (st, ss1 @ s # ss2) (slot_drop s st, ss1 @ ss2)"

inductive slots_reachable :: "nat \<Rightarrow> cidr list \<Rightarrow> per_ip \<times> slot list \<Rightarrow> bool" for cap trusted where
  slots_start: "slots_reachable cap trusted (per_ip_new cap, [])"
| slots_next: "slots_reachable cap trusted p \<Longrightarrow> slots_step trusted p q \<Longrightarrow>
    slots_reachable cap trusted q"

definition live_slots :: "ipaddr \<Rightarrow> slot list \<Rightarrow> nat" where
  "live_slots k ss = length (filter (\<lambda>s. s = Some k) ss)"

definition slots_inv :: "per_ip \<times> slot list \<Rightarrow> bool" where
  "slots_inv p \<longleftrightarrow> (let (st, ss) = p in distinct (map fst (pi_counts st)) \<and>
     (\<forall>k. live_slots k ss \<le> pi_cap st \<and>
          map_of (pi_counts st) k = (if live_slots k ss = 0 then None else Some (live_slots k ss))))"

lemma live_slots_simps [simp]:
  "live_slots k [] = 0"
  "live_slots k (s # ss) = (if s = Some k then Suc (live_slots k ss) else live_slots k ss)"
  "live_slots k (ss @ ts) = live_slots k ss + live_slots k ts"
  by (simp_all add: live_slots_def)

lemma slots_inv_step: "slots_step trusted p q \<Longrightarrow> slots_inv p \<Longrightarrow> slots_inv q"
proof (induction rule: slots_step.induct)
  case (slots_accept ip st st' s ss)
  have inv: "live_slots k ss \<le> pi_cap st"
    "map_of (pi_counts st) k = (if live_slots k ss = 0 then None else Some (live_slots k ss))"
    "distinct (map fst (pi_counts st))" for k
    using slots_accept(2) unfolding slots_inv_def by simp_all
  show ?case
  proof (cases "list_ex (\<lambda>c. cidr_contains c ip) trusted")
    case True
    with slots_accept show ?thesis by (auto simp: per_ip_try_acquire_def slots_inv_def)
  next
    case False
    let ?k = "client_key ip"
    have "live_slots ?k ss < pi_cap st" "s = Some ?k"
      "st' = st\<lparr>pi_counts := AList.update ?k (Suc (live_slots ?k ss)) (pi_counts st)\<rparr>"
      using slots_accept(1) False inv(2) [of ?k]
      by (auto simp: per_ip_try_acquire_def Let_def split: if_splits)
    then show ?thesis
      using inv(1,3) unfolding slots_inv_def
      by (simp add: AList.update_conv' AList.distinct_update inv(2))
  qed
next
  case (slots_refuse ip st st' ss)
  then show ?case
    by (auto simp: per_ip_try_acquire_def Let_def split: if_splits)
next
  case (slots_end st ss1 s ss2)
  show ?case
  proof (cases s)
    case None
    with slots_end show ?thesis by (simp add: slot_drop_def slots_inv_def)
  next
    case (Some k)
    let ?n = "live_slots k ss1 + live_slots k ss2"
    have inv: "live_slots c (ss1 @ s # ss2) \<le> pi_cap st"
      "map_of (pi_counts st) c = (if live_slots c (ss1 @ s # ss2) = 0 then None
        else Some (live_slots c (ss1 @ s # ss2)))"
      "distinct (map fst (pi_counts st))" for c
      using slots_end unfolding slots_inv_def by (simp_all del: live_slots_simps)
    have k: "map_of (pi_counts st) k = Some (Suc ?n)" and le: "Suc ?n \<le> pi_cap st"
      using inv(1,2) [of k] Some by simp_all
    have other: "live_slots c (ss1 @ ss2) \<le> pi_cap st"
        "map_of (pi_counts st) c = (if live_slots c (ss1 @ ss2) = 0 then None
            else Some (live_slots c (ss1 @ ss2)))" if "c \<noteq> k" for c
      using inv(1,2) [of c] Some that by simp_all
    have drop: "slot_drop s st = (if ?n = 0 then st\<lparr>pi_counts := AList.delete k (pi_counts st)\<rparr>
        else st\<lparr>pi_counts := AList.update k ?n (pi_counts st)\<rparr>)"
      by (simp add: slot_drop_def Some k Let_def)
    show ?thesis
      unfolding slots_inv_def drop using inv(3) le other
      by (auto simp: AList.update_conv' AList.delete_conv' AList.distinct_update
          AList.distinct_delete simp del: map_of_eq_Some_iff)
  qed
qed

lemma slots_reachable_inv: "slots_reachable cap trusted p \<Longrightarrow> slots_inv p"
proof (induction rule: slots_reachable.induct)
  case slots_start
  then show ?case by (simp add: slots_inv_def per_ip_new_def)
qed (auto intro: slots_inv_step)

lemma slots_cap: "slots_reachable cap trusted p \<Longrightarrow> pi_cap (fst p) = max cap 1"
proof (induction rule: slots_reachable.induct)
  case (slots_next p q)
  from slots_next(2,3) show ?case
    by (induction rule: slots_step.induct)
      (auto simp: per_ip_try_acquire_def slot_drop_def Let_def split: if_splits option.splits)
qed (simp add: per_ip_new_def)

subsection \<open>Properties\<close>

text \<open>C12: At every moment, in any interleaving of accepted and ended connections, the count kept
  for a client is the number of its live counted connections and at most the cap; a client with no
  connection has no entry; and an untrusted peer is admitted exactly while its client is below the
  cap, a trusted one always and without being counted.\<close>

theorem per_ip_counts_connections:
  assumes "slots_reachable cap trusted (st, ss)"
  shows "per_ip_count st ip = live_slots (client_key ip) ss
    \<and> live_slots (client_key ip) ss \<le> max cap 1
    \<and> (live_slots (client_key ip) ss = 0 \<longrightarrow> map_of (pi_counts st) (client_key ip) = None)
    \<and> snd (per_ip_try_acquire ip trusted st) =
        (if list_ex (\<lambda>c. cidr_contains c ip) trusted then Some None
         else if live_slots (client_key ip) ss < max cap 1 then Some (Some (client_key ip))
         else None)"
proof -
  have "slots_inv (st, ss)" "pi_cap st = max cap 1"
    using slots_reachable_inv [OF assms] slots_cap [OF assms] by simp_all
  then show ?thesis
    by (auto simp: slots_inv_def per_ip_count_def per_ip_try_acquire_def Let_def
        simp del: map_of_eq_Some_iff)
qed

theorem per_ip_counts_connections_witness:
  "per_ip_count (fst (per_ip_try_acquire (V4 1) [] (per_ip_new 1))) (V4 1) = 1
   \<and> snd (per_ip_try_acquire (V4 1) [] (fst (per_ip_try_acquire (V4 1) [] (per_ip_new 1)))) = None"
proof -
  let ?st = "fst (per_ip_try_acquire (V4 1) [] (per_ip_new 1))"
  have key: "client_key (V4 1) = V4 1" by (simp add: client_key_def to_canonical_def)
  have "per_ip_try_acquire (V4 1) [] (per_ip_new 1) = (?st, Some (Some (V4 1)))"
    by (simp add: per_ip_try_acquire_def per_ip_new_def key Let_def)
  then have "slots_reachable 1 [] (?st, [Some (V4 1)])"
    by (intro slots_next [OF slots_start] slots_accept)
  from per_ip_counts_connections [OF this, of "V4 1"] show ?thesis
    by (simp add: key)
qed

end
