(* ===== verification/Domain_Address.thy ===== *)
theory Domain_Address
  imports Prelude
begin

section \<open>Domains and mailbox addresses\<close>

text \<open>
  \<^verbatim>\<open>src/src/domain/mod.rs\<close> (domain normalisation), \<^verbatim>\<open>src/src/smtp/address/mod.rs\<close> (the strict address
  parser), \<^verbatim>\<open>src/src/util/address/mod.rs\<close> (the stored form) and the character rules of
  \<^verbatim>\<open>src/src/util/validation/mod.rs\<close>. The Unicode machinery the code calls (the crates \<^verbatim>\<open>idna\<close> and
  \<^verbatim>\<open>unicode_security\<close>, and the Unicode tables behind \<^verbatim>\<open>str::to_lowercase\<close>) is the record
  \<open>unicode_ops\<close>, an argument of every definition that uses it.
\<close>

subsection \<open>The code\<close>

record unicode_ops =
  u_to_ascii_strict :: "rstr \<Rightarrow> rstr option"
  u_punycode_decode :: "rstr \<Rightarrow> rstr option"
  u_is_single_script :: "rstr \<Rightarrow> bool"
  u_skeleton :: "rstr \<Rightarrow> rstr"
  u_to_lowercase :: "rstr \<Rightarrow> rstr"

definition MAX_ADDRESS :: nat where
  "MAX_ADDRESS = 254"

definition MAX_LOCAL_PART :: nat where
  "MAX_LOCAL_PART = 64"

definition MAX_DOMAIN :: nat where
  "MAX_DOMAIN = 253"

definition MAX_LABEL :: nat where
  "MAX_LABEL = 63"

text \<open>The nineteen characters \<^verbatim>\<open>!#$%&'*+-/=?^_`{|}~\<close>.\<close>

definition ATEXT :: rstr where
  "ATEXT = [33, 35, 36, 37, 38, 39, 42, 43, 45, 47, 61, 63, 94, 95, 96, 123, 124, 125, 126]"

definition is_atext :: "rchar \<Rightarrow> bool" where
  "is_atext c \<longleftrightarrow> is_alnum c \<or> c \<in> set ATEXT
     \<or> \<not> is_ascii c \<and> \<not> is_control c \<and> c \<noteq> 8232 \<and> c \<noteq> 8233"

datatype domain_error = DomainInvalid | DomainConfusable

fun check_labels :: "unicode_ops \<Rightarrow> rstr list \<Rightarrow> (domain_error, unit) result" where
  "check_labels U [] = Inr ()"
| "check_labels U (label # rest) =
     (if label = [] then check_labels U rest
      else case strip_prefix (lit ''xn--'') (ascii_lower label) of
        Some body \<Rightarrow>
          (case u_punycode_decode U body of
             None \<Rightarrow> Inl DomainInvalid
           | Some unicode \<Rightarrow>
               if \<not> u_is_single_script U unicode then Inl DomainConfusable
               else if \<not> list_all is_ascii unicode \<and> list_all is_ascii (u_skeleton U unicode)
               then Inl DomainConfusable
               else check_labels U rest)
      | None \<Rightarrow>
          if list_all is_ascii label then check_labels U rest
          else if \<not> u_is_single_script U label then Inl DomainConfusable
          else if \<not> list_all is_ascii label \<and> list_all is_ascii (u_skeleton U label)
          then Inl DomainConfusable
          else check_labels U rest)"

definition check_confusables :: "unicode_ops \<Rightarrow> rstr \<Rightarrow> (domain_error, unit) result" where
  "check_confusables U raw = check_labels U (split_on 46 raw)"

definition dns_label_bad :: "rstr \<Rightarrow> bool" where
  "dns_label_bad label \<longleftrightarrow> label = [] \<or> slen label > MAX_LABEL \<or> starts_with [45] label
     \<or> ends_with [45] label \<or> \<not> list_all (\<lambda>b. is_lower b \<or> is_digit b \<or> b = 45) label"

definition check_dns_shape :: "rstr \<Rightarrow> (domain_error, unit) result" where
  "check_dns_shape ascii =
     (if 46 \<notin> set ascii \<or> slen ascii > MAX_DOMAIN then Inl DomainInvalid
      else if list_ex dns_label_bad (split_on 46 ascii) then Inl DomainInvalid
      else Inr ())"

definition normalize_name :: "unicode_ops \<Rightarrow> rstr \<Rightarrow> (domain_error, rstr) result" where
  "normalize_name U raw =
     (if raw = [] \<or> list_ex is_ascii_whitespace raw \<or> list_ex is_control raw then Inl DomainInvalid
      else case check_confusables U raw of
        Inl e \<Rightarrow> Inl e
      | Inr _ \<Rightarrow>
          (case u_to_ascii_strict U raw of
             None \<Rightarrow> Inl DomainInvalid
           | Some ascii \<Rightarrow>
               (let ascii = ascii_lower ascii
                in case check_dns_shape ascii of Inl e \<Rightarrow> Inl e | Inr _ \<Rightarrow> Inr ascii)))"

record address =
  a_local_part :: rstr
  a_domain :: rstr

datatype address_error =
  AddrTooLong | MissingAtSign | InvalidLocalPart | InvalidDomain | ConfusableDomain

definition validate_local_part :: "rstr \<Rightarrow> (address_error, unit) result" where
  "validate_local_part local_part =
     (if local_part = [] \<or> slen local_part > MAX_LOCAL_PART then Inl InvalidLocalPart
      else if list_ex (\<lambda>atom. atom = [] \<or> \<not> list_all is_atext atom) (split_on 46 local_part)
      then Inl InvalidLocalPart
      else Inr ())"

definition address_parse :: "unicode_ops \<Rightarrow> rstr \<Rightarrow> (address_error, address) result" where
  "address_parse U raw =
     (if slen raw > MAX_ADDRESS then Inl AddrTooLong
      else case rsplit_once 64 raw of
        None \<Rightarrow> Inl MissingAtSign
      | Some (local_part, domain) \<Rightarrow>
          (case validate_local_part local_part of
             Inl e \<Rightarrow> Inl e
           | Inr _ \<Rightarrow>
               (case normalize_name U domain of
                  Inl DomainInvalid \<Rightarrow> Inl InvalidDomain
                | Inl DomainConfusable \<Rightarrow> Inl ConfusableDomain
                | Inr d \<Rightarrow> Inr \<lparr>a_local_part = local_part, a_domain = d\<rparr>)))"

definition address_show :: "address \<Rightarrow> rstr" where
  "address_show a = a_local_part a @ [64] @ a_domain a"

text \<open>The stored form (\<^verbatim>\<open>util::address\<close>).\<close>

definition normalize_domain :: "unicode_ops \<Rightarrow> rstr \<Rightarrow> rstr" where
  "normalize_domain U raw =
     (let raw = trim raw
      in case normalize_name U raw of Inr d \<Rightarrow> d | Inl _ \<Rightarrow> u_to_lowercase U raw)"

definition normalize_address :: "unicode_ops \<Rightarrow> rstr \<Rightarrow> rstr" where
  "normalize_address U raw =
     (let raw = trim raw
      in case rsplit_once 64 raw of
           Some (local, domain) \<Rightarrow> u_to_lowercase U local @ [64] @ normalize_domain U domain
         | None \<Rightarrow> u_to_lowercase U raw)"

subsection \<open>What the checks establish\<close>

text \<open>A name in the shape DNS and the rest of the server rely on.\<close>

definition dns_name :: "rstr \<Rightarrow> bool" where
  "dns_name d \<longleftrightarrow> slen d \<le> MAX_DOMAIN \<and> length (split_on 46 d) \<ge> 2
     \<and> (\<forall>l\<in>set (split_on 46 d). l \<noteq> [] \<and> length l \<le> MAX_LABEL \<and> hd l \<noteq> 45 \<and> last l \<noteq> 45
          \<and> list_all (\<lambda>b. is_lower b \<or> is_digit b \<or> b = 45) l)"

lemma split_on_length: "46 \<in> set d \<longleftrightarrow> length (split_on 46 d) \<ge> 2"
proof (induction d)
  case (Cons c d)
  have "split_by (\<lambda>x. x = 46) d \<noteq> []" by simp
  then obtain w ws where "split_by (\<lambda>x. x = 46) d = w # ws"
    by (cases "split_by (\<lambda>x. x = 46) d") auto
  with Cons show ?case by (auto simp: split_on_def)
qed (simp add: split_on_def)

lemma ldh_ascii: "list_all (\<lambda>b. is_lower b \<or> is_digit b \<or> b = 45) l \<Longrightarrow> list_all is_ascii l"
  by (auto simp: list_all_iff char_defs)

lemma label_ok: "\<not> dns_label_bad l \<longleftrightarrow>
    l \<noteq> [] \<and> length l \<le> MAX_LABEL \<and> hd l \<noteq> 45 \<and> last l \<noteq> 45
    \<and> list_all (\<lambda>b. is_lower b \<or> is_digit b \<or> b = 45) l"
proof (cases "list_all (\<lambda>b. is_lower b \<or> is_digit b \<or> b = 45) l \<and> l \<noteq> []")
  case True
  then have "slen l = length l" using ldh_ascii slen_ascii by blast
  moreover have "starts_with [45] l \<longleftrightarrow> hd l = 45"
    using True by (cases l) (auto simp: starts_with_iff)
  moreover have "ends_with [45] l \<longleftrightarrow> last l = 45"
    using True by (cases l rule: rev_cases) (auto simp: ends_with_iff)
  ultimately show ?thesis using True by (auto simp: dns_label_bad_def)
qed (auto simp: dns_label_bad_def)

lemma check_dns_shape_iff: "check_dns_shape d = Inr () \<longleftrightarrow> dns_name d"
  using split_on_length [of d]
  by (auto simp: check_dns_shape_def dns_name_def list_ex_iff label_ok [symmetric])

lemma normalize_name_shape: "normalize_name U raw = Inr d \<Longrightarrow> dns_name d"
  using check_dns_shape_iff
  by (auto simp: normalize_name_def Let_def split: if_splits sum.splits option.splits)

text \<open>The characters an accepted address consists of.\<close>

definition address_char :: "rchar \<Rightarrow> bool" where
  "address_char c \<longleftrightarrow> is_atext c \<or> c = 46"

lemma is_atext_safe: "is_atext c \<Longrightarrow> \<not> is_control c \<and> c \<notin> {32, 34, 40, 41, 44, 46, 58, 59, 60, 62, 64, 91, 92, 93}"
  by (auto simp: is_atext_def ATEXT_def char_defs)

lemma dns_name_chars: "dns_name d \<Longrightarrow> c \<in> set d \<Longrightarrow> is_lower c \<or> is_digit c \<or> c = 45 \<or> c = 46"
  using split_by_mem [of c d "\<lambda>x. x = 46"]
  by (auto simp: dns_name_def split_on_def list_all_iff)

lemma ldh_address_char: "is_lower c \<or> is_digit c \<or> c = 45 \<or> c = 46 \<Longrightarrow> address_char c"
  by (auto simp: address_char_def is_atext_def ATEXT_def is_alnum_def)

lemma validate_local_part_iff:
  "validate_local_part l = Inr () \<longleftrightarrow> l \<noteq> [] \<and> slen l \<le> MAX_LOCAL_PART
     \<and> (\<forall>atom\<in>set (split_on 46 l). atom \<noteq> [] \<and> list_all is_atext atom)"
  by (auto simp: validate_local_part_def list_ex_iff)

lemma local_part_chars: "validate_local_part l = Inr () \<Longrightarrow> c \<in> set l \<Longrightarrow> address_char c"
  using split_by_mem [of c l "\<lambda>x. x = 46"]
  by (auto simp: validate_local_part_iff split_on_def list_all_iff address_char_def)

lemma address_char_safe:
  "address_char c \<Longrightarrow> \<not> is_control c \<and> c \<notin> {32, 34, 40, 41, 44, 58, 59, 60, 62, 64, 91, 92, 93}"
  using is_atext_safe [of c] by (auto simp: address_char_def is_control_def)

lemma address_parse_Inr:
  "address_parse U raw = Inr a \<longleftrightarrow> slen raw \<le> MAX_ADDRESS
     \<and> (\<exists>d. raw = a_local_part a @ 64 # d \<and> 64 \<notin> set d
          \<and> validate_local_part (a_local_part a) = Inr () \<and> normalize_name U d = Inr (a_domain a))"
proof -
  have "address_parse U raw = Inr a \<longleftrightarrow> slen raw \<le> MAX_ADDRESS
     \<and> (\<exists>d. rsplit_once 64 raw = Some (a_local_part a, d)
          \<and> validate_local_part (a_local_part a) = Inr () \<and> normalize_name U d = Inr (a_domain a))"
    by (auto simp: address_parse_def split: option.splits sum.splits domain_error.splits if_splits)
  then show ?thesis unfolding rsplit_once_Some by auto
qed

text \<open>No label of a name is written in punycode form.\<close>

definition no_punycode :: "rstr \<Rightarrow> bool" where
  "no_punycode d \<longleftrightarrow> (\<forall>l\<in>set (split_on 46 d). \<not> starts_with (lit ''xn--'') l)"

lemma ascii_lower_id: "list_all (\<lambda>b. is_lower b \<or> is_digit b \<or> b = 45 \<or> b = 46) d \<Longrightarrow> ascii_lower d = d"
  by (induction d) (auto simp: ascii_lower_def char_defs)

lemma check_labels_plain:
  "\<forall>l\<in>set ls. list_all (\<lambda>b. is_lower b \<or> is_digit b \<or> b = 45) l \<and> \<not> starts_with (lit ''xn--'') l \<Longrightarrow>
     check_labels U ls = Inr ()"
proof (induction ls)
  case (Cons l ls)
  have "ascii_lower l = l"
    using Cons.prems by (intro ascii_lower_id) (auto simp: list_all_iff)
  moreover have "list_all is_ascii l" using Cons.prems ldh_ascii by auto
  ultimately show ?case
    using Cons by (auto simp: starts_with_def split: option.splits)
qed simp

lemma normalize_name_fixed:
  assumes d: "dns_name d" "no_punycode d" and idna: "u_to_ascii_strict U d = Some d"
  shows "normalize_name U d = Inr d"
proof -
  have chars: "list_all (\<lambda>b. is_lower b \<or> is_digit b \<or> b = 45 \<or> b = 46) d"
    using dns_name_chars [OF d(1)] by (auto simp: list_all_iff)
  then have "\<not> list_ex is_ascii_whitespace d" "\<not> list_ex is_control d"
    by (auto simp: list_ex_iff list_all_iff char_defs)
  moreover have "d \<noteq> []"
    using d(1) by (auto simp: dns_name_def split_on_def)
  moreover have "check_confusables U d = Inr ()"
    unfolding check_confusables_def
    by (rule check_labels_plain) (use d in \<open>auto simp: dns_name_def no_punycode_def\<close>)
  ultimately show ?thesis
    using idna ascii_lower_id [OF chars] d(1)
    using check_dns_shape_iff [of d] by (simp add: normalize_name_def)
qed

subsection \<open>Properties\<close>

text \<open>C14: An address the parser accepts has a local part of at most 64 octets made of non-empty
  dot-separated atoms and a domain that is a lower-case DNS name of at least two labels, each of
  1 to 63 letters, digits and inner hyphens; nothing in it is a control character, a space, a
  quote, a comma, a colon, a bracket or a second at-sign, so it cannot inject into a header or a
  command. This holds whatever the Unicode conversion returns.\<close>

theorem parsed_address_is_safe:
  assumes "address_parse U raw = Inr a"
  shows "dns_name (a_domain a) \<and> a_local_part a \<noteq> [] \<and> slen (a_local_part a) \<le> MAX_LOCAL_PART
    \<and> (\<forall>atom\<in>set (split_on 46 (a_local_part a)). atom \<noteq> [] \<and> list_all is_atext atom)
    \<and> (\<forall>c\<in>set (a_local_part a @ a_domain a).
         \<not> is_control c \<and> c \<notin> {32, 34, 40, 41, 44, 58, 59, 60, 62, 64, 91, 92, 93})
    \<and> rsplit_once 64 (address_show a) = Some (a_local_part a, a_domain a)"
proof -
  have v: "validate_local_part (a_local_part a) = Inr ()" and d: "dns_name (a_domain a)"
    using assms normalize_name_shape by (auto simp: address_parse_Inr)
  have safe: "\<forall>c\<in>set (a_local_part a @ a_domain a).
         \<not> is_control c \<and> c \<notin> {32, 34, 40, 41, 44, 58, 59, 60, 62, 64, 91, 92, 93}"
    using local_part_chars [OF v] dns_name_chars [OF d] ldh_address_char address_char_safe by auto
  then have "rsplit_once 64 (address_show a) = Some (a_local_part a, a_domain a)"
    by (auto simp: rsplit_once_Some address_show_def)
  with safe v d show ?thesis
    unfolding validate_local_part_iff by blast
qed


text \<open>A Unicode environment for concrete inputs: names are converted by ASCII lower-casing.\<close>

definition ascii_ops :: unicode_ops where
  "ascii_ops = \<lparr>u_to_ascii_strict = (\<lambda>s. if list_all is_ascii s then Some (ascii_lower s) else None),
     u_punycode_decode = (\<lambda>s. None), u_is_single_script = (\<lambda>s. True), u_skeleton = (\<lambda>s. s),
     u_to_lowercase = ascii_lower\<rparr>"

definition demo_address :: address where
  "demo_address = \<lparr>a_local_part = lit ''ann.b'', a_domain = lit ''example.org''\<rparr>"

lemmas address_eval = address_parse_def normalize_name_def check_confusables_def check_dns_shape_def
  dns_label_bad_def validate_local_part_def is_atext_def ATEXT_def MAX_ADDRESS_def
  MAX_LOCAL_PART_def MAX_DOMAIN_def MAX_LABEL_def address_show_def

lemma demo_parses: "address_parse ascii_ops (lit ''ann.b@Example.org'') = Inr demo_address"
  by (simp add: ascii_ops_def demo_address_def address_eval str_simps)

theorem parsed_address_is_safe_witness:
  "address_parse ascii_ops (lit ''ann.b@Example.org'') = Inr demo_address
   \<and> dns_name (a_domain demo_address)"
  using demo_parses parsed_address_is_safe [OF demo_parses] by blast


end
