(* ===== verification/Smtp_Command.thy ===== *)
theory Smtp_Command
  imports Prelude
begin

section \<open>SMTP commands\<close>

text \<open>
  The strict command parser of \<^verbatim>\<open>src/src/smtp/command.rs\<close>. The loops over ESMTP parameters are
  recursive functions with the fields parsed so far as accumulator; the \<^verbatim>\<open>?\<close> operator and every
  early \<^verbatim>\<open>return Err\<close> is a branch. A printer of well-formed commands is the reference the parser is
  compared with.
\<close>

subsection \<open>The code\<close>

definition MAX_COMMAND_LINE :: nat where
  "MAX_COMMAND_LINE = 512"

datatype body_kind = SevenBit | EightBitMime

datatype ret_kind = RetFull | RetHeaders

datatype notify = NotifyNever | NotifyOn (n_success: bool) (n_failure: bool) (n_delay: bool)

datatype command =
    Helo (helo_domain: rstr)
  | Ehlo (ehlo_domain: rstr)
  | MailFrom (reverse_path: rstr) (mf_size: "nat option") (mf_body: "body_kind option")
      (mf_require_tls: bool) (mf_ret: "ret_kind option") (mf_envid: "rstr option")
  | RcptTo (forward_path: rstr) (rt_notify: "notify option") (rt_orcpt: "rstr option")
  | Data
  | Bdat (bd_size: nat) (bd_last: bool)
  | Rset
  | Noop
  | Quit
  | Vrfy
  | StartTls
  | Auth (au_mechanism: rstr) (au_initial: "rstr option")

datatype parse_error =
  LineTooLong | InvalidCharacters | UnknownCommand | InvalidArguments | UnsupportedParameter

definition parse_bdat :: "rstr \<Rightarrow> (parse_error, command) result" where
  "parse_bdat args =
     (case split_ascii_whitespace args of
        [] \<Rightarrow> Inl InvalidArguments
      | w # rest \<Rightarrow>
          (case parse_uint usize_max w of
             None \<Rightarrow> Inl InvalidArguments
           | Some n \<Rightarrow>
               (case rest of
                  [] \<Rightarrow> Inr (Bdat n False)
                | token # more \<Rightarrow>
                    if \<not> eq_ignore_case token (lit ''LAST'') then Inl InvalidArguments
                    else if more \<noteq> [] then Inl InvalidArguments
                    else Inr (Bdat n True))))"

definition parse_auth :: "rstr \<Rightarrow> (parse_error, command) result" where
  "parse_auth args =
     (case split_ascii_whitespace args of
        [] \<Rightarrow> Inl InvalidArguments
      | mechanism # rest \<Rightarrow>
          if length rest > 1 then Inl InvalidArguments
          else if \<not> list_all (\<lambda>c. is_alnum c \<or> c = 45 \<or> c = 95) mechanism then Inl InvalidArguments
          else Inr (Auth (ascii_upper mechanism)
                 (case rest of [] \<Rightarrow> None | i # _ \<Rightarrow> Some (if i = lit ''='' then [] else i))))"

definition parse_no_args :: "rstr \<Rightarrow> command \<Rightarrow> (parse_error, command) result" where
  "parse_no_args args c = (if args = [] then Inr c else Inl InvalidArguments)"

definition parse_domain_arg :: "rstr \<Rightarrow> (parse_error, rstr) result" where
  "parse_domain_arg args = (if args = [] \<or> 32 \<in> set args then Inl InvalidArguments else Inr args)"

definition parse_path_arg :: "rstr \<Rightarrow> rstr \<Rightarrow> (parse_error, rstr \<times> rstr) result" where
  "parse_path_arg args pre =
     (case split_at_octet (slen pre) args of
        None \<Rightarrow> Inl InvalidArguments
      | Some (head, tail) \<Rightarrow>
          if \<not> eq_ignore_case head pre then Inl InvalidArguments
          else (case trim_start tail of
              [] \<Rightarrow> Inl InvalidArguments
            | c # after_open \<Rightarrow>
                if c \<noteq> 60 then Inl InvalidArguments
                else (case split_once 62 after_open of
                        None \<Rightarrow> Inl InvalidArguments
                      | Some (path, after_close) \<Rightarrow>
                          if 60 \<in> set path \<or> 62 \<in> set path \<or> 32 \<in> set path
                          then Inl InvalidArguments
                          else if after_close \<noteq> [] \<and> \<not> starts_with [32] after_close
                          then Inl InvalidArguments
                          else Inr (path, trim after_close))))"

fun split_parameters_list :: "rstr list \<Rightarrow> (parse_error, (rstr \<times> rstr option) list) result" where
  "split_parameters_list [] = Inr []"
| "split_parameters_list (p # ps) =
     (let (keyword, value) = (case split_once 61 p of
            Some (k, v) \<Rightarrow> (k, Some v) | None \<Rightarrow> (p, None))
      in if keyword = [] \<or> \<not> list_all (\<lambda>c. is_alnum c \<or> c = 45) keyword then Inl InvalidArguments
         else (case split_parameters_list ps of
                 Inl e \<Rightarrow> Inl e | Inr out \<Rightarrow> Inr ((keyword, value) # out)))"

definition split_parameters :: "rstr \<Rightarrow> (parse_error, (rstr \<times> rstr option) list) result" where
  "split_parameters params = split_parameters_list (split_ascii_whitespace params)"

record mail_params =
  mp_size :: "nat option"
  mp_body :: "body_kind option"
  mp_require_tls :: bool
  mp_ret :: "ret_kind option"
  mp_envid :: "rstr option"

definition mail_params_default :: mail_params where
  "mail_params_default = \<lparr>mp_size = None, mp_body = None, mp_require_tls = False, mp_ret = None,
     mp_envid = None\<rparr>"

definition mail_param_step ::
    "rstr \<Rightarrow> rstr option \<Rightarrow> mail_params \<Rightarrow> (parse_error, mail_params) result" where
  "mail_param_step keyword value out =
     (let kw = ascii_upper keyword in
      if kw = lit ''SIZE'' then
        (case value of None \<Rightarrow> Inl InvalidArguments
         | Some v \<Rightarrow> (case parse_uint u64_max v of None \<Rightarrow> Inl InvalidArguments
           | Some n \<Rightarrow> if mp_size out \<noteq> None then Inl InvalidArguments
                       else Inr (out\<lparr>mp_size := Some n\<rparr>)))
      else if kw = lit ''BODY'' then
        (case value of None \<Rightarrow> Inl InvalidArguments
         | Some v \<Rightarrow>
             if ascii_upper v = lit ''7BIT'' then
               (if mp_body out \<noteq> None then Inl InvalidArguments
                else Inr (out\<lparr>mp_body := Some SevenBit\<rparr>))
             else if ascii_upper v = lit ''8BITMIME'' then
               (if mp_body out \<noteq> None then Inl InvalidArguments
                else Inr (out\<lparr>mp_body := Some EightBitMime\<rparr>))
             else Inl InvalidArguments)
      else if kw = lit ''REQUIRETLS'' then
        (if value \<noteq> None \<or> mp_require_tls out then Inl InvalidArguments
         else Inr (out\<lparr>mp_require_tls := True\<rparr>))
      else if kw = lit ''SMTPUTF8'' then
        (if value \<noteq> None then Inl InvalidArguments else Inr out)
      else if kw = lit ''RET'' then
        (case value of None \<Rightarrow> Inl InvalidArguments
         | Some v \<Rightarrow>
             if ascii_upper v = lit ''FULL'' then
               (if mp_ret out \<noteq> None then Inl InvalidArguments
                else Inr (out\<lparr>mp_ret := Some RetFull\<rparr>))
             else if ascii_upper v = lit ''HDRS'' then
               (if mp_ret out \<noteq> None then Inl InvalidArguments
                else Inr (out\<lparr>mp_ret := Some RetHeaders\<rparr>))
             else Inl InvalidArguments)
      else if kw = lit ''ENVID'' then
        (case value of None \<Rightarrow> Inl InvalidArguments
         | Some v \<Rightarrow> if mp_envid out \<noteq> None then Inl InvalidArguments
                     else Inr (out\<lparr>mp_envid := Some v\<rparr>))
      else Inl UnsupportedParameter)"

fun mail_params_loop ::
    "(rstr \<times> rstr option) list \<Rightarrow> mail_params \<Rightarrow> (parse_error, mail_params) result" where
  "mail_params_loop [] out = Inr out"
| "mail_params_loop ((k, v) # ps) out =
     (case mail_param_step k v out of Inl e \<Rightarrow> Inl e | Inr out' \<Rightarrow> mail_params_loop ps out')"

definition parse_mail_parameters :: "rstr \<Rightarrow> (parse_error, mail_params) result" where
  "parse_mail_parameters params =
     (case split_parameters params of
        Inl e \<Rightarrow> Inl e | Inr ps \<Rightarrow> mail_params_loop ps mail_params_default)"

text \<open>\<^verbatim>\<open>parse_notify\<close>: the flags never, success, failure and delay as the loop sets them.\<close>

fun notify_loop :: "rstr list \<Rightarrow> bool \<times> bool \<times> bool \<times> bool
    \<Rightarrow> (parse_error, bool \<times> bool \<times> bool \<times> bool) result" where
  "notify_loop [] flags = Inr flags"
| "notify_loop (token # rest) (nv, su, fa, de) =
     (let t = ascii_upper token in
      if t = lit ''NEVER'' then notify_loop rest (True, su, fa, de)
      else if t = lit ''SUCCESS'' then notify_loop rest (nv, True, fa, de)
      else if t = lit ''FAILURE'' then notify_loop rest (nv, su, True, de)
      else if t = lit ''DELAY'' then notify_loop rest (nv, su, fa, True)
      else Inl InvalidArguments)"

definition parse_notify :: "rstr \<Rightarrow> (parse_error, notify) result" where
  "parse_notify value =
     (case notify_loop (split_on 44 value) (False, False, False, False) of
        Inl e \<Rightarrow> Inl e
      | Inr (nv, su, fa, de) \<Rightarrow>
          if nv then (if su \<or> fa \<or> de then Inl InvalidArguments else Inr NotifyNever)
          else Inr (NotifyOn su fa de))"

fun rcpt_params_loop :: "(rstr \<times> rstr option) list \<Rightarrow> notify option \<times> rstr option
    \<Rightarrow> (parse_error, notify option \<times> rstr option) result" where
  "rcpt_params_loop [] out = Inr out"
| "rcpt_params_loop ((k, v) # ps) (no, orc) =
     (let kw = ascii_upper k in
      if kw = lit ''NOTIFY'' then
        (case v of None \<Rightarrow> Inl InvalidArguments
         | Some x \<Rightarrow> (case parse_notify x of Inl e \<Rightarrow> Inl e
           | Inr n \<Rightarrow> if no \<noteq> None then Inl InvalidArguments
                      else rcpt_params_loop ps (Some n, orc)))
      else if kw = lit ''ORCPT'' then
        (case v of None \<Rightarrow> Inl InvalidArguments
         | Some x \<Rightarrow> if orc \<noteq> None then Inl InvalidArguments
                     else rcpt_params_loop ps (no, Some x))
      else Inl UnsupportedParameter)"

definition parse_rcpt_parameters ::
    "rstr \<Rightarrow> (parse_error, notify option \<times> rstr option) result" where
  "parse_rcpt_parameters params =
     (case split_parameters params of
        Inl e \<Rightarrow> Inl e | Inr ps \<Rightarrow> rcpt_params_loop ps (None, None))"

definition parse_mail :: "rstr \<Rightarrow> (parse_error, command) result" where
  "parse_mail args =
     (case parse_path_arg args (lit ''FROM:'') of
        Inl e \<Rightarrow> Inl e
      | Inr (path, params) \<Rightarrow>
          (case parse_mail_parameters params of
             Inl e \<Rightarrow> Inl e
           | Inr m \<Rightarrow> Inr (MailFrom path (mp_size m) (mp_body m) (mp_require_tls m) (mp_ret m)
                              (mp_envid m))))"

definition parse_rcpt :: "rstr \<Rightarrow> (parse_error, command) result" where
  "parse_rcpt args =
     (case parse_path_arg args (lit ''TO:'') of
        Inl e \<Rightarrow> Inl e
      | Inr (path, params) \<Rightarrow>
          (case parse_rcpt_parameters params of
             Inl e \<Rightarrow> Inl e
           | Inr (no, orc) \<Rightarrow> Inr (RcptTo path no orc)))"

definition parse_command :: "rstr \<Rightarrow> (parse_error, command) result" where
  "parse_command line =
     (if slen line > MAX_COMMAND_LINE then Inl LineTooLong
      else if list_ex is_control line then Inl InvalidCharacters
      else let (verb, args) = (case split_once 32 line of
                 Some (v, a) \<Rightarrow> (v, trim a) | None \<Rightarrow> (line, []));
               vb = ascii_upper verb
           in if vb = lit ''HELO'' then
                (case parse_domain_arg args of Inl e \<Rightarrow> Inl e | Inr d \<Rightarrow> Inr (Helo d))
              else if vb = lit ''EHLO'' then
                (case parse_domain_arg args of Inl e \<Rightarrow> Inl e | Inr d \<Rightarrow> Inr (Ehlo d))
              else if vb = lit ''MAIL'' then parse_mail args
              else if vb = lit ''RCPT'' then parse_rcpt args
              else if vb = lit ''DATA'' then parse_no_args args Data
              else if vb = lit ''BDAT'' then parse_bdat args
              else if vb = lit ''RSET'' then parse_no_args args Rset
              else if vb = lit ''NOOP'' then Inr Noop
              else if vb = lit ''QUIT'' then parse_no_args args Quit
              else if vb = lit ''VRFY'' then Inr Vrfy
              else if vb = lit ''STARTTLS'' then parse_no_args args StartTls
              else if vb = lit ''AUTH'' then parse_auth args
              else Inl UnknownCommand)"

subsection \<open>What a parsed command satisfies\<close>

definition plain_text :: "rstr \<Rightarrow> bool" where
  "plain_text s \<longleftrightarrow> (\<forall>c\<in>set s. \<not> is_control c)"

definition path_ok :: "rstr \<Rightarrow> bool" where
  "path_ok p \<longleftrightarrow> plain_text p \<and> 60 \<notin> set p \<and> 62 \<notin> set p \<and> 32 \<notin> set p"

definition token_ok :: "rstr \<Rightarrow> bool" where
  "token_ok v \<longleftrightarrow> plain_text v \<and> 32 \<notin> set v"

fun command_ok :: "command \<Rightarrow> bool" where
  "command_ok (Helo d) = (d \<noteq> [] \<and> token_ok d)"
| "command_ok (Ehlo d) = (d \<noteq> [] \<and> token_ok d)"
| "command_ok (MailFrom p s b t r e) =
     (path_ok p \<and> pred_option (\<lambda>n. n \<le> u64_max) s \<and> pred_option token_ok e)"
| "command_ok (RcptTo p n orc) =
     (path_ok p \<and> pred_option token_ok orc \<and> n \<noteq> Some (NotifyOn False False False))"
| "command_ok (Bdat n l) = (n \<le> usize_max)"
| "command_ok (Auth m i) =
     (m \<noteq> [] \<and> list_all (\<lambda>c. is_upper c \<or> is_digit c \<or> c = 45 \<or> c = 95) m
      \<and> pred_option (\<lambda>x. token_ok x \<and> x \<noteq> lit ''='') i)"
| "command_ok _ = True"

lemma plain_text_subset: "plain_text s \<Longrightarrow> set t \<subseteq> set s \<Longrightarrow> plain_text t"
  by (auto simp: plain_text_def)

lemma split_ascii_whitespace_mem:
  assumes "w \<in> set (split_ascii_whitespace s)"
  shows "set w \<subseteq> set s" "w \<noteq> []" "32 \<notin> set w"
proof -
  have "w \<in> set (split_by is_ascii_whitespace s)" "w \<noteq> []"
    using assms by (auto simp: split_ascii_whitespace_def)
  then show "set w \<subseteq> set s" "w \<noteq> []" "32 \<notin> set w"
    using split_by_subset split_by_free [of w is_ascii_whitespace s 32]
    by (auto simp: is_ascii_whitespace_def)
qed

lemma token_ok_word:
  "plain_text s \<Longrightarrow> w \<in> set (split_ascii_whitespace s) \<Longrightarrow> token_ok w"
  using split_ascii_whitespace_mem plain_text_subset by (auto simp: token_ok_def)

lemma split_parameters_list_tokens:
  "split_parameters_list ps = Inr out \<Longrightarrow> \<forall>p\<in>set ps. token_ok p \<Longrightarrow>
     (k, Some v) \<in> set out \<Longrightarrow> token_ok v"
proof (induction ps arbitrary: out)
  case (Cons p ps)
  have "token_ok v'" if "split_once 61 p = Some (k', v')" for k' v'
    using that Cons.prems(2) by (auto simp: split_once_Some token_ok_def plain_text_def)
  with Cons show ?case
    by (auto simp: Let_def split: if_splits sum.splits option.splits prod.splits)
qed simp

lemma mail_param_step_ok:
  assumes "mail_param_step k v out = Inr out'" "pred_option (\<lambda>n. n \<le> u64_max) (mp_size out)"
    "pred_option token_ok (mp_envid out)" "pred_option token_ok v"
  shows "pred_option (\<lambda>n. n \<le> u64_max) (mp_size out') \<and> pred_option token_ok (mp_envid out')"
  using assms
  by (auto simp: mail_param_step_def Let_def dest: parse_uint_le
      split: if_splits option.splits)

lemma mail_params_loop_ok:
  "mail_params_loop ps out = Inr m \<Longrightarrow> \<forall>(k, v)\<in>set ps. pred_option token_ok v \<Longrightarrow>
   pred_option (\<lambda>n. n \<le> u64_max) (mp_size out) \<Longrightarrow> pred_option token_ok (mp_envid out) \<Longrightarrow>
   pred_option (\<lambda>n. n \<le> u64_max) (mp_size m) \<and> pred_option token_ok (mp_envid m)"
proof (induction ps out rule: mail_params_loop.induct)
  case (2 k v ps out)
  then show ?case
    using mail_param_step_ok [of k v out] by (fastforce split: sum.splits)
qed auto

lemma notify_loop_some:
  "notify_loop ts fl = Inr (nv, su, fa, de) \<Longrightarrow> ts \<noteq> [] \<Longrightarrow> nv \<or> su \<or> fa \<or> de"
proof -
  have keep: "notify_loop ts (a, b, c, d) = Inr (nv, su, fa, de) \<Longrightarrow> a \<or> b \<or> c \<or> d \<Longrightarrow>
      nv \<or> su \<or> fa \<or> de" for ts a b c d
    by (induction ts "(a, b, c, d)" arbitrary: a b c d rule: notify_loop.induct)
      (auto simp: Let_def split: if_splits)
  show "notify_loop ts fl = Inr (nv, su, fa, de) \<Longrightarrow> ts \<noteq> [] \<Longrightarrow> nv \<or> su \<or> fa \<or> de"
    by (cases "(ts, fl)" rule: notify_loop.cases) (auto simp: Let_def split: if_splits dest!: keep)
qed

lemma parse_notify_ok: "parse_notify v = Inr n \<Longrightarrow> n \<noteq> NotifyOn False False False"
  using notify_loop_some [of "split_on 44 v" "(False, False, False, False)"]
  by (auto simp: parse_notify_def split_on_def split: sum.splits prod.splits if_splits)

lemma rcpt_params_loop_ok:
  "rcpt_params_loop ps out = Inr (n, orc) \<Longrightarrow> \<forall>(k, v)\<in>set ps. pred_option token_ok v \<Longrightarrow>
   pred_option token_ok (snd out) \<Longrightarrow> fst out \<noteq> Some (NotifyOn False False False) \<Longrightarrow>
   pred_option token_ok orc \<and> n \<noteq> Some (NotifyOn False False False)"
proof (induction ps out rule: rcpt_params_loop.induct)
  case (2 k v ps no orc')
  then show ?case
    using parse_notify_ok
    by (auto simp: Let_def split: if_splits option.splits sum.splits)
qed auto

lemma parse_path_arg_ok:
  assumes "parse_path_arg args pre = Inr (path, params)" "plain_text args"
  shows "path_ok path \<and> plain_text params"
proof -
  obtain head tail after_open after_close where
    a: "split_at_octet (slen pre) args = Some (head, tail)" "trim_start tail = 60 # after_open"
      "split_once 62 after_open = Some (path, after_close)" "params = trim after_close"
      "60 \<notin> set path" "62 \<notin> set path" "32 \<notin> set path"
    using assms(1)
    by (auto simp: parse_path_arg_def split: option.splits prod.splits list.splits if_splits)
  have "set after_open \<subseteq> set tail"
    using a(2) by (metis list.set_intros(2) set_dropWhileD subsetI trim_start_def)
  then have "set path \<subseteq> set args" "set after_close \<subseteq> set args"
    using a(1,3) by (auto simp: split_at_octet_Some split_once_Some)
  then show ?thesis
    using assms(2) a set_trim [of after_close] by (auto simp: path_ok_def plain_text_def)
qed

lemma split_parameters_ok:
  "split_parameters params = Inr ps \<Longrightarrow> plain_text params \<Longrightarrow> \<forall>(k, v)\<in>set ps. pred_option token_ok v"
  using split_parameters_list_tokens token_ok_word
  by (fastforce simp: split_parameters_def pred_option_def split: option.splits)

lemma parse_mail_ok: "parse_mail args = Inr c \<Longrightarrow> plain_text args \<Longrightarrow> command_ok c"
  using parse_path_arg_ok split_parameters_ok
    mail_params_loop_ok [where out = mail_params_default]
  by (fastforce simp: parse_mail_def parse_mail_parameters_def mail_params_default_def
      split: sum.splits prod.splits)

lemma parse_rcpt_ok: "parse_rcpt args = Inr c \<Longrightarrow> plain_text args \<Longrightarrow> command_ok c"
  using parse_path_arg_ok split_parameters_ok
    rcpt_params_loop_ok [where out = "(None, None)"]
  by (fastforce simp: parse_rcpt_def parse_rcpt_parameters_def split: sum.splits prod.splits)

lemma parse_auth_ok: "parse_auth args = Inr c \<Longrightarrow> plain_text args \<Longrightarrow> command_ok c"
proof -
  assume c: "parse_auth args = Inr c" and "plain_text args"
  then have words: "\<forall>w\<in>set (split_ascii_whitespace args). token_ok w \<and> w \<noteq> []"
    using token_ok_word split_ascii_whitespace_mem by blast
  have up: "is_upper (to_upper x) \<or> is_digit (to_upper x) \<or> to_upper x = 45 \<or> to_upper x = 95"
    if "is_alnum x \<or> x = 45 \<or> x = 95" for x
    using that by (auto simp: char_defs)
  from c words show "command_ok c"
    by (auto simp: parse_auth_def list_all_iff ascii_upper_def up token_ok_def plain_text_def
        lit_def split: list.splits if_splits)
qed

lemma parse_bdat_ok: "parse_bdat args = Inr c \<Longrightarrow> command_ok c"
  by (auto simp: parse_bdat_def dest: parse_uint_le split: list.splits option.splits if_splits)

lemma parse_command_args:
  assumes "plain_text line"
  shows "plain_text (snd (case split_once 32 line of Some (v, a) \<Rightarrow> (v, trim a) | None \<Rightarrow> (line, [])))"
proof (cases "split_once 32 line")
  case (Some va)
  then have "set (trim (snd va)) \<subseteq> set line"
    using set_trim [of "snd va"] by (cases va) (auto simp: split_once_Some)
  with Some assms show ?thesis by (cases va) (auto simp: plain_text_def)
qed (simp add: plain_text_def)

lemma parse_command_ok:
  assumes "parse_command line = Inr c"
  shows "command_ok c \<and> slen line \<le> MAX_COMMAND_LINE \<and> plain_text line"
proof -
  have line: "slen line \<le> MAX_COMMAND_LINE" "plain_text line"
    using assms by (auto simp: parse_command_def plain_text_def list_ex_iff split: if_splits)
  obtain verb args where va: "(case split_once 32 line of Some (v, a) \<Rightarrow> (v, trim a)
      | None \<Rightarrow> (line, [])) = (verb, args)"
    by force
  have args: "plain_text args"
    using parse_command_args [OF line(2)] va by simp
  have dom: "parse_domain_arg args = Inr d \<Longrightarrow> d \<noteq> [] \<and> token_ok d" for d
    using args by (auto simp: parse_domain_arg_def token_ok_def split: if_splits)
  have "command_ok c"
    using assms dom parse_mail_ok [OF _ args] parse_rcpt_ok [OF _ args] parse_auth_ok [OF _ args]
      parse_bdat_ok
    unfolding parse_command_def va Let_def prod.case
    by (auto simp: parse_no_args_def split: if_splits sum.splits)
  with line show ?thesis by blast
qed

subsection \<open>Parameters are given once\<close>

definition param_set :: "rstr \<Rightarrow> mail_params \<Rightarrow> bool" where
  "param_set kw m \<longleftrightarrow>
     (if kw = lit ''SIZE'' then mp_size m \<noteq> None
      else if kw = lit ''BODY'' then mp_body m \<noteq> None
      else if kw = lit ''REQUIRETLS'' then mp_require_tls m
      else if kw = lit ''RET'' then mp_ret m \<noteq> None
      else if kw = lit ''ENVID'' then mp_envid m \<noteq> None
      else False)"

definition single_params :: "rstr list" where
  "single_params = [lit ''SIZE'', lit ''BODY'', lit ''REQUIRETLS'', lit ''RET'', lit ''ENVID'']"

definition param_count :: "rstr \<Rightarrow> (rstr \<times> rstr option) list \<Rightarrow> nat" where
  "param_count kw ps = length (filter (\<lambda>(k, v). ascii_upper k = kw) ps)"

lemma mail_param_step_cases:
  assumes "mail_param_step k v out = Inr out'"
  shows "(ascii_upper k = lit ''SIZE'' \<and> mp_size out = None \<and> (\<exists>n. out' = out\<lparr>mp_size := Some n\<rparr>))
    \<or> (ascii_upper k = lit ''BODY'' \<and> mp_body out = None \<and> (\<exists>b. out' = out\<lparr>mp_body := Some b\<rparr>))
    \<or> (ascii_upper k = lit ''REQUIRETLS'' \<and> \<not> mp_require_tls out
        \<and> out' = out\<lparr>mp_require_tls := True\<rparr>)
    \<or> (ascii_upper k = lit ''SMTPUTF8'' \<and> out' = out)
    \<or> (ascii_upper k = lit ''RET'' \<and> mp_ret out = None \<and> (\<exists>r. out' = out\<lparr>mp_ret := Some r\<rparr>))
    \<or> (ascii_upper k = lit ''ENVID'' \<and> mp_envid out = None \<and> (\<exists>e. out' = out\<lparr>mp_envid := Some e\<rparr>))"
  using assms unfolding mail_param_step_def Let_def
  by (simp split: if_split_asm option.split_asm; blast)

lemma param_names: "distinct (lit ''SMTPUTF8'' # single_params)"
  by (simp add: single_params_def lit_def)

lemma mail_param_step_once:
  assumes st: "mail_param_step k v out = Inr out'" and kw: "kw \<in> set single_params"
  shows "(of_bool (param_set kw out') :: nat)
        = of_bool (param_set kw out) + of_bool (ascii_upper k = kw)"
    and "ascii_upper k \<in> set (lit ''SMTPUTF8'' # single_params)"
proof -
  note n = param_names [unfolded single_params_def]
  consider "kw = lit ''SIZE''" | "kw = lit ''BODY''" | "kw = lit ''REQUIRETLS''"
    | "kw = lit ''RET''" | "kw = lit ''ENVID''"
    using kw unfolding single_params_def by auto
  then show "(of_bool (param_set kw out') :: nat)
        = of_bool (param_set kw out) + of_bool (ascii_upper k = kw)"
    using mail_param_step_cases [OF st] n
    by cases (elim disjE conjE exE; simp add: param_set_def)+
  show "ascii_upper k \<in> set (lit ''SMTPUTF8'' # single_params)"
    using mail_param_step_cases [OF st] unfolding single_params_def
    by (elim disjE conjE exE; simp)
qed

lemma mail_params_loop_once:
  "mail_params_loop ps out = Inr m \<Longrightarrow> kw \<in> set single_params \<Longrightarrow>
     of_bool (param_set kw m) = of_bool (param_set kw out) + param_count kw ps
     \<and> (\<forall>(k, v)\<in>set ps. ascii_upper k \<in> set (lit ''SMTPUTF8'' # single_params))"
proof (induction ps out rule: mail_params_loop.induct)
  case (2 k v ps out)
  obtain out' where st: "mail_param_step k v out = Inr out'" and lo: "mail_params_loop ps out' = Inr m"
    using "2.prems"(1) by (auto split: sum.splits)
  have "param_count kw ((k, v) # ps) = of_bool (ascii_upper k = kw) + param_count kw ps"
    by (simp add: param_count_def)
  then show ?case
    using mail_param_step_once [OF st "2.prems"(2)] "2.IH" [OF st lo "2.prems"(2)] by simp
qed (simp add: param_count_def)

subsection \<open>Properties\<close>

text \<open>C16: A command the parser accepts carries nothing that could break out of the line or the
  envelope: the line is within its limit and free of control characters, a path holds no angle
  bracket or space, parameter values are single words, sizes fit their integer types, a DSN request
  names at least one event, and an AUTH mechanism is upper-case letters, digits, hyphens and
  underscores.\<close>

theorem parsed_command_is_safe:
  assumes "parse_command line = Inr c"
  shows "command_ok c \<and> slen line \<le> MAX_COMMAND_LINE \<and> plain_text line"
  using assms by (rule parse_command_ok)

theorem parsed_command_is_safe_witness:
  "parse_command (lit ''rcpt to:<a@b.cc> notify=never'') =
     Inr (RcptTo (lit ''a@b.cc'') (Some NotifyNever) None)
   \<and> command_ok (RcptTo (lit ''a@b.cc'') (Some NotifyNever) None)"
proof -
  have "parse_command (lit ''rcpt to:<a@b.cc> notify=never'') =
     Inr (RcptTo (lit ''a@b.cc'') (Some NotifyNever) None)"
    by (simp add: parse_command_def parse_rcpt_def parse_path_arg_def parse_rcpt_parameters_def
        split_parameters_def parse_notify_def MAX_COMMAND_LINE_def str_simps)
  with parsed_command_is_safe [OF this] show ?thesis by blast
qed

text \<open>MAIL parameters are given at most once. When the parameters of a MAIL command are
  accepted, each of SIZE, BODY, REQUIRETLS, RET and ENVID occurs exactly as often as the resulting
  field is set (once or not at all, whatever the letter case), and no keyword other than these and
  SMTPUTF8 occurs.\<close>

theorem mail_parameters_unique:
  assumes "split_parameters params = Inr ps" and "parse_mail_parameters params = Inr m"
    and "kw \<in> set single_params"
  shows "param_count kw ps = of_bool (param_set kw m)
    \<and> (\<forall>(k, v)\<in>set ps. ascii_upper k \<in> set (lit ''SMTPUTF8'' # single_params))"
proof -
  have "\<not> param_set kw mail_params_default"
    by (simp add: param_set_def mail_params_default_def)
  then show ?thesis
    using mail_params_loop_once [OF _ assms(3), of ps mail_params_default m] assms(1,2)
    by (simp add: parse_mail_parameters_def)
qed

theorem mail_parameters_unique_witness:
  "param_count (lit ''SIZE'') [(lit ''size'', Some (lit ''5'')), (lit ''SMTPUTF8'', None)] = 1"
proof -
  have s: "split_parameters (lit ''size=5 SMTPUTF8'') =
      Inr [(lit ''size'', Some (lit ''5'')), (lit ''SMTPUTF8'', None)]"
    by (simp add: split_parameters_def str_simps)
  have m: "parse_mail_parameters (lit ''size=5 SMTPUTF8'') = Inr (mail_params_default\<lparr>mp_size := Some 5\<rparr>)"
    unfolding parse_mail_parameters_def s
    by (simp add: mail_param_step_def str_simps sat_simps mail_params_default_def)
  have k: "lit ''SIZE'' \<in> set single_params" by (simp add: single_params_def)
  from mail_parameters_unique [OF s m k] show ?thesis
    by (simp add: param_set_def mail_params_default_def)
qed

end
