(* ===== verification/Smtp_Command_Print.thy ===== *)
theory Smtp_Command_Print
  imports Smtp_Command
begin

section \<open>Printing commands and reading them back\<close>

text \<open>
  A printer for the commands of \<^verbatim>\<open>src/src/smtp/command.rs\<close> and the proof that the parser reads
  every printed command back as the same command.
\<close>

subsection \<open>A printer\<close>

definition show_param :: "rstr \<times> rstr option \<Rightarrow> rstr" where
  "show_param p = (case snd p of None \<Rightarrow> fst p | Some v \<Rightarrow> fst p @ 61 # v)"

definition show_params :: "(rstr \<times> rstr option) list \<Rightarrow> rstr" where
  "show_params ps = concat (map (\<lambda>p. 32 # show_param p) ps)"

definition mail_pairs :: "nat option \<Rightarrow> body_kind option \<Rightarrow> bool \<Rightarrow> ret_kind option \<Rightarrow> rstr option
    \<Rightarrow> (rstr \<times> rstr option) list" where
  "mail_pairs s b t r e =
     (case s of Some n \<Rightarrow> [(lit ''SIZE'', Some (show_nat n))] | None \<Rightarrow> [])
     @ (case b of Some SevenBit \<Rightarrow> [(lit ''BODY'', Some (lit ''7BIT''))]
          | Some EightBitMime \<Rightarrow> [(lit ''BODY'', Some (lit ''8BITMIME''))] | None \<Rightarrow> [])
     @ (if t then [(lit ''REQUIRETLS'', None)] else [])
     @ (case r of Some RetFull \<Rightarrow> [(lit ''RET'', Some (lit ''FULL''))]
          | Some RetHeaders \<Rightarrow> [(lit ''RET'', Some (lit ''HDRS''))] | None \<Rightarrow> [])
     @ (case e of Some v \<Rightarrow> [(lit ''ENVID'', Some v)] | None \<Rightarrow> [])"

definition show_notify :: "notify \<Rightarrow> rstr" where
  "show_notify n = (case n of NotifyNever \<Rightarrow> lit ''NEVER''
     | NotifyOn su fa de \<Rightarrow> join_with [44]
         ((if su then [lit ''SUCCESS''] else []) @ (if fa then [lit ''FAILURE''] else [])
          @ (if de then [lit ''DELAY''] else [])))"

definition rcpt_pairs :: "notify option \<Rightarrow> rstr option \<Rightarrow> (rstr \<times> rstr option) list" where
  "rcpt_pairs n orc =
     (case n of Some x \<Rightarrow> [(lit ''NOTIFY'', Some (show_notify x))] | None \<Rightarrow> [])
     @ (case orc of Some v \<Rightarrow> [(lit ''ORCPT'', Some v)] | None \<Rightarrow> [])"

fun show_command :: "command \<Rightarrow> rstr" where
  "show_command (Helo d) = lit ''HELO'' @ 32 # d"
| "show_command (Ehlo d) = lit ''EHLO'' @ 32 # d"
| "show_command (MailFrom p s b t r e) =
     lit ''MAIL'' @ 32 # lit ''FROM:<'' @ p @ 62 # show_params (mail_pairs s b t r e)"
| "show_command (RcptTo p n orc) =
     lit ''RCPT'' @ 32 # lit ''TO:<'' @ p @ 62 # show_params (rcpt_pairs n orc)"
| "show_command Data = lit ''DATA''"
| "show_command (Bdat n l) = lit ''BDAT'' @ 32 # show_nat n @ (if l then lit '' LAST'' else [])"
| "show_command Rset = lit ''RSET''"
| "show_command Noop = lit ''NOOP''"
| "show_command Quit = lit ''QUIT''"
| "show_command Vrfy = lit ''VRFY''"
| "show_command StartTls = lit ''STARTTLS''"
| "show_command (Auth m i) = lit ''AUTH'' @ 32 # m
     @ (case i of None \<Rightarrow> [] | Some x \<Rightarrow> 32 # (if x = [] then lit ''='' else x))"

text \<open>The commands the printer can express: as \<open>command_ok\<close>, and no free text holds white space of
  any script (the parser trims it at the ends of a line).\<close>

definition word_ok :: "rstr \<Rightarrow> bool" where
  "word_ok v \<longleftrightarrow> (\<forall>c\<in>set v. \<not> is_control c \<and> \<not> is_whitespace c)"

fun printable :: "command \<Rightarrow> bool" where
  "printable (Helo d) = (d \<noteq> [] \<and> word_ok d)"
| "printable (Ehlo d) = (d \<noteq> [] \<and> word_ok d)"
| "printable (MailFrom p s b t r e) =
     (path_ok p \<and> pred_option (\<lambda>n. n \<le> u64_max) s \<and> pred_option word_ok e)"
| "printable (RcptTo p n orc) =
     (path_ok p \<and> pred_option word_ok orc \<and> n \<noteq> Some (NotifyOn False False False))"
| "printable (Bdat n l) = (n \<le> usize_max)"
| "printable (Auth m i) =
     (m \<noteq> [] \<and> list_all (\<lambda>c. is_upper c \<or> is_digit c \<or> c = 45 \<or> c = 95) m
      \<and> pred_option (\<lambda>x. word_ok x \<and> x \<noteq> lit ''='') i)"
| "printable _ = True"

subsection \<open>Words\<close>

lemma word_ok_ws: "word_ok w \<Longrightarrow> c \<in> set w \<Longrightarrow> \<not> is_ascii_whitespace c \<and> \<not> is_whitespace c"
  using ascii_whitespace unfolding word_ok_def by blast

lemma split_words:
  "\<forall>w\<in>set ws. w \<noteq> [] \<and> word_ok w \<Longrightarrow> split_ascii_whitespace (join_with [32] ws) = ws"
proof (induction ws)
  case (Cons w ws)
  have w: "split_by is_ascii_whitespace w = [w]"
    using Cons.prems word_ok_ws by (intro split_by_none) auto
  show ?case
  proof (cases ws)
    case Nil
    with w Cons.prems show ?thesis by (simp add: split_ascii_whitespace_def)
  next
    case (Cons v vs)
    then show ?thesis
      using Cons.IH Cons.prems w
        split_by_append [of is_ascii_whitespace 32 w "join_with [32] ws"]
      by (simp add: split_ascii_whitespace_def is_ascii_whitespace_def)
  qed
qed (simp add: split_ascii_whitespace_def)

lemma join_ends:
  "ws \<noteq> [] \<Longrightarrow> \<forall>w\<in>set ws. w \<noteq> [] \<Longrightarrow>
     join_with sep ws \<noteq> [] \<and> hd (join_with sep ws) = hd (hd ws)
     \<and> last (join_with sep ws) = last (last ws)"
proof (induction ws)
  case (Cons w ws)
  then show ?case by (cases ws) auto
qed simp

lemma trim_words:
  assumes "\<forall>w\<in>set ws. w \<noteq> [] \<and> word_ok w"
  shows "trim (join_with [32] ws) = join_with [32] ws"
proof (cases ws)
  case (Cons w vs)
  then have "hd (join_with [32] ws) \<in> set w" "last (join_with [32] ws) \<in> set (last ws)"
    "last ws \<in> set ws"
    using join_ends [of ws "[32]"] assms by auto
  then show ?thesis
    using assms Cons word_ok_ws by (intro trim_id) auto
qed (simp add: trim_def)

lemma trim_space: "trim (32 # s) = trim s"
  by (simp add: trim_def trim_start_def is_whitespace_def)

lemma concat_join: "ws \<noteq> [] \<Longrightarrow> concat (map (\<lambda>w. 32 # w) ws) = 32 # join_with [32 :: nat] ws"
proof (induction ws)
  case (Cons w ws)
  then show ?case by (cases "ws = []") (simp_all add: join_with_Cons)
qed simp

lemma trim_params:
  assumes "\<forall>p\<in>set ps. show_param p \<noteq> [] \<and> word_ok (show_param p)"
  shows "split_ascii_whitespace (trim (show_params ps)) = map show_param ps"
proof -
  have ok: "\<forall>w\<in>set (map show_param ps). w \<noteq> [] \<and> word_ok w" using assms by auto
  have "trim (show_params ps) = join_with [32] (map show_param ps)"
  proof (cases "ps = []")
    case False
    then have "show_params ps = 32 # join_with [32] (map show_param ps)"
      using concat_join [of "map show_param ps"] by (simp add: show_params_def comp_def)
    then show ?thesis using trim_words [OF ok] trim_space by simp
  qed (simp add: show_params_def trim_def)
  then show ?thesis using split_words [OF ok] by simp
qed

definition pair_ok :: "rstr \<times> rstr option \<Rightarrow> bool" where
  "pair_ok p \<longleftrightarrow> fst p \<noteq> [] \<and> list_all (\<lambda>c. is_alnum c \<or> c = 45) (fst p) \<and> pred_option word_ok (snd p)"

lemma pair_ok_show: "pair_ok p \<Longrightarrow> show_param p \<noteq> [] \<and> word_ok (show_param p)"
  by (cases p) (auto simp: pair_ok_def show_param_def word_ok_def list_all_iff char_defs
      split: option.splits)

lemma split_parameters_list_show:
  "\<forall>p\<in>set ps. pair_ok p \<Longrightarrow> split_parameters_list (map show_param ps) = Inr ps"
proof (induction ps)
  case (Cons p ps)
  have kw: "61 \<notin> set (fst p)" "fst p \<noteq> []" "list_all (\<lambda>c. is_alnum c \<or> c = 45) (fst p)"
    using Cons.prems by (auto simp: pair_ok_def list_all_iff char_defs)
  then have eq: "(case split_once 61 (show_param p) of Some (k, v) \<Rightarrow> (k, Some v)
      | None \<Rightarrow> (show_param p, None)) = (fst p, snd p)"
    by (cases "snd p") (auto simp: show_param_def split_once_append split_once_None [THEN iffD2])
  show ?case
    unfolding list.map split_parameters_list.simps eq using Cons kw by (cases p) simp
qed simp

lemma split_parameters_show:
  "\<forall>p\<in>set ps. pair_ok p \<Longrightarrow> split_parameters (trim (show_params ps)) = Inr ps"
  using trim_params split_parameters_list_show pair_ok_show by (simp add: split_parameters_def)

subsection \<open>Reading back what was printed\<close>

lemma parse_path_arg_show:
  assumes pre: "list_all is_ascii pre" and path: "path_ok path"
    and rest: "rest = [] \<or> hd rest = 32"
  shows "parse_path_arg (pre @ 60 # path @ 62 # rest) pre = Inr (path, trim rest)"
proof -
  have "split_at_octet (slen pre) (pre @ 60 # path @ 62 # rest) = Some (pre, 60 # path @ 62 # rest)"
    by (simp add: split_at_octet_Some)
  moreover have "trim_start (60 # path @ 62 # rest) = 60 # path @ 62 # rest"
    by (simp add: trim_start_def is_whitespace_def)
  moreover have "split_once 62 (path @ 62 # rest) = Some (path, rest)"
    using path by (simp add: path_ok_def split_once_append)
  moreover have "rest = [] \<or> starts_with [32] rest"
    using rest by (cases rest) (auto simp: starts_with_iff)
  ultimately show ?thesis
    using path by (auto simp: parse_path_arg_def eq_ignore_case_def path_ok_def)
qed

lemma show_params_head: "show_params ps = [] \<or> hd (show_params ps) = 32"
  by (cases ps) (simp_all add: show_params_def)

lemma show_nat_word: "word_ok (show_nat n)"
  using show_nat_digits [of n] by (auto simp: word_ok_def list_all_iff char_defs)

lemma lit_word [simp]:
  "word_ok (lit ''7BIT'')" "word_ok (lit ''8BITMIME'')" "word_ok (lit ''FULL'')"
  "word_ok (lit ''HDRS'')" "word_ok (lit ''NEVER'')" "word_ok (lit ''SUCCESS'')"
  "word_ok (lit ''FAILURE'')" "word_ok (lit ''DELAY'')" "word_ok (lit ''='')"
  by (simp_all add: word_ok_def char_defs)

lemma lit_nonempty: "lit ''='' \<noteq> []"
  by (simp add: lit_def)

lemma keyword_ok [simp]:
  "pair_ok (lit ''SIZE'', v) = pred_option word_ok v" "pair_ok (lit ''BODY'', v) = pred_option word_ok v"
  "pair_ok (lit ''REQUIRETLS'', v) = pred_option word_ok v" "pair_ok (lit ''RET'', v) = pred_option word_ok v"
  "pair_ok (lit ''ENVID'', v) = pred_option word_ok v" "pair_ok (lit ''NOTIFY'', v) = pred_option word_ok v"
  "pair_ok (lit ''ORCPT'', v) = pred_option word_ok v"
  by (simp_all add: pair_ok_def char_defs)

lemma mail_pairs_ok:
  "pred_option word_ok e \<Longrightarrow> \<forall>p\<in>set (mail_pairs s b t r e). pair_ok p"
  by (cases b; cases r)
    (auto simp: mail_pairs_def show_nat_word split: option.splits body_kind.splits ret_kind.splits)

lemma mail_steps [simp]:
  "mail_param_step (lit ''SIZE'') v out = (case v of None \<Rightarrow> Inl InvalidArguments
     | Some v \<Rightarrow> (case parse_uint u64_max v of None \<Rightarrow> Inl InvalidArguments
       | Some n \<Rightarrow> if mp_size out \<noteq> None then Inl InvalidArguments else Inr (out\<lparr>mp_size := Some n\<rparr>)))"
  "mail_param_step (lit ''BODY'') (Some (lit ''7BIT'')) out =
     (if mp_body out \<noteq> None then Inl InvalidArguments else Inr (out\<lparr>mp_body := Some SevenBit\<rparr>))"
  "mail_param_step (lit ''BODY'') (Some (lit ''8BITMIME'')) out =
     (if mp_body out \<noteq> None then Inl InvalidArguments else Inr (out\<lparr>mp_body := Some EightBitMime\<rparr>))"
  "mail_param_step (lit ''REQUIRETLS'') None out =
     (if mp_require_tls out then Inl InvalidArguments else Inr (out\<lparr>mp_require_tls := True\<rparr>))"
  "mail_param_step (lit ''RET'') (Some (lit ''FULL'')) out =
     (if mp_ret out \<noteq> None then Inl InvalidArguments else Inr (out\<lparr>mp_ret := Some RetFull\<rparr>))"
  "mail_param_step (lit ''RET'') (Some (lit ''HDRS'')) out =
     (if mp_ret out \<noteq> None then Inl InvalidArguments else Inr (out\<lparr>mp_ret := Some RetHeaders\<rparr>))"
  "mail_param_step (lit ''ENVID'') (Some x) out =
     (if mp_envid out \<noteq> None then Inl InvalidArguments else Inr (out\<lparr>mp_envid := Some x\<rparr>))"
  by (simp_all add: mail_param_step_def lit_def ascii_upper_def to_upper_def is_lower_def)

lemma mail_params_loop_append:
  "mail_params_loop (ps @ qs) out = (case mail_params_loop ps out of
     Inl e \<Rightarrow> Inl e | Inr out' \<Rightarrow> mail_params_loop qs out')"
  by (induction ps out rule: mail_params_loop.induct) (auto split: sum.splits)

lemma mail_params_loop_show:
  "pred_option (\<lambda>n. n \<le> u64_max) s \<Longrightarrow>
     mail_params_loop (mail_pairs s b t r e) mail_params_default
       = Inr \<lparr>mp_size = s, mp_body = b, mp_require_tls = t, mp_ret = r, mp_envid = e\<rparr>"
  by (cases s; cases b; cases r; cases e)
    (auto simp: mail_pairs_def mail_params_default_def parse_show_nat
      split: body_kind.splits ret_kind.splits)

lemma parse_mail_show:
  assumes "printable (MailFrom p s b t r e)"
  shows "parse_mail (lit ''FROM:<'' @ p @ 62 # show_params (mail_pairs s b t r e))
           = Inr (MailFrom p s b t r e)"
proof -
  have "parse_path_arg (lit ''FROM:'' @ 60 # p @ 62 # show_params (mail_pairs s b t r e)) (lit ''FROM:'')
      = Inr (p, trim (show_params (mail_pairs s b t r e)))"
    using assms show_params_head by (intro parse_path_arg_show) (simp_all add: char_defs)
  moreover have "split_parameters (trim (show_params (mail_pairs s b t r e)))
      = Inr (mail_pairs s b t r e)"
    using assms by (intro split_parameters_show mail_pairs_ok) simp
  ultimately show ?thesis
    using assms mail_params_loop_show [of s b t r e]
    by (simp add: parse_mail_def parse_mail_parameters_def lit_def)
qed

lemma show_notify_word: "word_ok (show_notify n)"
  by (cases n) (auto simp: show_notify_def word_ok_def char_defs)

lemma parse_notify_show:
  assumes "n \<noteq> NotifyOn False False False"
  shows "parse_notify (show_notify n) = Inr n"
proof -
  define ws where "ws = (case n of NotifyNever \<Rightarrow> [lit ''NEVER''] | NotifyOn su fa de \<Rightarrow>
      (if su then [lit ''SUCCESS''] else []) @ (if fa then [lit ''FAILURE''] else [])
      @ (if de then [lit ''DELAY''] else []))"
  have "show_notify n = join_with [44] ws"
    by (cases n) (simp_all add: show_notify_def ws_def)
  moreover have "ws \<noteq> []" "\<forall>w\<in>set ws. 44 \<notin> set w"
    using assms by (cases n; auto simp: ws_def lit_def)+
  ultimately have "split_on 44 (show_notify n) = ws"
    using split_join by simp
  then show ?thesis
    using assms
    by (cases n) (auto simp: parse_notify_def ws_def lit_def ascii_upper_def to_upper_def is_lower_def)
qed

lemma rcpt_pairs_ok:
  "pred_option word_ok orc \<Longrightarrow> \<forall>p\<in>set (rcpt_pairs n orc). pair_ok p"
  by (auto simp: rcpt_pairs_def show_notify_word split: option.splits)

lemma upper_lits [simp]:
  "ascii_upper (lit ''NOTIFY'') = lit ''NOTIFY''" "ascii_upper (lit ''ORCPT'') = lit ''ORCPT''"
  "lit ''ORCPT'' \<noteq> lit ''NOTIFY''"
  by (simp_all add: lit_def ascii_upper_def to_upper_def is_lower_def)

lemma parse_rcpt_show:
  assumes "printable (RcptTo p n orc)"
  shows "parse_rcpt (lit ''TO:<'' @ p @ 62 # show_params (rcpt_pairs n orc)) = Inr (RcptTo p n orc)"
proof -
  have "parse_path_arg (lit ''TO:'' @ 60 # p @ 62 # show_params (rcpt_pairs n orc)) (lit ''TO:'')
      = Inr (p, trim (show_params (rcpt_pairs n orc)))"
    using assms show_params_head by (intro parse_path_arg_show) (simp_all add: char_defs)
  moreover have "split_parameters (trim (show_params (rcpt_pairs n orc))) = Inr (rcpt_pairs n orc)"
    using assms by (intro split_parameters_show rcpt_pairs_ok) simp
  moreover have "rcpt_params_loop (rcpt_pairs n orc) (None, None) = Inr (n, orc)"
    using assms by (cases n; cases orc) (auto simp: rcpt_pairs_def parse_notify_show)
  moreover have "lit ''TO:<'' = lit ''TO:'' @ [60]" by (simp add: lit_def)
  ultimately show ?thesis
    by (simp add: parse_rcpt_def parse_rcpt_parameters_def)
qed

text \<open>Arguments that are words: nothing is lost by trimming, and they split back.\<close>

lemma trim_edges:
  "s \<noteq> [] \<Longrightarrow> \<not> is_whitespace (hd s) \<Longrightarrow> \<not> is_whitespace (last s) \<Longrightarrow> trim s = s"
  by (rule trim_id) simp

lemma trim_word: "word_ok s \<Longrightarrow> trim s = s"
  by (rule trim_id) (auto simp: word_ok_def)

lemma last_show_params:
  assumes "\<forall>p\<in>set ps. pair_ok p" "ps \<noteq> []"
  shows "\<not> is_whitespace (last (show_params ps))"
proof -
  have "last (show_params ps) = last (show_param (last ps))"
    using assms(2) pair_ok_show assms(1)
    by (cases ps rule: rev_cases) (auto simp: show_params_def)
  moreover have "pair_ok (last ps)" using assms by simp
  then have "show_param (last ps) \<noteq> [] \<and> word_ok (show_param (last ps))" by (rule pair_ok_show)
  then have "\<not> is_whitespace (last (show_param (last ps)))"
    using word_ok_ws last_in_set by blast
  ultimately show ?thesis by simp
qed

lemma trim_path:
  assumes "\<forall>p\<in>set ps. pair_ok p"
    and "pre \<noteq> []" "\<not> is_whitespace (hd pre)"
  shows "trim (pre @ path @ 62 # show_params ps) = pre @ path @ 62 # show_params ps"
proof (cases "ps = []")
  case True
  then show ?thesis
    using assms(2,3) by (intro trim_edges) (auto simp: show_params_def is_whitespace_def)
next
  case False
  then have "show_params ps \<noteq> []" by (cases ps) (auto simp: show_params_def)
  then show ?thesis
    using assms(2,3) last_show_params [OF assms(1) False] by (intro trim_edges) auto
qed

text \<open>Every printed command is one line of plain text.\<close>

lemma lit_plain: "list_all (\<lambda>c. 32 \<le> (of_char c :: nat) \<and> (of_char c :: nat) < 127) s \<Longrightarrow> plain_text (lit s)"
  by (auto simp: plain_text_def lit_def list_all_iff is_control_def)

lemma plain_text_Nil [simp]: "plain_text []"
  by (simp add: plain_text_def)

lemma plain_text_append [simp]: "plain_text (a @ b) \<longleftrightarrow> plain_text a \<and> plain_text b"
  by (auto simp: plain_text_def)

lemma plain_text_Cons [simp]: "plain_text (c # s) \<longleftrightarrow> \<not> is_control c \<and> plain_text s"
  by (auto simp: plain_text_def)

lemma word_plain: "word_ok w \<Longrightarrow> plain_text w"
  by (auto simp: word_ok_def plain_text_def)

lemma show_params_plain: "\<forall>p\<in>set ps. pair_ok p \<Longrightarrow> plain_text (show_params ps)"
proof (induction ps)
  case (Cons p ps)
  then have "plain_text (show_param p)" using pair_ok_show word_plain by simp
  with Cons show ?case by (simp add: show_params_def is_control_def)
qed (simp add: show_params_def)

lemma auth_words:
  assumes "printable (Auth m i)"
  shows "word_ok m" "m \<noteq> []" "ascii_upper m = m" "list_all (\<lambda>c. is_alnum c \<or> c = 45 \<or> c = 95) m"
proof -
  have m: "\<forall>c\<in>set m. is_upper c \<or> is_digit c \<or> c = 45 \<or> c = 95" and ne: "m \<noteq> []"
    using assms by (auto simp: list_all_iff)
  show "m \<noteq> []" by (rule ne)
  show "word_ok m" using m by (auto simp: word_ok_def char_defs)
  show "ascii_upper m = m" unfolding ascii_upper_def
    using m by (intro map_idI) (auto simp: char_defs)
  show "list_all (\<lambda>c. is_alnum c \<or> c = 45 \<or> c = 95) m"
    using m by (auto simp: list_all_iff is_alnum_def)
qed

lemma show_command_plain: "printable c \<Longrightarrow> plain_text (show_command c)"
proof (cases c)
  case (MailFrom p s b t r e)
  assume "printable c"
  with MailFrom show ?thesis
    using show_params_plain [OF mail_pairs_ok [of e s b t r]]
    by (simp add: lit_def path_ok_def is_control_def)
next
  case (RcptTo p n orc)
  assume "printable c"
  with RcptTo show ?thesis
    using show_params_plain [OF rcpt_pairs_ok [of orc n]]
    by (simp add: lit_def path_ok_def is_control_def)
next
  case (Auth m i)
  assume "printable c"
  with Auth show ?thesis
    using word_plain auth_words(1) [of m i] by (auto simp: lit_def is_control_def split: option.splits)
qed (use word_plain show_nat_word in \<open>auto simp: lit_def is_control_def plain_text_def word_ok_def\<close>)

lemma parse_command_words:
  assumes "slen (verb @ 32 # args) \<le> MAX_COMMAND_LINE" "plain_text (verb @ 32 # args)"
    "32 \<notin> set verb" "trim args = args" "ascii_upper verb = verb"
  shows "parse_command (verb @ 32 # args) =
    (if verb = lit ''HELO'' then
       (case parse_domain_arg args of Inl e \<Rightarrow> Inl e | Inr d \<Rightarrow> Inr (Helo d))
     else if verb = lit ''EHLO'' then
       (case parse_domain_arg args of Inl e \<Rightarrow> Inl e | Inr d \<Rightarrow> Inr (Ehlo d))
     else if verb = lit ''MAIL'' then parse_mail args
     else if verb = lit ''RCPT'' then parse_rcpt args
     else if verb = lit ''DATA'' then parse_no_args args Data
     else if verb = lit ''BDAT'' then parse_bdat args
     else if verb = lit ''RSET'' then parse_no_args args Rset
     else if verb = lit ''NOOP'' then Inr Noop
     else if verb = lit ''QUIT'' then parse_no_args args Quit
     else if verb = lit ''VRFY'' then Inr Vrfy
     else if verb = lit ''STARTTLS'' then parse_no_args args StartTls
     else if verb = lit ''AUTH'' then parse_auth args
     else Inl UnknownCommand)"
proof -
  have "\<not> list_ex is_control (verb @ 32 # args)"
    using assms(2) by (auto simp: plain_text_def list_ex_iff)
  moreover have "split_once 32 (verb @ 32 # args) = Some (verb, args)"
    using assms(3) by (rule split_once_append)
  ultimately show ?thesis
    using assms(1,4,5) by (simp add: parse_command_def)
qed

lemma verb_lits [simp]:
  "ascii_upper (lit ''HELO'') = lit ''HELO''" "ascii_upper (lit ''EHLO'') = lit ''EHLO''"
  "ascii_upper (lit ''MAIL'') = lit ''MAIL''" "ascii_upper (lit ''RCPT'') = lit ''RCPT''"
  "ascii_upper (lit ''BDAT'') = lit ''BDAT''" "ascii_upper (lit ''AUTH'') = lit ''AUTH''"
  "32 \<notin> set (lit ''HELO'')" "32 \<notin> set (lit ''EHLO'')" "32 \<notin> set (lit ''MAIL'')"
  "32 \<notin> set (lit ''RCPT'')" "32 \<notin> set (lit ''BDAT'')" "32 \<notin> set (lit ''AUTH'')"
  "lit ''EHLO'' \<noteq> lit ''HELO''" "lit ''MAIL'' \<noteq> lit ''HELO''" "lit ''MAIL'' \<noteq> lit ''EHLO''"
  "lit ''RCPT'' \<noteq> lit ''HELO''" "lit ''RCPT'' \<noteq> lit ''EHLO''" "lit ''RCPT'' \<noteq> lit ''MAIL''"
  "lit ''BDAT'' \<noteq> lit ''HELO''" "lit ''BDAT'' \<noteq> lit ''EHLO''"
  "lit ''BDAT'' \<noteq> lit ''MAIL''" "lit ''BDAT'' \<noteq> lit ''RCPT''"
  "lit ''BDAT'' \<noteq> lit ''DATA''" "lit ''AUTH'' \<noteq> lit ''HELO''"
  "lit ''AUTH'' \<noteq> lit ''EHLO''" "lit ''AUTH'' \<noteq> lit ''MAIL''"
  "lit ''AUTH'' \<noteq> lit ''RCPT''" "lit ''AUTH'' \<noteq> lit ''DATA''"
  "lit ''AUTH'' \<noteq> lit ''BDAT''" "lit ''AUTH'' \<noteq> lit ''RSET''"
  "lit ''AUTH'' \<noteq> lit ''NOOP''" "lit ''AUTH'' \<noteq> lit ''QUIT''"
  "lit ''AUTH'' \<noteq> lit ''VRFY''" "lit ''AUTH'' \<noteq> lit ''STARTTLS''"
  by (simp_all add: lit_def ascii_upper_def to_upper_def is_lower_def)

lemma parse_bdat_show:
  assumes "n \<le> usize_max"
  shows "parse_bdat (show_nat n @ (if l then lit '' LAST'' else [])) = Inr (Bdat n l)"
    "trim (show_nat n @ (if l then lit '' LAST'' else []))
       = show_nat n @ (if l then lit '' LAST'' else [])"
proof -
  define ws where "ws = show_nat n # (if l then [lit ''LAST''] else [])"
  have ws: "\<forall>w\<in>set ws. w \<noteq> [] \<and> word_ok w"
    using show_nat_word by (simp add: ws_def word_ok_def char_defs)
  have eq: "show_nat n @ (if l then lit '' LAST'' else []) = join_with [32] ws"
    by (simp add: ws_def lit_def)
  show "trim (show_nat n @ (if l then lit '' LAST'' else []))
      = show_nat n @ (if l then lit '' LAST'' else [])"
    unfolding eq by (rule trim_words [OF ws])
  show "parse_bdat (show_nat n @ (if l then lit '' LAST'' else [])) = Inr (Bdat n l)"
    unfolding eq parse_bdat_def split_words [OF ws]
    using assms by (simp add: ws_def parse_show_nat eq_ignore_case_def)
qed

lemma parse_auth_show:
  assumes ok: "printable (Auth m i)"
  defines "args \<equiv> m @ (case i of None \<Rightarrow> [] | Some x \<Rightarrow> 32 # (if x = [] then lit ''='' else x))"
  shows "parse_auth args = Inr (Auth m i)" "trim args = args"
proof -
  note m = auth_words [OF ok]
  define ws where "ws = m # (case i of None \<Rightarrow> [] | Some x \<Rightarrow> [if x = [] then lit ''='' else x])"
  have ws: "\<forall>w\<in>set ws. w \<noteq> [] \<and> word_ok w"
    using m(1,2) ok by (auto simp: ws_def lit_nonempty split: option.splits)
  have eq: "args = join_with [32] ws"
    by (simp add: args_def ws_def split: option.splits)
  show "trim args = args" unfolding eq by (rule trim_words [OF ws])
  show "parse_auth args = Inr (Auth m i)"
    unfolding eq parse_auth_def split_words [OF ws]
    using m(3,4) ok by (auto simp: ws_def split: option.splits)
qed

subsection \<open>Properties\<close>

text \<open>C17: Every printed command is read back as the same command: for each command whose fields the
  grammar can carry (any mix of SIZE, BODY, REQUIRETLS, RET, ENVID, NOTIFY and ORCPT included) and
  whose line fits the length limit, parsing the printed line returns it.\<close>

theorem command_print_parse:
  assumes "printable c" and "slen (show_command c) \<le> MAX_COMMAND_LINE"
  shows "parse_command (show_command c) = Inr c"
proof -
  note plain = show_command_plain [OF assms(1)]
  show ?thesis
  proof (cases c)
    case (Helo d)
    then show ?thesis
      using assms plain parse_command_words [of "lit ''HELO''" d] trim_word
      by (auto simp: parse_domain_arg_def word_ok_def is_whitespace_def)
  next
    case (Ehlo d)
    then show ?thesis
      using assms plain parse_command_words [of "lit ''EHLO''" d] trim_word
      by (auto simp: parse_domain_arg_def word_ok_def is_whitespace_def)
  next
    case (MailFrom p s b t r e)
    have "trim (lit ''FROM:<'' @ p @ 62 # show_params (mail_pairs s b t r e))
        = lit ''FROM:<'' @ p @ 62 # show_params (mail_pairs s b t r e)"
      by (rule trim_path [OF mail_pairs_ok]) (use assms MailFrom in \<open>auto simp: char_defs\<close>)
    then show ?thesis
      using assms plain MailFrom parse_mail_show
        parse_command_words [of "lit ''MAIL''"
          "lit ''FROM:<'' @ p @ 62 # show_params (mail_pairs s b t r e)"]
      by simp
  next
    case (RcptTo p n orc)
    have "trim (lit ''TO:<'' @ p @ 62 # show_params (rcpt_pairs n orc))
        = lit ''TO:<'' @ p @ 62 # show_params (rcpt_pairs n orc)"
      by (rule trim_path [OF rcpt_pairs_ok]) (use assms RcptTo in \<open>auto simp: char_defs\<close>)
    then show ?thesis
      using assms plain RcptTo parse_rcpt_show
        parse_command_words [of "lit ''RCPT''" "lit ''TO:<'' @ p @ 62 # show_params (rcpt_pairs n orc)"]
      by simp
  next
    case (Bdat n l)
    then show ?thesis
      using assms plain parse_bdat_show [of n l]
        parse_command_words [of "lit ''BDAT''" "show_nat n @ (if l then lit '' LAST'' else [])"]
      by simp
  next
    case (Auth m i)
    then show ?thesis
      using assms plain parse_auth_show [of m i]
        parse_command_words [of "lit ''AUTH''"
          "m @ (case i of None \<Rightarrow> [] | Some x \<Rightarrow> 32 # (if x = [] then lit ''='' else x))"]
      by simp
  qed (simp_all add: parse_command_def parse_no_args_def MAX_COMMAND_LINE_def str_simps)
qed

theorem command_print_parse_witness:
  "parse_command (show_command (MailFrom (lit ''a@b.cc'') (Some 12) (Some EightBitMime) True None
     (Some (lit ''x1'')))) = Inr (MailFrom (lit ''a@b.cc'') (Some 12) (Some EightBitMime) True None
     (Some (lit ''x1'')))"
  by (rule command_print_parse)
    (simp_all add: path_ok_def plain_text_def word_ok_def str_simps u64_max_def mail_pairs_def
      show_params_def show_param_def show_nat.simps MAX_COMMAND_LINE_def)

end
