(* ===== verification/Utf8.thy ===== *)
theory Utf8
  imports Prelude "HOL-Library.Word"
begin

section \<open>UTF-8\<close>

text \<open>
  What the sources use of the standard library's UTF-8: \<^verbatim>\<open>as_bytes\<close> (\<open>utf8_encode\<close>), \<^verbatim>\<open>String::from_utf8\<close>
  (\<open>from_utf8\<close>) and \<^verbatim>\<open>String::from_utf8_lossy\<close> (\<open>from_utf8_lossy\<close>), which replaces each maximal
  ill-formed part by U+FFFD. Decoding an encoded string gives it back.
\<close>

definition oct :: "nat \<Rightarrow> 8 word" where
  "oct n = word_of_nat n"

definition is_scalar :: "rchar \<Rightarrow> bool" where
  "is_scalar c \<longleftrightarrow> c < 55296 \<or> 57344 \<le> c \<and> c < 1114112"

definition encode_char :: "rchar \<Rightarrow> nat list" where
  "encode_char c =
     (if c < 128 then [c]
      else if c < 2048 then [192 + c div 64, 128 + c mod 64]
      else if c < 65536 then [224 + c div 4096, 128 + c div 64 mod 64, 128 + c mod 64]
      else [240 + c div 262144, 128 + c div 4096 mod 64, 128 + c div 64 mod 64, 128 + c mod 64])"

definition utf8_encode :: "rstr \<Rightarrow> octets" where
  "utf8_encode s = map oct (concat (map encode_char s))"

definition is_cont :: "nat \<Rightarrow> bool" where
  "is_cont b \<longleftrightarrow> 128 \<le> b \<and> b < 192"

definition second3 :: "nat \<Rightarrow> nat \<Rightarrow> bool" where
  "second3 b0 b1 \<longleftrightarrow> is_cont b1 \<and> (b0 = 224 \<longrightarrow> 160 \<le> b1) \<and> (b0 = 237 \<longrightarrow> b1 < 160)"

definition second4 :: "nat \<Rightarrow> nat \<Rightarrow> bool" where
  "second4 b0 b1 \<longleftrightarrow> is_cont b1 \<and> (b0 = 240 \<longrightarrow> 144 \<le> b1) \<and> (b0 = 244 \<longrightarrow> b1 < 144)"

text \<open>One character off the front, or the end of the ill-formed part there.\<close>

fun utf8_next :: "nat \<Rightarrow> nat list \<Rightarrow> rchar option \<times> nat list" where
  "utf8_next b0 rest =
     (if b0 < 128 then (Some b0, rest)
      else if 194 \<le> b0 \<and> b0 < 224 then
        (case rest of
           b1 # r1 \<Rightarrow> if is_cont b1 then (Some ((b0 - 192) * 64 + (b1 - 128)), r1) else (None, rest)
         | [] \<Rightarrow> (None, []))
      else if 224 \<le> b0 \<and> b0 < 240 then
        (case rest of
           b1 # r1 \<Rightarrow>
             if \<not> second3 b0 b1 then (None, rest)
             else (case r1 of
                 b2 # r2 \<Rightarrow>
                   if is_cont b2 then (Some ((b0 - 224) * 4096 + (b1 - 128) * 64 + (b2 - 128)), r2)
                   else (None, r1)
               | [] \<Rightarrow> (None, []))
         | [] \<Rightarrow> (None, []))
      else if 240 \<le> b0 \<and> b0 < 245 then
        (case rest of
           b1 # r1 \<Rightarrow>
             if \<not> second4 b0 b1 then (None, rest)
             else (case r1 of
                 b2 # r2 \<Rightarrow>
                   if \<not> is_cont b2 then (None, r1)
                   else (case r2 of
                       b3 # r3 \<Rightarrow>
                         if is_cont b3
                         then (Some ((b0 - 240) * 262144 + (b1 - 128) * 4096 + (b2 - 128) * 64
                                     + (b3 - 128)), r3)
                         else (None, r2)
                     | [] \<Rightarrow> (None, []))
               | [] \<Rightarrow> (None, []))
         | [] \<Rightarrow> (None, []))
      else (None, rest))"

declare utf8_next.simps [simp del]

lemma utf8_next_shorter: "utf8_next b rest = (c, r) \<Longrightarrow> length r \<le> length rest"
  unfolding utf8_next.simps by (auto split: if_splits list.splits)

function utf8_chunks :: "nat list \<Rightarrow> rchar option list" where
  "utf8_chunks [] = []"
| "utf8_chunks (b # rest) = (case utf8_next b rest of (c, r) \<Rightarrow> c # utf8_chunks r)"
  by pat_completeness auto
termination
proof (relation "measure length")
  show "((r, b # rest) \<in> measure length)" if "(c, r) = utf8_next b rest" for b rest c r
    using utf8_next_shorter [OF that [symmetric]] by simp
qed simp

definition from_utf8 :: "octets \<Rightarrow> rstr option" where
  "from_utf8 bs =
     (let cs = utf8_chunks (map unat bs)
      in if None \<in> set cs then None else Some (map the cs))"

definition from_utf8_lossy :: "octets \<Rightarrow> rstr" where
  "from_utf8_lossy bs = map (case_option 65533 id) (utf8_chunks (map unat bs))"

lemmas utf8_eval = from_utf8_def from_utf8_lossy_def utf8_chunks.simps utf8_next.simps second3_def
  second4_def is_cont_def

lemma unat_oct: "n < 256 \<Longrightarrow> unat (oct n) = n"
  by (simp add: oct_def unat_of_nat)

lemma encode_char_octets: "is_scalar c \<Longrightarrow> b \<in> set (encode_char c) \<Longrightarrow> b < 256"
  by (auto simp: encode_char_def is_scalar_def split: if_splits)

lemma encode_char_cases:
  assumes "is_scalar c"
  obtains (one) "c < 128" "encode_char c = [c]"
  | (two) "128 \<le> c" "c < 2048" "encode_char c = [192 + c div 64, 128 + c mod 64]"
  | (three) "2048 \<le> c" "c < 65536"
      "encode_char c = [224 + c div 4096, 128 + c div 64 mod 64, 128 + c mod 64]"
  | (four) "65536 \<le> c" "c < 1114112"
      "encode_char c = [240 + c div 262144, 128 + c div 4096 mod 64, 128 + c div 64 mod 64, 128 + c mod 64]"
  using assms unfolding encode_char_def is_scalar_def by force

lemma digits64:
  fixes c :: nat
  defines "x \<equiv> c div 64" and "y \<equiv> c div 64 div 64"
  shows "c div 4096 = y" "c div 262144 = y div 64" "c = x * 64 + c mod 64" "x = y * 64 + x mod 64"
    "y = y div 64 * 64 + y mod 64"
  by (simp_all add: assms div_mult2_eq [of c 64 64, simplified]
      div_mult2_eq [of c 4096 64, simplified])

lemma utf8_next_encode:
  assumes "is_scalar c"
  shows "\<exists>b bs. encode_char c = b # bs \<and> utf8_next b (bs @ rest) = (Some c, rest)"
  using assms
proof (cases rule: encode_char_cases)
  case one
  then show ?thesis by (simp add: utf8_next.simps)
next
  case two
  moreover have "2 \<le> c div 64" "c div 64 < 32" "c div 64 * 64 + c mod 64 = c"
    using two by (simp_all add: div_mult_mod_eq less_eq_div_iff_mult_less_eq div_less_iff_less_mult)
  ultimately show ?thesis by (simp add: utf8_next.simps is_cont_def)
next
  case three
  define x y r where "x = c div 64 mod 64" and "y = c div 64 div 64" and "r = c mod 64"
  have bounds: "x < 64" "r < 64"
    by (simp_all add: x_def r_def)
  have c: "c = y * 4096 + x * 64 + r"
    using digits64(3,4) [of c] unfolding x_def y_def r_def by linarith
  have y: "y < 16"
    using three(2) c by linarith
  have y0: "32 \<le> x" if "y = 0"
    using three(1) that bounds c by linarith
  have s: "x < 32" if "y = 13"
    using assms that bounds c unfolding is_scalar_def by (elim disjE conjE) linarith+
  have "encode_char c = [224 + y, 128 + x, 128 + r]"
    using three(3) digits64(1) [of c] by (simp add: x_def y_def r_def)
  moreover have "second3 (224 + y) (128 + x)"
    using y y0 s bounds by (auto simp: second3_def is_cont_def)
  moreover have "y * 4096 + x * 64 + r = c"
    using c by linarith
  ultimately show ?thesis using y bounds by (simp add: utf8_next.simps is_cont_def)
next
  case four
  define x y z r where "x = c div 64 mod 64" and "y = c div 64 div 64 mod 64"
    and "z = c div 64 div 64 div 64" and "r = c mod 64"
  have bounds: "x < 64" "y < 64" "r < 64"
    by (simp_all add: x_def y_def r_def)
  have c: "c = z * 262144 + y * 4096 + x * 64 + r"
    using digits64(3,4,5) [of c] unfolding x_def y_def z_def r_def by linarith
  have z: "z < 5"
    using four(2) c by linarith
  have z0: "16 \<le> y" if "z = 0"
    using four(1) that bounds c by linarith
  have z4: "y < 16" if "z = 4"
    using four(2) that bounds c by linarith
  have "encode_char c = [240 + z, 128 + y, 128 + x, 128 + r]"
    using four(3) digits64(1,2) [of c] by (simp add: x_def y_def z_def r_def)
  moreover have "second4 (240 + z) (128 + y)"
    using z z0 z4 bounds by (auto simp: second4_def is_cont_def)
  moreover have "z * 262144 + y * 4096 + x * 64 + r = c"
    using c by linarith
  ultimately show ?thesis using z bounds by (simp add: utf8_next.simps is_cont_def)
qed

lemma utf8_chunks_encode:
  "list_all is_scalar s \<Longrightarrow> utf8_chunks (concat (map encode_char s)) = map Some s"
proof (induction s)
  case (Cons c s)
  obtain b bs where "encode_char c = b # bs"
    "utf8_next b (bs @ concat (map encode_char s)) = (Some c, concat (map encode_char s))"
    using utf8_next_encode [of c "concat (map encode_char s)"] Cons.prems by auto
  then show ?case using Cons by simp
qed simp

lemma map_unat_encode:
  assumes "list_all is_scalar s"
  shows "map unat (utf8_encode s) = concat (map encode_char s)"
proof -
  have "unat (oct b) = b" if b: "b \<in> set (concat (map encode_char s))" for b
  proof -
    obtain c where "c \<in> set s" "b \<in> set (encode_char c)"
      using b by auto
    then show ?thesis
      using assms encode_char_octets unat_oct by (metis list_all_iff)
  qed
  then have "map (unat \<circ> oct) (concat (map encode_char s)) = concat (map encode_char s)"
    by (intro map_idI) simp
  then show ?thesis unfolding utf8_encode_def by (simp only: map_map)
qed

lemma from_utf8_encode: "list_all is_scalar s \<Longrightarrow> from_utf8 (utf8_encode s) = Some s"
  unfolding from_utf8_def by (simp add: map_unat_encode utf8_chunks_encode comp_def)

lemma from_utf8_lossy_encode: "list_all is_scalar s \<Longrightarrow> from_utf8_lossy (utf8_encode s) = s"
  unfolding from_utf8_lossy_def by (simp add: map_unat_encode utf8_chunks_encode comp_def)

lemma utf8_encode_append [simp]: "utf8_encode (a @ b) = utf8_encode a @ utf8_encode b"
  by (simp add: utf8_encode_def)

lemma utf8_encode_Nil [simp]: "utf8_encode [] = []"
  by (simp add: utf8_encode_def)

lemma ascii_scalar: "is_ascii c \<Longrightarrow> is_scalar c"
  by (simp add: is_ascii_def is_scalar_def)

lemma from_utf8_Some:
  "from_utf8 bs = Some s \<Longrightarrow> from_utf8_lossy bs = s"
  by (auto simp: from_utf8_def from_utf8_lossy_def Let_def split: if_splits option.splits)

end
