(* ===== verification/Scram.thy ===== *)
theory Scram
  imports Utf8
begin

section \<open>The SCRAM-SHA-256 exchange\<close>

text \<open>
  \<^verbatim>\<open>src/src/smtp/scram/mod.rs\<close>: the credentials derived from a password, their stored form and the
  server side of the exchange (RFC 5802). The crates behind it are the record \<open>scram_ops\<close>: PBKDF2,
  HMAC-SHA-256, SHA-256 and Base64. Two facts are proved: a client that follows the protocol with the
  right password is accepted and can check the server's signature, and an accepted client-final
  carries the nonce of this exchange, the channel binding the policy asks for, and a proof whose
  client key hashes to the stored key.
\<close>

subsection \<open>The code\<close>

record scram_ops =
  so_pbkdf2 :: "nat \<Rightarrow> octets \<Rightarrow> octets \<Rightarrow> octets"
  so_hmac :: "octets \<Rightarrow> octets \<Rightarrow> octets"
  so_sha256 :: "octets \<Rightarrow> octets"
  so_encode :: "octets \<Rightarrow> rstr"
  so_decode :: "rstr \<Rightarrow> octets option"

definition SCRAM_ITERATIONS :: nat where
  "SCRAM_ITERATIONS = 600000"

record scram_credentials =
  sc_salt :: octets
  sc_iterations :: nat
  sc_stored_key :: octets
  sc_server_key :: octets

text \<open>\<^verbatim>\<open>NonZeroU32::new(iterations).unwrap_or(MIN)\<close> is \<open>max 1\<close>.\<close>

definition scram_derive :: "scram_ops \<Rightarrow> rstr \<Rightarrow> octets \<Rightarrow> nat \<Rightarrow> scram_credentials" where
  "scram_derive K password salt iterations =
     (let salted = so_pbkdf2 K (max 1 iterations) salt (utf8_encode password);
          client_key = so_hmac K salted (utf8_encode (lit ''Client Key''));
          server_key = so_hmac K salted (utf8_encode (lit ''Server Key''))
      in \<lparr>sc_salt = salt, sc_iterations = iterations, sc_stored_key = so_sha256 K client_key,
          sc_server_key = server_key\<rparr>)"

record scram_stored =
  ss_salt :: rstr
  ss_iterations :: nat
  ss_stored_key :: rstr
  ss_server_key :: rstr

definition from_credentials :: "scram_ops \<Rightarrow> scram_credentials \<Rightarrow> scram_stored" where
  "from_credentials K c =
     \<lparr>ss_salt = so_encode K (sc_salt c), ss_iterations = sc_iterations c,
      ss_stored_key = so_encode K (sc_stored_key c), ss_server_key = so_encode K (sc_server_key c)\<rparr>"

definition with_fresh_salt :: "scram_ops \<Rightarrow> octets option \<Rightarrow> rstr \<Rightarrow> scram_stored option" where
  "with_fresh_salt K random password =
     map_option (\<lambda>salt. from_credentials K (scram_derive K password salt SCRAM_ITERATIONS)) random"

definition key32 :: "octets \<Rightarrow> octets option" where
  "key32 bs = (if length bs = 32 then Some bs else None)"

definition to_credentials :: "scram_ops \<Rightarrow> scram_stored \<Rightarrow> scram_credentials option" where
  "to_credentials K s =
     (case Option.bind (so_decode K (ss_stored_key s)) key32 of
        None \<Rightarrow> None
      | Some stored_key \<Rightarrow>
     (case Option.bind (so_decode K (ss_server_key s)) key32 of
        None \<Rightarrow> None
      | Some server_key \<Rightarrow>
     (case so_decode K (ss_salt s) of
        None \<Rightarrow> None
      | Some salt \<Rightarrow>
          Some \<lparr>sc_salt = salt, sc_iterations = ss_iterations s, sc_stored_key = stored_key,
                sc_server_key = server_key\<rparr>)))"

datatype scram_error = ScramMalformed | AuthenticationFailed

datatype channel_binding = CbUnsupported | CbSupported | CbRequired octets

definition is_required :: "channel_binding \<Rightarrow> bool" where
  "is_required cb = (case cb of CbRequired _ \<Rightarrow> True | _ \<Rightarrow> False)"

record scram_server =
  sv_server_nonce :: rstr
  sv_client_first_bare :: "rstr option"
  sv_server_first :: "rstr option"
  sv_combined_nonce :: "rstr option"
  sv_channel_binding :: channel_binding
  sv_gs2_header :: "rstr option"

definition scram_new :: "rstr \<Rightarrow> scram_server" where
  "scram_new nonce =
     \<lparr>sv_server_nonce = nonce, sv_client_first_bare = None, sv_server_first = None,
      sv_combined_nonce = None, sv_channel_binding = CbUnsupported, sv_gs2_header = None\<rparr>"

definition with_channel_binding :: "channel_binding \<Rightarrow> scram_server \<Rightarrow> scram_server" where
  "with_channel_binding cb s = s\<lparr>sv_channel_binding := cb\<rparr>"

fun find_map :: "('a \<Rightarrow> 'b option) \<Rightarrow> 'a list \<Rightarrow> 'b option" where
  "find_map f [] = None"
| "find_map f (x # xs) = (case f x of Some y \<Rightarrow> Some y | None \<Rightarrow> find_map f xs)"

definition tag :: "rstr \<Rightarrow> rstr \<Rightarrow> rstr option" where
  "tag message key = find_map (strip_prefix key) (split_on 44 message)"

fun nth_comma_rest :: "rstr \<Rightarrow> nat \<Rightarrow> rstr option" where
  "nth_comma_rest text 0 = Some text"
| "nth_comma_rest text (Suc n) =
     (case split_once 44 text of None \<Rightarrow> None | Some (_, rest) \<Rightarrow> nth_comma_rest rest n)"

definition username_of :: "rstr \<Rightarrow> rstr option" where
  "username_of client_first =
     (case nth_comma_rest client_first 2 of
        None \<Rightarrow> None
      | Some bare \<Rightarrow> tag bare (lit ''n=''))"

definition scram_first :: "scram_ops \<Rightarrow> scram_server \<Rightarrow> rstr \<Rightarrow> scram_credentials
    \<Rightarrow> scram_server \<times> (scram_error, rstr \<times> rstr) result" where
  "scram_first K s client_first c =
     (case nth_comma_rest client_first 2 of
        None \<Rightarrow> (s, Inl ScramMalformed)
      | Some bare \<Rightarrow>
          let gs2_header = take (length client_first - length bare) client_first;
              flag = hd (split_on 44 client_first)
          in if sv_channel_binding s = CbSupported \<and> flag \<noteq> lit ''n''
                \<or> is_required (sv_channel_binding s) \<and> flag \<noteq> lit ''p=tls-server-end-point''
             then (s, Inl ScramMalformed)
             else case tag bare (lit ''n='') of
               None \<Rightarrow> (s, Inl ScramMalformed)
             | Some username \<Rightarrow>
                 (case tag bare (lit ''r='') of
                    None \<Rightarrow> (s, Inl ScramMalformed)
                  | Some client_nonce \<Rightarrow>
                      let combined_nonce = client_nonce @ sv_server_nonce s;
                          server_first = lit ''r='' @ combined_nonce @ lit '',s=''
                            @ so_encode K (sc_salt c) @ lit '',i='' @ show_nat (sc_iterations c)
                      in (s\<lparr>sv_client_first_bare := Some bare, sv_server_first := Some server_first,
                            sv_combined_nonce := Some combined_nonce,
                            sv_gs2_header := Some gs2_header\<rparr>,
                          Inr (username, server_first))))"

fun rsplit_once_str :: "'a list \<Rightarrow> 'a list \<Rightarrow> ('a list \<times> 'a list) option" where
  "rsplit_once_str p [] = (if p = [] then Some ([], []) else None)"
| "rsplit_once_str p (c # cs) =
     (case rsplit_once_str p cs of
        Some (a, b) \<Rightarrow> Some (c # a, b)
      | None \<Rightarrow> map_option (\<lambda>t. ([], t)) (strip_prefix p (c # cs)))"

definition xor_octets :: "octets \<Rightarrow> octets \<Rightarrow> octets" where
  "xor_octets a b = map2 (\<lambda>x y. Bit_Operations.xor x y) a b"

definition binding_ok :: "scram_ops \<Rightarrow> scram_server \<Rightarrow> rstr \<Rightarrow> bool" where
  "binding_ok K s client_final =
     (sv_channel_binding s = CbUnsupported \<or>
      (case (sv_gs2_header s, tag client_final (lit ''c='')) of
         (Some gs2_header, Some c) \<Rightarrow>
           so_decode K c = Some (utf8_encode gs2_header
             @ (case sv_channel_binding s of CbRequired data \<Rightarrow> data | _ \<Rightarrow> []))
       | _ \<Rightarrow> False))"

definition scram_finish :: "scram_ops \<Rightarrow> scram_server \<Rightarrow> rstr \<Rightarrow> scram_credentials
    \<Rightarrow> (scram_error, rstr) result" where
  "scram_finish K s client_final c =
     (case (sv_client_first_bare s, sv_server_first s, sv_combined_nonce s) of
        (Some client_first_bare, Some server_first, Some combined_nonce) \<Rightarrow>
          (if tag client_final (lit ''r='') \<noteq> Some combined_nonce then Inl ScramMalformed
           else if \<not> binding_ok K s client_final then Inl ScramMalformed
           else case Option.bind (tag client_final (lit ''p='')) (so_decode K) of
             None \<Rightarrow> Inl ScramMalformed
           | Some proof \<Rightarrow>
               if length proof \<noteq> 32 then Inl ScramMalformed
               else case rsplit_once_str (lit '',p='') client_final of
                 None \<Rightarrow> Inl ScramMalformed
               | Some (without_proof, _) \<Rightarrow>
                   let auth_message = client_first_bare @ lit '','' @ server_first @ lit '','' @ without_proof;
                       client_signature = so_hmac K (sc_stored_key c) (utf8_encode auth_message);
                       client_key = xor_octets proof client_signature
                   in if so_sha256 K client_key \<noteq> sc_stored_key c then Inl AuthenticationFailed
                      else Inr (lit ''v='' @ so_encode K (so_hmac K (sc_server_key c)
                                   (utf8_encode auth_message))))
      | _ \<Rightarrow> Inl ScramMalformed)"

subsection \<open>Messages made of comma-separated attributes\<close>

lemma strip_prefix_self [simp]: "strip_prefix p (p @ s) = Some s"
  by (simp add: strip_prefix_Some)

lemma find_map_Some: "find_map f xs = Some y \<Longrightarrow> \<exists>x\<in>set xs. f x = Some y"
  by (induction xs) (auto split: option.splits)

lemma tag_join:
  assumes "ws \<noteq> []" "\<forall>w\<in>set ws. 44 \<notin> set w"
  shows "tag (join_with [44] ws) k = find_map (strip_prefix k) ws"
  using split_join [of ws 44] assms by (simp add: tag_def)

lemma rsplit_once_str_absent: "x \<notin> set s \<Longrightarrow> rsplit_once_str (x # q) s = None"
  by (induction s) auto

lemma rsplit_once_str_last:
  assumes "x \<notin> set q" "x \<notin> set e"
  shows "rsplit_once_str (x # q) (a @ (x # q) @ e) = Some (a, e)"
  by (induction a) (use assms in \<open>simp_all add: rsplit_once_str_absent strip_prefix_Some\<close>)

lemma nth_comma_rest_2:
  assumes "44 \<notin> set a" "44 \<notin> set b"
  shows "nth_comma_rest (a @ 44 # b @ 44 # rest) 2 = Some rest"
  using assms by (simp add: numeral_2_eq_2 split_once_append)

lemma hd_split_on: "44 \<notin> set a \<Longrightarrow> hd (split_on 44 (a @ 44 # rest)) = a"
  by (subgoal_tac "split_by (\<lambda>x. x = 44) a = [a]")
     (auto simp: split_on_def split_by_append intro: split_by_none)

subsection \<open>A client that follows the protocol\<close>

text \<open>RFC 5802: the client reads salt, count and nonce off the server-first message.\<close>

record scram_client =
  cl_user :: rstr
  cl_password :: rstr
  cl_nonce :: rstr
  cl_flag :: rstr
  cl_binding :: octets

definition cl_gs2 :: "scram_client \<Rightarrow> rstr" where
  "cl_gs2 cl = cl_flag cl @ lit '',,''"

definition cl_bare :: "scram_client \<Rightarrow> rstr" where
  "cl_bare cl = lit ''n='' @ cl_user cl @ lit '',r='' @ cl_nonce cl"

definition cl_first :: "scram_client \<Rightarrow> rstr" where
  "cl_first cl = cl_gs2 cl @ cl_bare cl"

definition cl_without_proof :: "scram_ops \<Rightarrow> scram_client \<Rightarrow> rstr \<Rightarrow> rstr" where
  "cl_without_proof K cl nonce =
     lit ''c='' @ so_encode K (utf8_encode (cl_gs2 cl) @ cl_binding cl) @ lit '',r='' @ nonce"

definition cl_auth_message :: "scram_ops \<Rightarrow> scram_client \<Rightarrow> rstr \<Rightarrow> rstr \<Rightarrow> rstr" where
  "cl_auth_message K cl server_first nonce =
     cl_bare cl @ lit '','' @ server_first @ lit '','' @ cl_without_proof K cl nonce"

definition cl_final :: "scram_ops \<Rightarrow> scram_client \<Rightarrow> rstr \<Rightarrow> (rstr \<times> rstr) option" where
  "cl_final K cl server_first =
     (case (tag server_first (lit ''r=''), Option.bind (tag server_first (lit ''s='')) (so_decode K),
            Option.bind (tag server_first (lit ''i='')) (parse_uint u32_max)) of
        (Some nonce, Some salt, Some iterations) \<Rightarrow>
          let salted = so_pbkdf2 K iterations salt (utf8_encode (cl_password cl));
              client_key = so_hmac K salted (utf8_encode (lit ''Client Key''));
              server_key = so_hmac K salted (utf8_encode (lit ''Server Key''));
              message = utf8_encode (cl_auth_message K cl server_first nonce);
              proof = xor_octets client_key (so_hmac K (so_sha256 K client_key) message)
          in Some (cl_without_proof K cl nonce @ lit '',p='' @ so_encode K proof,
                   lit ''v='' @ so_encode K (so_hmac K server_key message))
      | _ \<Rightarrow> None)"

text \<open>What the exchange relies on of the crates: digests of 32 octets, and a Base64 that decodes what
  it encodes and whose alphabet has no comma.\<close>

definition scram_ops_ok :: "scram_ops \<Rightarrow> bool" where
  "scram_ops_ok K \<longleftrightarrow> (\<forall>k m. length (so_hmac K k m) = 32) \<and> (\<forall>m. length (so_sha256 K m) = 32)
     \<and> (\<forall>bs. so_decode K (so_encode K bs) = Some bs \<and> 44 \<notin> set (so_encode K bs))"

definition flag_fits :: "channel_binding \<Rightarrow> scram_client \<Rightarrow> bool" where
  "flag_fits cb cl = (case cb of
       CbUnsupported \<Rightarrow> True
     | CbSupported \<Rightarrow> cl_flag cl = lit ''n'' \<and> cl_binding cl = []
     | CbRequired data \<Rightarrow> cl_flag cl = lit ''p=tls-server-end-point'' \<and> cl_binding cl = data)"

definition comma_free :: "scram_client \<Rightarrow> bool" where
  "comma_free cl \<longleftrightarrow> 44 \<notin> set (cl_user cl) \<and> 44 \<notin> set (cl_nonce cl) \<and> 44 \<notin> set (cl_flag cl)"

lemma xor_octets_cancel: "length a = length b \<Longrightarrow> xor_octets (xor_octets a b) b = a"
  unfolding xor_octets_def
  by (induction a b rule: list_induct2) (simp_all add: xor.assoc)

lemma length_xor_octets [simp]: "length (xor_octets a b) = min (length a) (length b)"
  by (simp add: xor_octets_def)

definition server_first_of :: "scram_ops \<Rightarrow> rstr \<Rightarrow> scram_credentials \<Rightarrow> rstr" where
  "server_first_of K nonce c =
     join_with [44] [lit ''r='' @ nonce, lit ''s='' @ so_encode K (sc_salt c),
                     lit ''i='' @ show_nat (sc_iterations c)]"

lemma show_nat_no_comma: "44 \<notin> set (show_nat n)"
  using show_nat_digits [of n] by (auto simp: list_all_iff is_digit_def)

lemma server_first_tags:
  assumes "scram_ops_ok K" "44 \<notin> set nonce"
  shows "tag (server_first_of K nonce c) (lit ''r='') = Some nonce"
    "tag (server_first_of K nonce c) (lit ''s='') = Some (so_encode K (sc_salt c))"
    "tag (server_first_of K nonce c) (lit ''i='') = Some (show_nat (sc_iterations c))"
  using assms show_nat_no_comma unfolding server_first_of_def scram_ops_ok_def
  by (simp_all add: tag_join lit_def del: join_with.simps)

lemma cl_bare_tags:
  assumes "comma_free cl"
  shows "tag (cl_bare cl) (lit ''n='') = Some (cl_user cl)" "tag (cl_bare cl) (lit ''r='') = Some (cl_nonce cl)"
proof -
  have "cl_bare cl = join_with [44] [lit ''n='' @ cl_user cl, lit ''r='' @ cl_nonce cl]"
    by (simp add: cl_bare_def lit_def)
  with assms show "tag (cl_bare cl) (lit ''n='') = Some (cl_user cl)"
    "tag (cl_bare cl) (lit ''r='') = Some (cl_nonce cl)"
    by (simp_all add: tag_join comma_free_def lit_def del: join_with.simps)
qed

lemma cl_final_tags:
  fixes pf cl
  assumes "scram_ops_ok K" "44 \<notin> set nonce"
  defines "m \<equiv> cl_without_proof K cl nonce @ lit '',p='' @ so_encode K pf"
  shows "tag m (lit ''c='') = Some (so_encode K (utf8_encode (cl_gs2 cl) @ cl_binding cl))"
    "tag m (lit ''r='') = Some nonce" "tag m (lit ''p='') = Some (so_encode K pf)"
    "rsplit_once_str (lit '',p='') m = Some (cl_without_proof K cl nonce, so_encode K pf)"
proof -
  have "m = join_with [44] [lit ''c='' @ so_encode K (utf8_encode (cl_gs2 cl) @ cl_binding cl),
                            lit ''r='' @ nonce, lit ''p='' @ so_encode K pf]"
    by (simp add: m_def cl_without_proof_def lit_def)
  with assms(1,2) show "tag m (lit ''c='') = Some (so_encode K (utf8_encode (cl_gs2 cl) @ cl_binding cl))"
    "tag m (lit ''r='') = Some nonce" "tag m (lit ''p='') = Some (so_encode K pf)"
    by (simp_all add: tag_join scram_ops_ok_def lit_def del: join_with.simps)
  show "rsplit_once_str (lit '',p='') m = Some (cl_without_proof K cl nonce, so_encode K pf)"
    using assms(1) rsplit_once_str_last [of 44 "lit ''p=''" "so_encode K pf" "cl_without_proof K cl nonce"]
    by (simp add: m_def scram_ops_ok_def lit_def)
qed

lemma cl_first_parts:
  assumes "comma_free cl"
  shows "nth_comma_rest (cl_first cl) 2 = Some (cl_bare cl)" "hd (split_on 44 (cl_first cl)) = cl_flag cl"
    "take (length (cl_first cl) - length (cl_bare cl)) (cl_first cl) = cl_gs2 cl"
  using assms nth_comma_rest_2 [of "cl_flag cl" "[]" "cl_bare cl"] hd_split_on [of "cl_flag cl" "44 # cl_bare cl"]
  by (simp_all add: cl_first_def cl_gs2_def comma_free_def lit_def)

subsection \<open>Properties\<close>

lemma honest_first:
  assumes "scram_ops_ok K" "comma_free cl" "flag_fits cb cl"
  shows "scram_first K (with_channel_binding cb (scram_new nonce)) (cl_first cl) c =
    (\<lparr>sv_server_nonce = nonce, sv_client_first_bare = Some (cl_bare cl),
      sv_server_first = Some (server_first_of K (cl_nonce cl @ nonce) c),
      sv_combined_nonce = Some (cl_nonce cl @ nonce), sv_channel_binding = cb,
      sv_gs2_header = Some (cl_gs2 cl)\<rparr>,
     Inr (cl_user cl, server_first_of K (cl_nonce cl @ nonce) c))"
  using assms cl_first_parts [of cl] cl_bare_tags [of cl]
  by (cases cb) (simp_all add: scram_first_def with_channel_binding_def scram_new_def flag_fits_def
      is_required_def server_first_of_def lit_def Let_def)

lemma honest_exchange:
  assumes "scram_ops_ok K" "comma_free cl" "flag_fits cb cl" "44 \<notin> set nonce"
    and "0 < iterations" "iterations \<le> u32_max"
    and c_def: "c = scram_derive K (cl_password cl) salt iterations"
  shows "\<exists>server server_first client_final server_final.
     scram_first K (with_channel_binding cb (scram_new nonce)) (cl_first cl) c
       = (server, Inr (cl_user cl, server_first))
     \<and> cl_final K cl server_first = Some (client_final, server_final)
     \<and> scram_finish K server client_final c = Inr server_final"
proof -
  let ?n = "cl_nonce cl @ nonce"
  let ?sf = "server_first_of K ?n c"
  have n: "44 \<notin> set ?n"
    using assms(2,4) by (simp add: comma_free_def)
  note tags = server_first_tags [OF assms(1) n, of c]
  have i: "parse_uint u32_max (show_nat iterations) = Some iterations"
    by (rule parse_show_nat) (fact assms(6))
  define salted where "salted = so_pbkdf2 K iterations salt (utf8_encode (cl_password cl))"
  have c: "sc_salt c = salt" "sc_iterations c = iterations"
    "sc_stored_key c = so_sha256 K (so_hmac K salted (utf8_encode (lit ''Client Key'')))"
    "sc_server_key c = so_hmac K salted (utf8_encode (lit ''Server Key''))"
    using assms(5) by (simp_all add: c_def scram_derive_def salted_def Let_def max_def)
  obtain f v where f: "cl_final K cl ?sf = Some (f, v)"
    using assms(1) tags c i by (auto simp: cl_final_def scram_ops_ok_def Let_def)
  note ft = cl_final_tags [OF assms(1) n, of cl]
  have "scram_finish K \<lparr>sv_server_nonce = nonce, sv_client_first_bare = Some (cl_bare cl),
      sv_server_first = Some ?sf, sv_combined_nonce = Some ?n, sv_channel_binding = cb,
      sv_gs2_header = Some (cl_gs2 cl)\<rparr> f c = Inr v"
    using f assms(1,3) tags c i
    by (cases cb) (auto simp: cl_final_def scram_finish_def binding_ok_def ft
        scram_ops_ok_def xor_octets_cancel Let_def flag_fits_def cl_auth_message_def
        simp flip: salted_def)
  then show ?thesis
    using honest_first [OF assms(1-3), of nonce c] f by auto
qed

definition demo_scram :: scram_ops where
  "demo_scram =
     \<lparr>so_pbkdf2 = (\<lambda>n salt password. salt @ password @ [oct n]),
      so_hmac = (\<lambda>k m. replicate 32 (sum_list k + 3 * sum_list m)),
      so_sha256 = (\<lambda>m. replicate 32 (5 * sum_list m + 1)),
      so_encode = map (\<lambda>b. 256 + unat b),
      so_decode = (\<lambda>s. if list_all (\<lambda>c. 256 \<le> c \<and> c < 512) s then Some (map (\<lambda>c. oct (c - 256)) s) else None)\<rparr>"

definition demo_client :: scram_client where
  "demo_client = \<lparr>cl_user = lit ''ann'', cl_password = lit ''tulip'', cl_nonce = lit ''abc'',
     cl_flag = lit ''p=tls-server-end-point'', cl_binding = [1, 2, 3]\<rparr>"

lemma demo_scram_ok: "scram_ops_ok demo_scram"
proof -
  have "unat b < 256" for b :: "8 word"
    using unsigned_less [of b, where 'a = nat] by simp
  then show ?thesis
    by (auto simp: scram_ops_ok_def demo_scram_def list_all_iff oct_def comp_def)
qed

lemma demo_client_ok: "comma_free demo_client" "flag_fits (CbRequired [1, 2, 3]) demo_client"
  by (simp_all add: demo_client_def comma_free_def flag_fits_def lit_def)

text \<open>C25: A client that knows the password completes the exchange: for credentials derived from it, with
  a nonce of the server without a comma, the server-first message lets the client compute a
  client-final that \<^verbatim>\<open>finish\<close> accepts, and the server's answer is the signature the client expects.\<close>

theorem scram_honest_client_accepted:
  assumes "scram_ops_ok K" "comma_free cl" "flag_fits cb cl" "44 \<notin> set nonce"
    and "0 < iterations" "iterations \<le> u32_max"
    and "c = scram_derive K (cl_password cl) salt iterations"
  shows "\<exists>server server_first client_final server_final.
     scram_first K (with_channel_binding cb (scram_new nonce)) (cl_first cl) c
       = (server, Inr (cl_user cl, server_first))
     \<and> cl_final K cl server_first = Some (client_final, server_final)
     \<and> scram_finish K server client_final c = Inr server_final"
  using assms by (rule honest_exchange)

theorem scram_honest_client_accepted_witness:
  "\<exists>server server_first client_final server_final.
     scram_first demo_scram (with_channel_binding (CbRequired [1, 2, 3]) (scram_new (lit ''xyz'')))
       (cl_first demo_client) (scram_derive demo_scram (cl_password demo_client) [9, 8] 4096)
       = (server, Inr (cl_user demo_client, server_first))
     \<and> cl_final demo_scram demo_client server_first = Some (client_final, server_final)
     \<and> scram_finish demo_scram server client_final
         (scram_derive demo_scram (cl_password demo_client) [9, 8] 4096) = Inr server_final"
  by (rule scram_honest_client_accepted [OF demo_scram_ok demo_client_ok, where iterations = 4096])
     (simp_all add: lit_def u32_max_def)

lemma nth_comma_rest_2_Some:
  assumes "nth_comma_rest text 2 = Some rest"
  obtains a b where "text = a @ 44 # b @ 44 # rest" "44 \<notin> set a" "44 \<notin> set b"
  using assms by (auto simp: numeral_2_eq_2 split_once_Some split: option.splits)

lemma scram_first_Inr:
  assumes "scram_first K (with_channel_binding cb (scram_new nonce)) client_first c = (server, Inr (user, sf))"
  obtains flag authzid bare client_nonce where
    "client_first = flag @ 44 # authzid @ 44 # bare"
    "cb = CbSupported \<longrightarrow> flag = lit ''n''" "is_required cb \<longrightarrow> flag = lit ''p=tls-server-end-point''"
    "tag bare (lit ''n='') = Some user"
    "server = \<lparr>sv_server_nonce = nonce, sv_client_first_bare = Some bare, sv_server_first = Some sf,
       sv_combined_nonce = Some (client_nonce @ nonce), sv_channel_binding = cb,
       sv_gs2_header = Some (flag @ 44 # authzid @ [44])\<rparr>"
proof -
  obtain bare where bare: "nth_comma_rest client_first 2 = Some bare"
    using assms by (auto simp: scram_first_def split: option.splits)
  then obtain a b where ab: "client_first = a @ 44 # b @ 44 # bare" "44 \<notin> set a" "44 \<notin> set b"
    by (rule nth_comma_rest_2_Some)
  have gs2: "take (length client_first - length bare) client_first = a @ 44 # b @ [44]"
    "hd (split_on 44 client_first) = a"
    using ab hd_split_on by auto
  show thesis
    by (rule that [of a b bare "the (tag bare (lit ''r=''))"])
       (use assms bare ab gs2 in \<open>auto simp: scram_first_def with_channel_binding_def scram_new_def Let_def
          split: option.splits if_splits\<close>)
qed

text \<open>C26: An accepted client-final belongs to this exchange and proves the password: it echoes a nonce
  that ends in the nonce of this server, it carries the channel binding the policy asks for (the
  bound certificate hash for \<^verbatim>\<open>-PLUS\<close>, the plain header without a downgrade flag otherwise), and its
  32-octet proof unmasks to a client key whose hash is the stored key, over a message that contains
  both first messages and the client-final up to the proof.\<close>

theorem scram_accepts_only_proof:
  assumes first: "scram_first K (with_channel_binding cb (scram_new nonce)) client_first c
      = (server, Inr (user, server_first))"
    and finish: "scram_finish K server client_final c = Inr server_final"
  shows "\<exists>client_nonce bare authzid flag pf without_proof e.
     client_first = flag @ 44 # authzid @ 44 # bare \<and> tag bare (lit ''n='') = Some user
     \<and> tag client_final (lit ''r='') = Some (client_nonce @ nonce)
     \<and> Option.bind (tag client_final (lit ''p='')) (so_decode K) = Some pf \<and> length pf = 32
     \<and> rsplit_once_str (lit '',p='') client_final = Some (without_proof, e)
     \<and> so_sha256 K (xor_octets pf (so_hmac K (sc_stored_key c) (utf8_encode
          (bare @ lit '','' @ server_first @ lit '','' @ without_proof)))) = sc_stored_key c
     \<and> (case cb of
          CbUnsupported \<Rightarrow> True
        | CbSupported \<Rightarrow> Option.bind (tag client_final (lit ''c='')) (so_decode K)
            = Some (utf8_encode (lit ''n,'' @ authzid @ lit '',''))
        | CbRequired data \<Rightarrow> Option.bind (tag client_final (lit ''c='')) (so_decode K)
            = Some (utf8_encode (lit ''p=tls-server-end-point,'' @ authzid @ lit '','') @ data))"
proof -
  obtain flag authzid bare client_nonce where
    1: "client_first = flag @ 44 # authzid @ 44 # bare"
    and flag: "cb = CbSupported \<longrightarrow> flag = lit ''n''"
      "is_required cb \<longrightarrow> flag = lit ''p=tls-server-end-point''"
    and 2: "tag bare (lit ''n='') = Some user"
    and server: "server = \<lparr>sv_server_nonce = nonce, sv_client_first_bare = Some bare,
       sv_server_first = Some server_first, sv_combined_nonce = Some (client_nonce @ nonce),
       sv_channel_binding = cb, sv_gs2_header = Some (flag @ 44 # authzid @ [44])\<rparr>"
    using first by (rule scram_first_Inr)
  have split: "lit '','' = [44]" "lit ''n,'' = lit ''n'' @ [44]"
    "lit ''p=tls-server-end-point,'' = lit ''p=tls-server-end-point'' @ [44]"
    by (simp_all add: lit_def)
  have cb: "case cb of
          CbUnsupported \<Rightarrow> True
        | CbSupported \<Rightarrow> Option.bind (tag client_final (lit ''c='')) (so_decode K)
            = Some (utf8_encode (lit ''n,'' @ authzid @ lit '',''))
        | CbRequired data \<Rightarrow> Option.bind (tag client_final (lit ''c='')) (so_decode K)
            = Some (utf8_encode (lit ''p=tls-server-end-point,'' @ authzid @ lit '','') @ data)"
    using finish flag unfolding split server
    by (cases cb) (auto simp: scram_finish_def binding_ok_def is_required_def split: if_splits option.splits)
  show ?thesis
    using finish 1 2 cb unfolding server
    by (force simp: scram_finish_def Let_def split: if_splits option.splits)
qed

theorem scram_accepts_only_proof_witness:
  "\<exists>server server_first client_final server_final pf.
     scram_first demo_scram (with_channel_binding (CbRequired [1, 2, 3]) (scram_new (lit ''xyz'')))
       (cl_first demo_client) (scram_derive demo_scram (cl_password demo_client) [9, 8] 4096)
       = (server, Inr (cl_user demo_client, server_first))
     \<and> scram_finish demo_scram server client_final
         (scram_derive demo_scram (cl_password demo_client) [9, 8] 4096) = Inr server_final
     \<and> Option.bind (tag client_final (lit ''p='')) (so_decode demo_scram) = Some pf \<and> length pf = 32"
proof -
  let ?c = "scram_derive demo_scram (cl_password demo_client) [9, 8] 4096"
  obtain server sf cf out where
    "scram_first demo_scram (with_channel_binding (CbRequired [1, 2, 3]) (scram_new (lit ''xyz'')))
       (cl_first demo_client) ?c = (server, Inr (cl_user demo_client, sf))"
    "scram_finish demo_scram server cf ?c = Inr out"
    using honest_exchange [OF demo_scram_ok demo_client_ok, where iterations = 4096 and nonce = "lit ''xyz''" and c = ?c and salt = "[9, 8]"]
    by (auto simp: lit_def u32_max_def)
  with scram_accepts_only_proof [OF this] show ?thesis by blast
qed

end
