(* ===== verification/Directory.thy ===== *)
theory Directory
  imports Domain_Address Scram "HOL-Library.AList" "HOL-Library.Multiset"
begin

section \<open>The recipient directory\<close>

text \<open>
  \<^verbatim>\<open>Directory\<close> of \<^verbatim>\<open>src/src/smtp/directory/mod.rs\<close> and \<^verbatim>\<open>resolve.rs\<close>: which account an address
  names, where a copy is finally delivered, who may send as it, and the per-account quota and
  submission limit. A \<^verbatim>\<open>HashMap\<close> is an association list with distinct keys (\<open>collect_map\<close> builds it
  the way \<^verbatim>\<open>collect\<close> does, the last entry of a key winning) and a \<^verbatim>\<open>HashSet\<close> is a list. The
  authentication side of the directory is in the theory \<open>Auth_Gate\<close>.
\<close>

subsection \<open>The tables\<close>

datatype resolution =
  NotLocal
| UnknownUser
| Account rstr
| Alias "rstr list"

record alias_spec =
  as_members :: "rstr list"
  as_senders :: "rstr list"
  as_hidden :: bool
  as_list_id :: "rstr option"

datatype protocol = Smtp | Submission | Submissions | Api | Imaps | Imap | Pop3s | ManageSieve | WebDav

record app_password =
  ap_label :: rstr
  ap_hash :: rstr
  ap_expires_at :: "nat option"
  ap_ip_cidr :: "rstr option"
  ap_save_sent :: "bool option"

record directory =
  d_domains :: "rstr list"
  d_accounts_by_address :: "(rstr \<times> rstr) list"
  d_password_hashes :: "(rstr \<times> rstr) list"
  d_subaddress_separators :: "rchar list"
  d_catch_all :: "(rstr \<times> rstr) list"
  d_domain_aliases :: "(rstr \<times> rstr) list"
  d_disabled_domains :: "rstr list"
  d_scram :: "(rstr \<times> scram_stored) list"
  d_totp :: "(rstr \<times> rstr) list"
  d_disabled :: "rstr list"
  d_account_quotas :: "(rstr \<times> nat) list"
  d_domain_quotas :: "(rstr \<times> nat) list"
  d_domain_submission_limits :: "(rstr \<times> nat) list"
  d_account_save_sent :: "(rstr \<times> bool) list"
  d_forwards :: "(rstr \<times> (rstr list \<times> bool)) list"
  d_aliases :: "(rstr \<times> alias_spec) list"
  d_app_passwords :: "(rstr \<times> app_password list) list"
  d_max_app_passwords :: nat
  d_masked_by_address :: "(rstr \<times> rstr) list"
  d_masked_paused :: "rstr list"
  d_allowed_protocols :: "(rstr \<times> protocol list) list"

definition collect_map :: "('k \<Rightarrow> 'k) \<Rightarrow> ('k \<times> 'v) list \<Rightarrow> ('k \<times> 'v) list" where
  "collect_map f entries = fold (\<lambda>(k, v). AList.update (f k) v) entries []"

definition directory_new :: "unicode_ops \<Rightarrow> rstr list \<Rightarrow> (rstr \<times> rstr) list \<Rightarrow> directory" where
  "directory_new U domains address_accounts =
     \<lparr>d_domains = map ascii_lower domains,
      d_accounts_by_address = collect_map (normalize_address U) address_accounts,
      d_password_hashes = [], d_subaddress_separators = [43], d_catch_all = [],
      d_domain_aliases = [], d_disabled_domains = [], d_scram = [], d_totp = [], d_disabled = [],
      d_account_quotas = [], d_domain_quotas = [], d_domain_submission_limits = [],
      d_account_save_sent = [], d_forwards = [], d_aliases = [], d_app_passwords = [],
      d_max_app_passwords = 0, d_masked_by_address = [], d_masked_paused = [],
      d_allowed_protocols = []\<rparr>"

definition with_aliases :: "unicode_ops \<Rightarrow> (rstr \<times> alias_spec) list \<Rightarrow> directory \<Rightarrow> directory" where
  "with_aliases U entries d = d\<lparr>d_aliases := collect_map (normalize_address U) entries\<rparr>"

definition with_catch_all :: "(rstr \<times> rstr) list \<Rightarrow> directory \<Rightarrow> directory" where
  "with_catch_all entries d = d\<lparr>d_catch_all := collect_map ascii_lower entries\<rparr>"

definition with_password_hashes :: "(rstr \<times> rstr) list \<Rightarrow> directory \<Rightarrow> directory" where
  "with_password_hashes hashes d = d\<lparr>d_password_hashes := collect_map (\<lambda>k. k) hashes\<rparr>"

text \<open>Each app password joins the list of its account; the longest list sets the work of a refusal.\<close>

definition push_app_password ::
  "rstr \<times> app_password \<Rightarrow> (rstr \<times> app_password list) list \<Rightarrow> (rstr \<times> app_password list) list" where
  "push_app_password e m =
     (let k = ascii_lower (fst e);
          old = (case map_of m k of Some ps \<Rightarrow> ps | None \<Rightarrow> [])
      in AList.update k (old @ [snd e]) m)"

definition with_app_passwords :: "(rstr \<times> app_password) list \<Rightarrow> directory \<Rightarrow> directory" where
  "with_app_passwords entries d =
     (let m = fold push_app_password entries (d_app_passwords d)
      in d\<lparr>d_app_passwords := m,
           d_max_app_passwords := Max (insert 0 (set (map (\<lambda>e. length (snd e)) m)))\<rparr>)"

subsection \<open>Resolution\<close>

text \<open>A domain alias resolves as its target domain.\<close>

definition target_domain :: "directory \<Rightarrow> address \<Rightarrow> rstr" where
  "target_domain d a =
     (case map_of (d_domain_aliases d) (a_domain a) of Some t \<Rightarrow> t | None \<Rightarrow> a_domain a)"

definition address_key :: "unicode_ops \<Rightarrow> rstr \<Rightarrow> rstr \<Rightarrow> rstr" where
  "address_key U local domain = normalize_address U (local @ [64] @ domain)"

definition domain_disabled :: "directory \<Rightarrow> rstr \<Rightarrow> bool" where
  "domain_disabled d domain \<longleftrightarrow> ascii_lower domain \<in> set (d_disabled_domains d)"

definition resolve_exact :: "unicode_ops \<Rightarrow> directory \<Rightarrow> address \<Rightarrow> rstr option" where
  "resolve_exact U d a =
     (let domain = target_domain d a
      in if domain \<notin> set (d_domains d) \<or> domain \<in> set (d_disabled_domains d) then None
         else map_of (d_accounts_by_address d) (address_key U (a_local_part a) domain))"

definition named_account :: "directory \<Rightarrow> rstr \<Rightarrow> rstr option" where
  "named_account d name =
     (if map_of (d_password_hashes d) (ascii_lower name) \<noteq> None then Some (ascii_lower name) else None)"

definition is_paused :: "unicode_ops \<Rightarrow> directory \<Rightarrow> address \<Rightarrow> bool" where
  "is_paused U d a =
     (let domain = target_domain d a
      in domain \<in> set (d_disabled_domains d)
         \<or> address_key U (a_local_part a) domain \<in> set (d_masked_paused d))"

text \<open>The earliest separator cuts the local part; nothing is left of one that starts with it.\<close>

definition strip_subaddress :: "unicode_ops \<Rightarrow> directory \<Rightarrow> rstr \<Rightarrow> rstr \<Rightarrow> rstr option" where
  "strip_subaddress U d local domain =
     (if \<not> list_ex (\<lambda>c. c \<in> set (d_subaddress_separators d)) local then None
      else let base = takeWhile (\<lambda>c. c \<notin> set (d_subaddress_separators d)) local
           in if base = [] then None else Some (address_key U base domain))"

definition alias_accounts :: "unicode_ops \<Rightarrow> directory \<Rightarrow> rstr list \<Rightarrow> rstr list" where
  "alias_accounts U d members =
     List.map_filter (\<lambda>m. map_of (d_accounts_by_address d) (normalize_address U m)) members"

definition resolve :: "unicode_ops \<Rightarrow> directory \<Rightarrow> address \<Rightarrow> resolution" where
  "resolve U d a =
     (let domain = target_domain d a
      in if domain \<notin> set (d_domains d) then NotLocal
         else if domain \<in> set (d_disabled_domains d) then UnknownUser
         else let key = address_key U (a_local_part a) domain
         in case map_of (d_accounts_by_address d) key of
              Some account \<Rightarrow> Account account
            | None \<Rightarrow>
         (case map_of (d_aliases d) key of
              Some spec \<Rightarrow> Alias (alias_accounts U d (as_members spec))
            | None \<Rightarrow>
         (case map_of (d_masked_by_address d) key of
              Some account \<Rightarrow> Account account
            | None \<Rightarrow>
         (case Option.bind (strip_subaddress U d (a_local_part a) domain)
                 (map_of (d_accounts_by_address d)) of
              Some account \<Rightarrow> Account account
            | None \<Rightarrow>
         (case map_of (d_catch_all d) domain of
              Some account \<Rightarrow> Account account
            | None \<Rightarrow> UnknownUser)))))"

definition final_recipients :: "unicode_ops \<Rightarrow> directory \<Rightarrow> address \<Rightarrow> (rstr \<times> rstr) list option" where
  "final_recipients U d a =
     (case resolve U d a of
        Account account \<Rightarrow> Some [(account, normalize_address U (address_show a))]
      | Alias _ \<Rightarrow>
          (case map_of (d_aliases d) (address_key U (a_local_part a) (target_domain d a)) of
             None \<Rightarrow> None
           | Some spec \<Rightarrow>
               Some (List.map_filter
                 (\<lambda>m. map_option (\<lambda>account. (account, normalize_address U m))
                        (map_of (d_accounts_by_address d) (normalize_address U m)))
                 (as_members spec)))
      | NotLocal \<Rightarrow> None
      | UnknownUser \<Rightarrow> None)"

subsection \<open>Lookups by account\<close>

definition alias_members :: "unicode_ops \<Rightarrow> directory \<Rightarrow> rstr \<Rightarrow> rstr list option" where
  "alias_members U d a =
     (case map_of (d_aliases d) (normalize_address U a) of
        None \<Rightarrow> None
      | Some spec \<Rightarrow> if as_hidden spec then None else Some (as_members spec))"

definition hosts_domain :: "directory \<Rightarrow> rstr \<Rightarrow> bool" where
  "hosts_domain d domain \<longleftrightarrow> ascii_lower domain \<in> set (d_domains d)
     \<or> map_of (d_domain_aliases d) (ascii_lower domain) \<noteq> None"

text \<open>The domains an account has an address in, in the order the table is walked.\<close>

definition account_domains :: "directory \<Rightarrow> rstr \<Rightarrow> rstr list" where
  "account_domains d account =
     List.map_filter (\<lambda>(addr, _). map_option snd (rsplit_once 64 addr))
       (filter (\<lambda>(_, name). eq_ignore_case name account) (d_accounts_by_address d))"

definition quota_for :: "directory \<Rightarrow> rstr \<Rightarrow> nat option" where
  "quota_for d account =
     (case map_of (d_account_quotas d) (ascii_lower account) of
        Some bytes \<Rightarrow> Some bytes
      | None \<Rightarrow>
          if d_domain_quotas d = [] then None
          else (case List.map_filter (map_of (d_domain_quotas d)) (account_domains d account) of
                  [] \<Rightarrow> None | bytes # _ \<Rightarrow> Some bytes))"

definition submission_limit_for :: "directory \<Rightarrow> rstr \<Rightarrow> nat option" where
  "submission_limit_for d account =
     (if d_domain_submission_limits d = [] then None
      else case List.map_filter (map_of (d_domain_submission_limits d)) (account_domains d account) of
             [] \<Rightarrow> None | l # ls \<Rightarrow> Some (fold min ls l))"

definition save_sent_for :: "directory \<Rightarrow> rstr \<Rightarrow> bool option" where
  "save_sent_for d account = map_of (d_account_save_sent d) (ascii_lower account)"

definition app_password_save_sent :: "directory \<Rightarrow> rstr \<Rightarrow> rstr option \<Rightarrow> bool option" where
  "app_password_save_sent d account app_password =
     (case (map_of (d_app_passwords d) (ascii_lower account), app_password) of
        (Some passwords, Some label) \<Rightarrow>
          Option.bind (List.find (\<lambda>e. ap_label e = label) passwords) ap_save_sent
      | _ \<Rightarrow> None)"

definition addresses_for :: "directory \<Rightarrow> rstr \<Rightarrow> rstr list" where
  "addresses_for d account =
     map fst (filter (\<lambda>(_, owner). eq_ignore_case owner account) (d_accounts_by_address d))"

definition credentials :: "unicode_ops \<Rightarrow> directory \<Rightarrow> rstr \<Rightarrow> (rstr \<times> rstr) option" where
  "credentials U d login =
     (let account =
        (if 64 \<in> set login then
           (case address_parse U login of
              Inl _ \<Rightarrow> None
            | Inr a \<Rightarrow> (case resolve U d a of Account account \<Rightarrow> Some account | _ \<Rightarrow> None))
         else if map_of (d_password_hashes d) (ascii_lower login) = None then None
         else Some (ascii_lower login))
      in case account of
           None \<Rightarrow> None
         | Some account \<Rightarrow>
             map_option (\<lambda>hash. (account, hash)) (map_of (d_password_hashes d) account))"

definition owns_address :: "unicode_ops \<Rightarrow> directory \<Rightarrow> rstr \<Rightarrow> address \<Rightarrow> bool" where
  "owns_address U d account a =
     (if domain_disabled d (a_domain a) then False
      else let key = normalize_address U (address_show a)
      in case map_of (d_accounts_by_address d) key of
           Some owner \<Rightarrow> owner = account
         | None \<Rightarrow>
      (case map_of (d_aliases d) key of
           Some spec \<Rightarrow>
             list_ex (\<lambda>addr. map_of (d_accounts_by_address d) (normalize_address U addr) = Some account)
               (if as_senders spec = [] then as_members spec else as_senders spec)
         | None \<Rightarrow>
      (case map_of (d_masked_by_address d) key of
           Some owner \<Rightarrow> owner = account
         | None \<Rightarrow> False)))"

subsection \<open>What resolution promises its callers\<close>

definition locally_served :: "directory \<Rightarrow> address \<Rightarrow> bool" where
  "locally_served d a \<longleftrightarrow> target_domain d a \<in> set (d_domains d)"

definition switched_off :: "directory \<Rightarrow> address \<Rightarrow> bool" where
  "switched_off d a \<longleftrightarrow> target_domain d a \<in> set (d_disabled_domains d)"

text \<open>The contract the SMTP session, the authentication paths and the delivery rely on.\<close>

locale recipient_directory =
  fixes res :: "'d \<Rightarrow> address \<Rightarrow> resolution"
    and exact :: "'d \<Rightarrow> address \<Rightarrow> rstr option"
    and finals :: "'d \<Rightarrow> address \<Rightarrow> (rstr \<times> rstr) list option"
    and served :: "'d \<Rightarrow> address \<Rightarrow> bool"
    and off :: "'d \<Rightarrow> address \<Rightarrow> bool"
  assumes not_local: "res d a = NotLocal \<longleftrightarrow> \<not> served d a"
    and off_unknown: "served d a \<Longrightarrow> off d a \<Longrightarrow> res d a = UnknownUser"
    and exact_account: "exact d a = Some x \<Longrightarrow> res d a = Account x"
    and finals_account: "res d a = Account x \<Longrightarrow> \<exists>k. finals d a = Some [(x, k)]"
    and finals_alias: "res d a = Alias xs \<Longrightarrow> \<exists>ys. finals d a = Some ys \<and> map fst ys = xs"
    and finals_none: "res d a \<in> {NotLocal, UnknownUser} \<Longrightarrow> finals d a = None"
begin

lemma accepted_is_served:
  "res d a = Account x \<or> res d a = Alias xs \<Longrightarrow> served d a \<and> \<not> off d a"
  using not_local [of d a] off_unknown [of d a] by auto

lemma exact_is_served: "exact d a = Some x \<Longrightarrow> served d a \<and> \<not> off d a"
  using exact_account accepted_is_served by blast

lemma finals_None_iff: "finals d a = None \<longleftrightarrow> res d a \<in> {NotLocal, UnknownUser}"
  using finals_account finals_alias finals_none by (cases "res d a") fastforce+

lemma delivered_accounts:
  "finals d a = Some ys \<Longrightarrow>
   map fst ys = (case res d a of Account x \<Rightarrow> [x] | Alias xs \<Rightarrow> xs | _ \<Rightarrow> [])"
  using finals_account [of d a] finals_alias [of d a] finals_none [of d a]
  by (cases "res d a") auto

end

lemma map_filter_map_option:
  "map fst (List.map_filter (\<lambda>m. map_option (\<lambda>x. (x, g m)) (f m)) ms) = List.map_filter f ms"
  by (induction ms) (auto simp: map_filter_simps split: option.splits)

lemma resolve_unserved: "target_domain d a \<notin> set (d_domains d) \<Longrightarrow> resolve U d a = NotLocal"
  by (simp add: resolve_def)

lemma resolve_served: "target_domain d a \<in> set (d_domains d) \<Longrightarrow> resolve U d a \<noteq> NotLocal"
  by (auto simp: resolve_def Let_def split: option.split)

lemma resolve_off:
  "target_domain d a \<in> set (d_domains d) \<Longrightarrow> target_domain d a \<in> set (d_disabled_domains d)
   \<Longrightarrow> resolve U d a = UnknownUser"
  by (simp add: resolve_def)

lemma resolve_alias:
  "resolve U d a = Alias xs \<Longrightarrow>
   \<exists>spec. map_of (d_aliases d) (address_key U (a_local_part a) (target_domain d a)) = Some spec
     \<and> xs = alias_accounts U d (as_members spec)"
  by (auto simp: resolve_def Let_def split: option.split_asm if_split_asm)

lemma resolve_exact_Some:
  "resolve_exact U d a = Some x \<longleftrightarrow> target_domain d a \<in> set (d_domains d)
     \<and> target_domain d a \<notin> set (d_disabled_domains d)
     \<and> map_of (d_accounts_by_address d) (address_key U (a_local_part a) (target_domain d a)) = Some x"
  by (auto simp: resolve_exact_def Let_def)

lemma final_recipients_alias:
  assumes "resolve U d a = Alias xs"
  shows "\<exists>ys. final_recipients U d a = Some ys \<and> map fst ys = xs
    \<and> (\<forall>(x, m)\<in>set ys. map_of (d_accounts_by_address d) m = Some x)"
proof -
  obtain spec where
    "map_of (d_aliases d) (address_key U (a_local_part a) (target_domain d a)) = Some spec"
    "xs = alias_accounts U d (as_members spec)"
    using resolve_alias [OF assms] by blast
  then show ?thesis
    using assms by (auto simp: final_recipients_def alias_accounts_def map_filter_map_option)
      (auto simp: List.map_filter_def)
qed

interpretation dir: recipient_directory "resolve U" "resolve_exact U" "final_recipients U"
  locally_served switched_off for U
proof
  fix d a x xs
  show "resolve U d a = NotLocal \<longleftrightarrow> \<not> locally_served d a"
    using resolve_unserved resolve_served by (auto simp: locally_served_def)
  show "locally_served d a \<Longrightarrow> switched_off d a \<Longrightarrow> resolve U d a = UnknownUser"
    using resolve_off by (simp add: locally_served_def switched_off_def)
  show "resolve_exact U d a = Some x \<Longrightarrow> resolve U d a = Account x"
    by (simp add: resolve_exact_Some resolve_def Let_def)
  show "resolve U d a = Account x \<Longrightarrow> \<exists>k. final_recipients U d a = Some [(x, k)]"
    by (simp add: final_recipients_def)
  show "resolve U d a = Alias xs \<Longrightarrow> \<exists>ys. final_recipients U d a = Some ys \<and> map fst ys = xs"
    using final_recipients_alias by blast
  show "resolve U d a \<in> {NotLocal, UnknownUser} \<Longrightarrow> final_recipients U d a = None"
    by (auto simp: final_recipients_def)
qed

subsection \<open>Properties\<close>

text \<open>C18: The views of one address agree. An identity that is an account's own address resolves to that
  account and is delivered to it alone; a copy is delivered exactly when the address resolves to an
  account or an alias, to the accounts it resolves to and, for an alias, under an address each of
  them owns; an address of a domain that is not hosted, or is switched off, opens no account by any
  of the three lookups.\<close>

theorem directory_views_agree:
  "(resolve_exact U d a = Some x \<longrightarrow>
      resolve U d a = Account x
      \<and> final_recipients U d a = Some [(x, normalize_address U (address_show a))])
   \<and> (final_recipients U d a = None \<longleftrightarrow> resolve U d a \<in> {NotLocal, UnknownUser})
   \<and> (\<forall>xs. resolve U d a = Alias xs \<longrightarrow>
        (\<exists>ys. final_recipients U d a = Some ys \<and> map fst ys = xs
           \<and> (\<forall>(y, m)\<in>set ys. map_of (d_accounts_by_address d) m = Some y)))
   \<and> (\<not> locally_served d a \<or> switched_off d a \<longrightarrow>
        resolve_exact U d a = None \<and> final_recipients U d a = None
        \<and> resolve U d a \<in> {NotLocal, UnknownUser})"
proof (intro conjI impI allI)
  assume "resolve_exact U d a = Some x"
  then show "resolve U d a = Account x" by (rule dir.exact_account)
  then show "final_recipients U d a = Some [(x, normalize_address U (address_show a))]"
    by (simp add: final_recipients_def)
next
  show "final_recipients U d a = None \<longleftrightarrow> resolve U d a \<in> {NotLocal, UnknownUser}"
    by (rule dir.finals_None_iff)
next
  fix xs assume "resolve U d a = Alias xs"
  then show "\<exists>ys. final_recipients U d a = Some ys \<and> map fst ys = xs
           \<and> (\<forall>(y, m)\<in>set ys. map_of (d_accounts_by_address d) m = Some y)"
    by (rule final_recipients_alias)
next
  assume shut: "\<not> locally_served d a \<or> switched_off d a"
  then show "resolve_exact U d a = None"
    using dir.exact_is_served by (cases "resolve_exact U d a") blast+
  show "resolve U d a \<in> {NotLocal, UnknownUser}"
    using shut dir.not_local dir.off_unknown by blast
  then show "final_recipients U d a = None" by (rule dir.finals_none)
qed

text \<open>A parsed domain is already in the lower case the tables are kept in.\<close>

lemma parsed_domain_lower: "address_parse U raw = Inr a \<Longrightarrow> ascii_lower (a_domain a) = a_domain a"
proof -
  assume "address_parse U raw = Inr a"
  then have "dns_name (a_domain a)" using normalize_name_shape by (auto simp: address_parse_Inr)
  then show ?thesis using dns_name_chars by (intro ascii_lower_id) (auto simp: list_all_iff)
qed

lemma address_key_show:
  "map_of (d_domain_aliases d) (a_domain a) = None \<Longrightarrow>
   address_key U (a_local_part a) (target_domain d a) = normalize_address U (address_show a)"
  by (simp add: address_key_def target_domain_def address_show_def)

lemma alias_accounts_mem:
  "x \<in> set (alias_accounts U d ms) \<longleftrightarrow>
   (\<exists>m\<in>set ms. map_of (d_accounts_by_address d) (normalize_address U m) = Some x)"
  by (auto simp: alias_accounts_def List.map_filter_def image_iff)

text \<open>C19: Sending and receiving agree for a parsed address of a hosted domain that is not an alias
  domain. An account's own address may be used as sender by that account and by no other; and an
  account may use an address as sender only if mail to it reaches that account, or if it is an
  alias whose list of senders names the account (with no such list, one of whose members it is).\<close>

theorem send_as_agrees_with_delivery:
  assumes parsed: "address_parse U raw = Inr a"
    and hosted: "a_domain a \<in> set (d_domains d)" "map_of (d_domain_aliases d) (a_domain a) = None"
  shows "(resolve_exact U d a = Some x \<longrightarrow> (owns_address U d y a \<longleftrightarrow> y = x))
    \<and> (owns_address U d y a \<longrightarrow> \<not> switched_off d a \<and>
         (resolve U d a = Account y
          \<or> (\<exists>spec. map_of (d_aliases d) (normalize_address U (address_show a)) = Some spec
               \<and> resolve U d a = Alias (alias_accounts U d (as_members spec))
               \<and> y \<in> set (alias_accounts U d
                     (if as_senders spec = [] then as_members spec else as_senders spec)))))"
proof -
  have target: "target_domain d a = a_domain a" using hosted by (simp add: target_domain_def)
  have off: "domain_disabled d (a_domain a) \<longleftrightarrow> a_domain a \<in> set (d_disabled_domains d)"
    using parsed_domain_lower [OF parsed] by (simp add: domain_disabled_def)
  have "resolve_exact U d a = Some x \<longrightarrow> (owns_address U d y a \<longleftrightarrow> y = x)"
    using address_key_show [OF hosted(2)] off
    by (auto simp: resolve_exact_Some target owns_address_def)
  moreover have "owns_address U d y a \<longrightarrow> \<not> switched_off d a \<and>
         (resolve U d a = Account y
          \<or> (\<exists>spec. map_of (d_aliases d) (normalize_address U (address_show a)) = Some spec
               \<and> resolve U d a = Alias (alias_accounts U d (as_members spec))
               \<and> y \<in> set (alias_accounts U d
                     (if as_senders spec = [] then as_members spec else as_senders spec))))"
    using hosted(1) address_key_show [OF hosted(2), of U] off
    by (auto simp: owns_address_def resolve_def target switched_off_def Let_def alias_accounts_mem
        list_ex_iff split: option.splits if_splits)
  ultimately show ?thesis by blast
qed

text \<open>A tagged address \<open>base+tag\<close> that is not itself an address, an alias or a masked address is
  delivered to the account of \<open>base\<close>, whatever the tag and whichever of the configured separators
  comes first; but it never counts as that account's own address.\<close>

theorem subaddress_delivers_to_base:
  assumes sep: "sep \<in> set (d_subaddress_separators d)"
    and base: "base \<noteq> []" "\<forall>c\<in>set base. c \<notin> set (d_subaddress_separators d)"
    and own: "resolve_exact U d \<lparr>a_local_part = base, a_domain = domain\<rparr> = Some x"
    and tagged: "tagged = \<lparr>a_local_part = base @ sep # detail, a_domain = domain\<rparr>"
    and key: "key = address_key U (base @ sep # detail) (target_domain d tagged)"
    and free: "map_of (d_accounts_by_address d) key = None" "map_of (d_aliases d) key = None"
      "map_of (d_masked_by_address d) key = None"
  shows "resolve U d tagged = Account x \<and> resolve_exact U d tagged = None"
proof -
  have t: "target_domain d tagged = target_domain d \<lparr>a_local_part = base, a_domain = domain\<rparr>"
    by (simp add: target_domain_def tagged split: option.split)
  have "takeWhile (\<lambda>c. c \<notin> set (d_subaddress_separators d)) (base @ sep # detail) = base"
    using base(2) sep by (simp add: takeWhile_append2)
  then have "strip_subaddress U d (base @ sep # detail) (target_domain d tagged)
      = Some (address_key U base (target_domain d tagged))"
    using sep base(1) by (simp add: strip_subaddress_def)
  then show ?thesis
    using own free unfolding resolve_exact_Some key t [symmetric]
    by (simp add: resolve_exact_def resolve_def tagged Let_def)
qed

text \<open>The submission limits of the domains an account has an address in.\<close>

definition account_limits :: "directory \<Rightarrow> rstr \<Rightarrow> nat set" where
  "account_limits d account = {l. \<exists>addr name local domain. (addr, name) \<in> set (d_accounts_by_address d)
     \<and> eq_ignore_case name account \<and> rsplit_once 64 addr = Some (local, domain)
     \<and> map_of (d_domain_submission_limits d) domain = Some l}"

lemma fold_min: "fold min ls (l::nat) = Min (insert l (set ls))"
  by (metis Min.set_eq_fold list.set(2))

lemma account_limits_list:
  "account_limits d account
   = set (List.map_filter (map_of (d_domain_submission_limits d)) (account_domains d account))"
  by (fastforce simp: account_limits_def account_domains_def List.map_filter_def image_iff)

text \<open>An account's submission limit is the strictest limit of the domains its addresses are in,
  whatever order the table is walked in, and there is none exactly when no such domain has one.\<close>

theorem submission_limit_is_strictest:
  "submission_limit_for d account =
     (if account_limits d account = {} then None else Some (Min (account_limits d account)))"
proof (cases "List.map_filter (map_of (d_domain_submission_limits d)) (account_domains d account)")
  case Nil
  then show ?thesis by (simp add: submission_limit_for_def account_limits_list)
next
  case (Cons l ls)
  then have "d_domain_submission_limits d \<noteq> []" by (auto simp: List.map_filter_def)
  with Cons show ?thesis by (simp add: submission_limit_for_def account_limits_list fold_min)
qed

subsection \<open>A concrete directory\<close>

definition demo_directory :: directory where
  "demo_directory = with_catch_all [] (with_aliases ascii_ops
     [(lit ''team@example.org'', \<lparr>as_members = [lit ''ann@example.org'', lit ''bob@example.org''],
        as_senders = [], as_hidden = False, as_list_id = None\<rparr>)]
     (directory_new ascii_ops [lit ''Example.org'']
       [(lit ''Ann@example.org'', lit ''ann''), (lit ''bob@example.org'', lit ''bob'')]))"

definition demo_box :: "string \<Rightarrow> address" where
  "demo_box l = \<lparr>a_local_part = lit l, a_domain = lit ''example.org''\<rparr>"

lemmas directory_eval = resolve_exact_def target_domain_def address_key_def normalize_address_def
  normalize_domain_def collect_map_def directory_new_def with_aliases_def with_catch_all_def
  ascii_ops_def address_eval str_simps

lemma demo_directory_eq:
  "demo_directory = (directory_new ascii_ops [] [])\<lparr>d_domains := [lit ''example.org''],
     d_accounts_by_address := [(lit ''ann@example.org'', lit ''ann''), (lit ''bob@example.org'', lit ''bob'')],
     d_aliases := [(lit ''team@example.org'',
        \<lparr>as_members = [lit ''ann@example.org'', lit ''bob@example.org''],
        as_senders = [], as_hidden = False, as_list_id = None\<rparr>)]\<rparr>"
  by (simp add: demo_directory_def directory_eval)

theorem directory_views_agree_witness:
  "resolve_exact ascii_ops demo_directory (demo_box ''ann'') = Some (lit ''ann'')
   \<and> resolve ascii_ops demo_directory (demo_box ''ann'') = Account (lit ''ann'')"
proof -
  have "resolve_exact ascii_ops demo_directory (demo_box ''ann'') = Some (lit ''ann'')"
    by (simp add: demo_directory_eq demo_box_def directory_eval)
  with directory_views_agree [of ascii_ops demo_directory "demo_box ''ann''" "lit ''ann''"]
  show ?thesis by simp
qed

theorem send_as_agrees_with_delivery_witness:
  "owns_address ascii_ops demo_directory (lit ''bob'') (demo_box ''team'')
   \<and> \<not> switched_off demo_directory (demo_box ''team'')
   \<and> \<not> owns_address ascii_ops demo_directory (lit ''bob'') (demo_box ''ann'')"
proof -
  have p: "address_parse ascii_ops (lit ''team@example.org'') = Inr (demo_box ''team'')"
    "address_parse ascii_ops (lit ''ann@example.org'') = Inr (demo_box ''ann'')"
    by (simp_all add: demo_box_def directory_eval)
  have h: "a_domain (demo_box l) \<in> set (d_domains demo_directory)"
    "map_of (d_domain_aliases demo_directory) (a_domain (demo_box l)) = None" for l
    by (simp_all add: demo_directory_eq demo_box_def directory_new_def)
  have "owns_address ascii_ops demo_directory (lit ''bob'') (demo_box ''team'')"
    by (simp add: demo_directory_eq demo_box_def owns_address_def domain_disabled_def directory_eval)
  moreover have "resolve_exact ascii_ops demo_directory (demo_box ''ann'') = Some (lit ''ann'')"
    by (simp add: demo_directory_eq demo_box_def directory_eval)
  moreover have "lit ''bob'' \<noteq> lit ''ann''" by (simp add: lit_def)
  ultimately show ?thesis
    using send_as_agrees_with_delivery [OF p(1) h, of _ "lit ''bob''"]
      send_as_agrees_with_delivery [OF p(2) h, of "lit ''ann''" "lit ''bob''"] by blast
qed

theorem subaddress_delivers_to_base_witness:
  "resolve ascii_ops demo_directory (demo_box ''ann+news'') = Account (lit ''ann'')
   \<and> resolve_exact ascii_ops demo_directory (demo_box ''ann+news'') = None"
proof (rule subaddress_delivers_to_base [where sep = 43 and base = "lit ''ann''" and detail = "lit ''news''"
      and domain = "lit ''example.org''", OF _ _ _ _ _ refl])
  show "43 \<in> set (d_subaddress_separators demo_directory)"
    by (simp add: demo_directory_eq directory_new_def)
  show "\<forall>c\<in>set (lit ''ann''). c \<notin> set (d_subaddress_separators demo_directory)"
    by (simp add: demo_directory_eq directory_new_def lit_def)
  show "resolve_exact ascii_ops demo_directory
      \<lparr>a_local_part = lit ''ann'', a_domain = lit ''example.org''\<rparr> = Some (lit ''ann'')"
    by (simp add: demo_directory_eq directory_eval)
qed (simp_all add: demo_directory_eq demo_box_def directory_eval)

end
