(* ===== verification/Totp.thy ===== *)
theory Totp
  imports Prelude
begin

unbundle bit_operations_syntax

section \<open>One-time passwords and base32 secrets\<close>

text \<open>
  \<^verbatim>\<open>src/src/totp/mod.rs\<close>: the HOTP truncation, the TOTP check with its window of adjacent steps, and the
  base32 form a secret is stored in. HMAC-SHA1 is the parameter \<open>hmac\<close> (the crate \<^verbatim>\<open>ring\<close>), a function
  of key and message. Accumulators are 32-bit words, shifted the way the code shifts them.
\<close>

subsection \<open>The code\<close>

definition STEP_SECONDS :: nat where
  "STEP_SECONDS = 30"

definition DIGITS :: nat where
  "DIGITS = 6"

definition SKEW_WINDOW :: nat where
  "SKEW_WINDOW = 1"

definition be_bytes64 :: "nat \<Rightarrow> octets" where
  "be_bytes64 n = map (\<lambda>i. word_of_nat (n div 256 ^ i)) (rev [0..<8])"

text \<open>Dynamic truncation; \<open>None\<close> where the code would index past the end of the digest.\<close>

definition truncate_digest :: "octets \<Rightarrow> 32 word option" where
  "truncate_digest digest =
     (if digest = [] then None
      else let offset = unat (last digest AND 15)
      in if length digest \<le> offset + 3 then None
         else Some (push_bit 24 (ucast (digest ! offset AND 127)) OR push_bit 16 (ucast (digest ! (offset + 1)))
                    OR push_bit 8 (ucast (digest ! (offset + 2))) OR ucast (digest ! (offset + 3))))"

definition hotp :: "(octets \<Rightarrow> octets \<Rightarrow> octets) \<Rightarrow> octets \<Rightarrow> nat \<Rightarrow> nat \<Rightarrow> nat option" where
  "hotp hmac secret counter digits =
     map_option (\<lambda>binary. unat binary mod 10 ^ digits) (truncate_digest (hmac secret (be_bytes64 counter)))"

definition totp :: "(octets \<Rightarrow> octets \<Rightarrow> octets) \<Rightarrow> octets \<Rightarrow> nat \<Rightarrow> nat option" where
  "totp hmac secret now = hotp hmac secret (now div STEP_SECONDS) DIGITS"

text \<open>Zero-padded decimal of at least \<open>w\<close> characters.\<close>

definition pad_zero :: "nat \<Rightarrow> nat \<Rightarrow> rstr" where
  "pad_zero w n = replicate (w - length (show_nat n)) 48 @ show_nat n"

definition totp_verify :: "(octets \<Rightarrow> octets \<Rightarrow> octets) \<Rightarrow> octets \<Rightarrow> nat \<Rightarrow> nat \<Rightarrow> bool" where
  "totp_verify hmac secret code now =
     (let counter = now div STEP_SECONDS
      in list_ex (\<lambda>step. map_option (pad_zero DIGITS) (hotp hmac secret step DIGITS)
                          = Some (pad_zero DIGITS code))
           [counter - SKEW_WINDOW..<counter + SKEW_WINDOW + 1])"

definition BASE32_ALPHABET :: rstr where
  "BASE32_ALPHABET = lit ''ABCDEFGHIJKLMNOPQRSTUVWXYZ234567''"

definition base32_char :: "32 word \<Rightarrow> rchar" where
  "base32_char v = BASE32_ALPHABET ! unat (v AND 31)"

fun emit_symbols :: "32 word \<Rightarrow> nat \<Rightarrow> rstr \<times> nat" where
  "emit_symbols bits nbits =
     (if nbits \<ge> 5 then
        (let n = nbits - 5; (rest, m) = emit_symbols bits n
         in (base32_char (drop_bit n bits) # rest, m))
      else ([], nbits))"

declare emit_symbols.simps [simp del]

fun encode_loop :: "32 word \<Rightarrow> nat \<Rightarrow> octets \<Rightarrow> rstr" where
  "encode_loop bits nbits [] =
     (if nbits > 0 then [base32_char (push_bit (5 - nbits) bits)] else [])"
| "encode_loop bits nbits (byte # bytes) =
     (let bits = push_bit 8 bits OR ucast byte;
          (syms, n) = emit_symbols bits (nbits + 8)
      in syms @ encode_loop bits n bytes)"

definition encode_base32 :: "octets \<Rightarrow> rstr" where
  "encode_base32 bytes = encode_loop 0 0 bytes"

fun position :: "'a \<Rightarrow> 'a list \<Rightarrow> nat option" where
  "position x [] = None"
| "position x (y # ys) = (if y = x then Some 0 else map_option Suc (position x ys))"

fun decode_loop :: "32 word \<Rightarrow> nat \<Rightarrow> rstr \<Rightarrow> octets option" where
  "decode_loop bits nbits [] = Some []"
| "decode_loop bits nbits (ch # chs) =
     (if ch = 61 \<or> ch = 32 then decode_loop bits nbits chs
      else case position (to_upper ch) BASE32_ALPHABET of
        None \<Rightarrow> None
      | Some value \<Rightarrow>
          (let bits = push_bit 5 bits OR word_of_nat value; nbits = nbits + 5
           in if nbits \<ge> 8
              then map_option (\<lambda>out. ucast (drop_bit (nbits - 8) bits) # out)
                     (decode_loop bits (nbits - 8) chs)
              else decode_loop bits nbits chs))"

definition decode_base32_secret :: "rstr \<Rightarrow> octets option" where
  "decode_base32_secret secret = decode_loop 0 0 secret"

subsection \<open>Bit streams\<close>

text \<open>The low \<open>n\<close> bits of a word, most significant first.\<close>

definition low :: "nat \<Rightarrow> 'a::len word \<Rightarrow> bool list" where
  "low n w = map (bit w) (rev [0..<n])"

lemma length_low [simp]: "length (low n w) = n"
  by (simp add: low_def)

lemma low_0 [simp]: "low 0 w = []"
  by (simp add: low_def)

lemma nth_low: "i < n \<Longrightarrow> low n w ! i = bit w (n - 1 - i)"
  by (simp add: low_def rev_nth)

lemma low_append:
  fixes w :: "32 word" and v :: "'a::len word"
  assumes "k + n \<le> 32" and "\<And>i. k \<le> i \<Longrightarrow> \<not> bit v i"
  shows "low (n + k) (push_bit k w OR ucast v) = low n w @ low k v"
proof (rule nth_equalityI)
  fix i assume "i < length (low (n + k) (push_bit k w OR ucast v))"
  then have i: "i < n + k" by simp
  show "low (n + k) (push_bit k w OR ucast v) ! i = (low n w @ low k v) ! i"
  proof (cases "i < n")
    case True
    then have "k \<le> n + k - 1 - i" "n + k - 1 - i - k = n - 1 - i" by auto
    moreover have "n + k - 1 - i < 32" using True assms(1) by simp
    ultimately show ?thesis using True i assms by (simp add: nth_low nth_append bit_simps)
  next
    case False
    then have "n + k - 1 - i = k - 1 - (i - n)" "\<not> k \<le> k - 1 - (i - n)" using i by auto
    then show ?thesis using False i assms(1) by (auto simp: nth_low nth_append bit_simps)
  qed
qed simp

lemma low_split: "low (n + k) w = low n (drop_bit k w) @ low k w"
proof (rule nth_equalityI)
  fix i assume "i < length (low (n + k) w)"
  then show "low (n + k) w ! i = (low n (drop_bit k w) @ low k w) ! i"
    by (auto simp: nth_low nth_append bit_simps add.commute [of k])
qed simp

lemma low_ucast: "n \<le> LENGTH('b::len) \<Longrightarrow> low n (ucast w :: 'b word) = low n w"
  by (auto simp: low_def bit_simps)

lemma low_inj: "low LENGTH('a::len) v = low LENGTH('a) w \<Longrightarrow> v = (w :: 'a word)"
  by (rule bit_word_eqI) (auto simp: low_def)

lemma and_31_take: "(v :: 32 word) AND 31 = take_bit 5 v"
  by (simp add: take_bit_eq_mask mask_numeral)

lemma low_take: "low n (take_bit n w) = low n w"
  by (auto simp: low_def bit_take_bit_iff)

lemma concat_low_inj:
  assumes "concat (map (low 8) xs) @ r = concat (map (low 8) ys) @ q"
    and "length r < 8" "length q < 8"
  shows "xs = (ys :: octets)"
proof -
  have len: "length (concat (map (low 8) zs)) = 8 * length zs" for zs :: octets
    by (induction zs) auto
  have "8 * length xs + length r = 8 * length ys + length q"
    using arg_cong [OF assms(1), of length] by (simp add: len)
  then have l: "length xs = length ys" using assms(2,3) by linarith
  then have "concat (map (low 8) xs) = concat (map (low 8) ys)"
    using assms(1) len [of xs] len [of ys] by (auto simp: append_eq_append_conv)
  then have "map (low 8) xs = map (low 8) ys"
    by (rule concat_injective) (use l in \<open>auto simp: set_zip\<close>)
  then show ?thesis using l low_inj [where 'a = 8]
    by (auto simp: list_eq_iff_nth_eq)
qed

subsection \<open>Encoder and decoder as stream transformers\<close>

lemma position_nth: "distinct xs \<Longrightarrow> i < length xs \<Longrightarrow> position (xs ! i) xs = Some i"
  by (induction xs arbitrary: i) (auto simp: nth_Cons split: nat.split)

lemma alphabet: "distinct BASE32_ALPHABET" "length BASE32_ALPHABET = 32"
    "list_all (\<lambda>c. to_upper c = c \<and> c \<noteq> 61 \<and> c \<noteq> 32) BASE32_ALPHABET"
  by (simp_all add: BASE32_ALPHABET_def lit_def to_upper_def is_lower_def)

lemma and_31: "unat ((v :: 32 word) AND 31) < 32" "word_of_nat (unat (v AND 31)) = v AND 31"
proof -
  show "unat (v AND 31) < 32"
    using take_bit_nat_less_exp [of 5 "unat v"] by (simp add: and_31_take unsigned_take_bit_eq)
qed simp

lemma base32_char_decodes:
  "position (to_upper (base32_char v)) BASE32_ALPHABET = Some (unat (v AND 31))"
  "base32_char v \<noteq> 61" "base32_char v \<noteq> 32"
proof -
  have "base32_char v \<in> set BASE32_ALPHABET"
    using and_31(1) alphabet(2) by (auto simp: base32_char_def)
  then show "base32_char v \<noteq> 61" "base32_char v \<noteq> 32"
    using alphabet(3) by (auto simp: list_all_iff)
  have "to_upper (base32_char v) = base32_char v"
    using \<open>base32_char v \<in> set BASE32_ALPHABET\<close> alphabet(3) by (auto simp: list_all_iff)
  then show "position (to_upper (base32_char v)) BASE32_ALPHABET = Some (unat (v AND 31))"
    using position_nth [OF alphabet(1)] and_31(1) alphabet(2) by (simp add: base32_char_def)
qed

lemma emit_symbols_stream:
  "\<exists>vs. emit_symbols bits nb = (map base32_char vs, nb mod 5)
     \<and> concat (map (low 5) vs) @ low (nb mod 5) bits = low nb bits"
proof (induction bits nb rule: emit_symbols.induct)
  case (1 bits nb)
  show ?case
  proof (cases "nb \<ge> 5")
    case True
    then obtain vs where vs: "emit_symbols bits (nb - 5) = (map base32_char vs, (nb - 5) mod 5)"
        "concat (map (low 5) vs) @ low ((nb - 5) mod 5) bits = low (nb - 5) bits"
      using 1 by blast
    have "low nb bits = low 5 (drop_bit (nb - 5) bits) @ low (nb - 5) bits"
      using low_split [of 5 "nb - 5" bits] True by simp
    then show ?thesis
      using vs True by (intro exI [of _ "drop_bit (nb - 5) bits # vs"])
        (simp add: emit_symbols.simps [of bits nb] le_mod_geq Let_def)
  qed (simp add: emit_symbols.simps [of bits nb])
qed

lemma encode_loop_stream:
  "n < 5 \<Longrightarrow> \<exists>vs pad. encode_loop bits n bytes = map base32_char vs \<and> pad < 5
     \<and> concat (map (low 5) vs) = low n bits @ concat (map (low 8) bytes) @ replicate pad False"
proof (induction bytes arbitrary: bits n)
  case Nil
  have "low 5 (push_bit (5 - n) bits) = low n bits @ replicate (5 - n) False" if "n > 0"
    using Nil that by (intro nth_equalityI) (auto simp: nth_low nth_append bit_simps)
  with Nil show ?case
    by (cases "n > 0") (force intro: exI [of _ "[push_bit (5 - n) bits]"] exI [of _ "5 - n"])+
next
  case (Cons byte bytes)
  define b where "b = push_bit 8 bits OR ucast byte"
  obtain ws where ws: "emit_symbols b (n + 8) = (map base32_char ws, (n + 8) mod 5)"
      "concat (map (low 5) ws) @ low ((n + 8) mod 5) b = low (n + 8) b"
    using emit_symbols_stream by blast
  have b: "low (n + 8) b = low n bits @ low 8 byte"
    unfolding b_def using Cons.prems by (intro low_append) (auto dest: bit_imp_le_length)
  obtain vs pad where vs: "encode_loop b ((n + 8) mod 5) bytes = map base32_char vs" "pad < 5"
      "concat (map (low 5) vs) = low ((n + 8) mod 5) b @ concat (map (low 8) bytes) @ replicate pad False"
    using Cons.IH [of "(n + 8) mod 5" b] by auto
  have "encode_loop bits n (byte # bytes) = map base32_char (ws @ vs)"
    using ws(1) vs(1) by (simp add: b_def)
  moreover have "concat (map (low 5) (ws @ vs))
      = low n bits @ concat (map (low 8) (byte # bytes)) @ replicate pad False"
    using ws(2) vs(3) b by (simp flip: append_assoc)
  ultimately show ?case using vs(2) by blast
qed

lemma decode_loop_step:
  "decode_loop bits n (base32_char v # chs) =
     (let bits = push_bit 5 bits OR take_bit 5 v; n = n + 5
      in if n \<ge> 8 then map_option (\<lambda>out. ucast (drop_bit (n - 8) bits) # out) (decode_loop bits (n - 8) chs)
         else decode_loop bits n chs)"
  using base32_char_decodes [of v] and_31(2) [of v]
  by (simp add: Let_def and_31_take)

lemma low_append_symbol:
  "n < 8 \<Longrightarrow> low (n + 5) (push_bit 5 bits OR take_bit 5 (v :: 32 word)) = low n bits @ low 5 v"
  using low_append [of 5 n "take_bit 5 v" bits] by (simp add: bit_take_bit_iff low_take)

lemma decode_loop_stream:
  "n < 8 \<Longrightarrow> \<exists>out rest. decode_loop bits n (map base32_char vs) = Some out \<and> length rest < 8
     \<and> low n bits @ concat (map (low 5) vs) = concat (map (low 8) out) @ rest"
proof (induction vs arbitrary: bits n)
  case Nil
  then show ?case by (intro exI [of _ "[]"] exI [of _ "low n bits"]) simp
next
  case (Cons v vs)
  define b where "b = push_bit 5 bits OR take_bit 5 v"
  have b: "low (n + 5) b = low n bits @ low 5 v"
    unfolding b_def by (rule low_append_symbol [OF Cons.prems])
  show ?case
  proof (cases "n + 5 \<ge> 8")
    case True
    obtain out rest where ih: "decode_loop b (n + 5 - 8) (map base32_char vs) = Some out" "length rest < 8"
        "low (n + 5 - 8) b @ concat (map (low 5) vs) = concat (map (low 8) out) @ rest"
      using Cons.IH [of "n + 5 - 8" b] less_imp_diff_less [OF Cons.prems] by force
    have "low (n + 5) b = low 8 (drop_bit (n + 5 - 8) b) @ low (n + 5 - 8) b"
      using low_split [of 8 "n + 5 - 8" b] True by (simp add: add.commute [of n])
    then have "low n bits @ concat (map (low 5) (v # vs))
        = concat (map (low 8) (ucast (drop_bit (n + 5 - 8) b) # out)) @ rest"
      using b ih(3) low_ucast [where 'b = 8, of 8 "drop_bit (n + 5 - 8) b"]
      by simp (metis append_assoc)
    moreover have "decode_loop bits n (map base32_char (v # vs))
        = Some (ucast (drop_bit (n + 5 - 8) b) # out)"
      using True ih(1) by (simp add: decode_loop_step b_def del: decode_loop.simps)
    ultimately show ?thesis using ih(2) by blast
  next
    case False
    then obtain out rest where ih: "decode_loop b (n + 5) (map base32_char vs) = Some out" "length rest < 8"
        "low (n + 5) b @ concat (map (low 5) vs) = concat (map (low 8) out) @ rest"
      using Cons.IH [of "n + 5" b] by auto
    then show ?thesis
      using False b by (intro exI [of _ out] exI [of _ rest])
        (simp add: decode_loop_step b_def del: decode_loop.simps)
  qed
qed

subsection \<open>Properties\<close>

text \<open>C20: Decoding the base32 form of any secret gives the secret back, whatever its length.\<close>

theorem base32_round_trip: "decode_base32_secret (encode_base32 bytes) = Some bytes"
proof -
  obtain vs pad where vs: "encode_base32 bytes = map base32_char vs" "pad < 5"
      "concat (map (low 5) vs) = concat (map (low 8) bytes) @ replicate pad False"
    using encode_loop_stream [of 0 0 bytes] by (auto simp: encode_base32_def)
  obtain out rest where "decode_base32_secret (map base32_char vs) = Some out" "length rest < 8"
      "concat (map (low 5) vs) = concat (map (low 8) out) @ rest"
    using decode_loop_stream [of 0 0 vs] by (auto simp: decode_base32_secret_def)
  then show ?thesis
    using vs concat_low_inj [of out rest bytes "replicate pad False"] by simp
qed

lemma digits_value_zeros: "digits_value (replicate k 48 @ s) = digits_value s"
  by (induction k) (auto simp: digits_value_def)

lemma digits_value_pad_zero: "digits_value (pad_zero w n) = n"
  by (simp add: pad_zero_def digits_value_zeros digits_value_show_nat)

lemma pad_zero_inj: "pad_zero w m = pad_zero w n \<longleftrightarrow> m = n"
  by (metis digits_value_pad_zero)

lemma step_window: "s \<in> {n - 1..n + 1} \<longleftrightarrow> s \<le> n + 1 \<and> n \<le> s + (1 :: nat)"
  by auto

text \<open>A code is accepted at a moment exactly when it is the code of some moment in the same
  30-second step or in one of the two adjacent ones.\<close>

theorem totp_window:
  "totp_verify hmac secret code now \<longleftrightarrow>
     (\<exists>t. totp hmac secret t = Some code
        \<and> t div STEP_SECONDS \<le> now div STEP_SECONDS + SKEW_WINDOW
        \<and> now div STEP_SECONDS \<le> t div STEP_SECONDS + SKEW_WINDOW)"
proof -
  have "totp_verify hmac secret code now \<longleftrightarrow>
      (\<exists>s\<in>{now div STEP_SECONDS - 1..now div STEP_SECONDS + 1}. hotp hmac secret s DIGITS = Some code)"
    by (auto simp: totp_verify_def list_ex_iff SKEW_WINDOW_def pad_zero_inj Let_def)
  also have "\<dots> \<longleftrightarrow> (\<exists>s. hotp hmac secret s DIGITS = Some code
      \<and> s \<le> now div STEP_SECONDS + 1 \<and> now div STEP_SECONDS \<le> s + 1)"
    unfolding Bex_def step_window by blast
  also have "\<dots> \<longleftrightarrow> (\<exists>t. hotp hmac secret (t div STEP_SECONDS) DIGITS = Some code
      \<and> t div STEP_SECONDS \<le> now div STEP_SECONDS + 1 \<and> now div STEP_SECONDS \<le> t div STEP_SECONDS + 1)"
  proof -
    have "\<exists>t. t div STEP_SECONDS = s" for s
      by (rule exI [of _ "STEP_SECONDS * s"]) (simp add: STEP_SECONDS_def)
    then show ?thesis by metis
  qed
  finally show ?thesis by (simp add: totp_def SKEW_WINDOW_def)
qed

text \<open>A digest of SHA-1's twenty octets is never indexed out of range, so a code always exists.\<close>

lemma hotp_total:
  assumes "\<And>k m. length (hmac k m) = 20"
  shows "\<exists>code < 10 ^ digits. hotp hmac secret counter digits = Some code"
proof -
  have "unat (last d AND 15) \<le> 15" for d :: octets
    using word_and_le1 [of "last d" 15] by (simp add: word_le_nat_alt)
  then have "\<not> length (hmac k m) \<le> unat (last (hmac k m) AND 15) + 3" "hmac k m \<noteq> []" for k m
    using assms [of k m] le_less_trans [of "unat (last (hmac k m) AND 15)" 15 17]
    by (simp_all flip: length_greater_0_conv)
  then have "truncate_digest (hmac k m) \<noteq> None" for k m
    by (simp add: truncate_digest_def Let_def)
  then obtain z where "truncate_digest (hmac secret (be_bytes64 counter)) = Some z" by blast
  then show ?thesis by (intro exI [of _ "unat z mod 10 ^ digits"]) (simp add: hotp_def)
qed

end
