(* ===== verification/Ban_Store.thy ===== *)
theory Ban_Store
  imports Net_Cidr "HOL-Library.AList"
begin

section \<open>The shared ban store\<close>

text \<open>
  \<^verbatim>\<open>src/src/antispam/bans/mod.rs\<close> (policy and subjects) and \<^verbatim>\<open>src/src/antispam/bans/sql/mod.rs\<close> with
  \<^verbatim>\<open>admin/mod.rs\<close> (the PostgreSQL store). A table is a list of rows; every statement of the code is the
  list operation its SQL says, and a transaction is one definition. \<open>bs_up\<close> says whether the database
  answers: when it does not, a check fails open, a lookup of a known network fails closed, and a write
  is lost, as in the code. A subject string such as \<^verbatim>\<open>pair:ann|192.0.2.1\<close> is the constructor it is
  formatted from.
\<close>

subsection \<open>Policy and subjects\<close>

record ban_policy =
  bp_window_secs :: nat
  bp_threshold :: nat
  bp_base_secs :: nat
  bp_max_secs :: nat
  bp_known_network_window_secs :: nat
  bp_known_network_max_per_account :: nat

definition KNOWN_NETWORK_WRITE_THROTTLE_SECS :: nat where
  "KNOWN_NETWORK_WRITE_THROTTLE_SECS = 60 * 60"

definition ban_policy_default :: ban_policy where
  "ban_policy_default = \<lparr>bp_window_secs = 15 * 60, bp_threshold = 5, bp_base_secs = 15 * 60,
     bp_max_secs = 24 * 60 * 60, bp_known_network_window_secs = 30 * 24 * 60 * 60,
     bp_known_network_max_per_account = 32\<rparr>"

definition ACCOUNT_THRESHOLD_FACTOR :: nat where
  "ACCOUNT_THRESHOLD_FACTOR = 4"

datatype subject =
  SubIp ipaddr
| SubCidr cidr
| SubPair rstr "ipaddr option"
| SubAccount rstr

definition ban_client_key :: "ipaddr \<Rightarrow> ipaddr" where
  "ban_client_key ip = (case ip of V4 a \<Rightarrow> V4 a | V6 a \<Rightarrow> V6 (push_bit 64 (drop_bit 64 a)))"

definition subject_ip :: "ipaddr \<Rightarrow> subject" where
  "subject_ip ip = SubIp ip"

definition subject_client :: "ipaddr \<Rightarrow> subject" where
  "subject_client ip = SubIp (ban_client_key ip)"

definition subject_pair :: "rstr \<Rightarrow> ipaddr option \<Rightarrow> subject" where
  "subject_pair account ip = SubPair (ascii_lower account) (map_option ban_client_key ip)"

definition subject_account :: "rstr \<Rightarrow> subject" where
  "subject_account account = SubAccount (ascii_lower account)"

definition threshold_for :: "ban_policy \<Rightarrow> subject \<Rightarrow> nat" where
  "threshold_for p s = (case s of
       SubAccount _ \<Rightarrow> sat_mul u32_max (bp_threshold p) ACCOUNT_THRESHOLD_FACTOR
     | _ \<Rightarrow> bp_threshold p)"

definition duration_for :: "ban_policy \<Rightarrow> nat \<Rightarrow> nat" where
  "duration_for p strikes =
     min (sat_mul u64_max (bp_base_secs p) (2 ^ min (strikes - 1) 20)) (bp_max_secs p)"

subsection \<open>The tables\<close>

record ban_info =
  bi_until_secs :: nat
  bi_reason :: rstr

record ban_row =
  br_strikes :: nat
  br_until :: nat
  br_reason :: rstr

record ban_store =
  bs_policy :: ban_policy
  bs_up :: bool
  bs_failures :: "(subject \<times> rstr \<times> nat) list"
  bs_bans :: "(subject \<times> ban_row) list"
  bs_allow :: "rstr list"
  bs_known :: "((rstr \<times> ipaddr) \<times> nat) list"

definition MANUAL_REASON :: rstr where
  "MANUAL_REASON = lit ''manual ban''"

definition is_allowed :: "ipaddr \<Rightarrow> rstr list \<Rightarrow> bool" where
  "is_allowed ip entries =
     list_ex (\<lambda>e. case cidr_parse e of None \<Rightarrow> False | Some c \<Rightarrow> cidr_contains c ip) entries"

definition ip_allowed :: "ban_store \<Rightarrow> ipaddr \<Rightarrow> bool" where
  "ip_allowed s ip = (bs_up s \<and> is_allowed ip (bs_allow s))"

definition ban_applies :: "subject \<Rightarrow> ipaddr \<Rightarrow> bool" where
  "ban_applies sub ip = (case sub of
      SubCidr c \<Rightarrow> cidr_contains c ip | SubIp i \<Rightarrow> i = ip | _ \<Rightarrow> False)"

text \<open>\<^verbatim>\<open>max_by_key\<close> keeps the last of equal rows.\<close>

definition latest_ban :: "ban_row list \<Rightarrow> ban_info option" where
  "latest_ban rows = fold (\<lambda>r acc. case acc of
       None \<Rightarrow> Some \<lparr>bi_until_secs = br_until r, bi_reason = br_reason r\<rparr>
     | Some b \<Rightarrow> if bi_until_secs b \<le> br_until r
                 then Some \<lparr>bi_until_secs = br_until r, bi_reason = br_reason r\<rparr> else Some b) rows None"

definition is_ip_banned :: "ban_store \<Rightarrow> ipaddr \<Rightarrow> nat \<Rightarrow> ban_info option" where
  "is_ip_banned s ip now =
     (if \<not> bs_up s then None
      else if is_allowed ip (bs_allow s) then None
      else latest_ban (map snd
        (filter (\<lambda>(sub, r). now < br_until r \<and> ban_applies sub ip) (bs_bans s))))"

definition is_banned :: "ban_store \<Rightarrow> subject \<Rightarrow> nat \<Rightarrow> ban_info option" where
  "is_banned s sub now = (case sub of
       SubIp ip \<Rightarrow> is_ip_banned s ip now
     | _ \<Rightarrow>
        if \<not> bs_up s then None
        else (case map_of (bs_bans s) sub of
                None \<Rightarrow> None
              | Some r \<Rightarrow>
                  if now < br_until r
                  then Some \<lparr>bi_until_secs = br_until r, bi_reason = br_reason r\<rparr> else None))"

definition failure_count :: "ban_store \<Rightarrow> subject \<Rightarrow> nat \<Rightarrow> nat" where
  "failure_count s sub start =
     length (filter (\<lambda>(x, _, seen_at). x = sub \<and> start \<le> seen_at) (bs_failures s))"

text \<open>Strikes are stored as a 32-bit signed column: a value that does not fit reads as none.\<close>

definition next_strikes :: "ban_store \<Rightarrow> subject \<Rightarrow> nat" where
  "next_strikes s sub =
     sat_add u32_max (case map_of (bs_bans s) sub of
         None \<Rightarrow> 0 | Some r \<Rightarrow> if br_strikes r < 2 ^ 31 then br_strikes r else 0) 1"

definition fire_ban :: "ban_store \<Rightarrow> subject \<Rightarrow> nat \<Rightarrow> ban_store" where
  "fire_ban s sub now =
     (let strikes = next_strikes s sub;
          row = \<lparr>br_strikes = strikes,
                 br_until = sat_add u64_max now (duration_for (bs_policy s) strikes),
                 br_reason = show_nat (threshold_for (bs_policy s) sub)
                   @ lit '' failed authentications in ''
                   @ show_nat (bp_window_secs (bs_policy s)) @ lit '' seconds''\<rparr>
      in s\<lparr>bs_bans := AList.update sub row (bs_bans s)\<rparr>)"

definition record_failure :: "ban_store \<Rightarrow> subject \<Rightarrow> rstr \<Rightarrow> nat \<Rightarrow> ban_store" where
  "record_failure s sub protocol now =
     (if (case sub of SubIp ip \<Rightarrow> ip_allowed s ip | _ \<Rightarrow> False) then s
      else if \<not> bs_up s then s
      else let s' = s\<lparr>bs_failures := (sub, protocol, now) # bs_failures s\<rparr>
      in if threshold_for (bs_policy s) sub \<le> failure_count s' sub (now - bp_window_secs (bs_policy s))
         then fire_ban s' sub now else s')"

definition clear_success :: "ban_store \<Rightarrow> subject \<Rightarrow> nat \<Rightarrow> ban_store" where
  "clear_success s sub now =
     (if \<not> bs_up s then s
      else if (case map_of (bs_bans s) sub of None \<Rightarrow> False | Some r \<Rightarrow> now < br_until r) then s
      else s\<lparr>bs_bans := AList.delete sub (bs_bans s),
             bs_failures := filter (\<lambda>(x, _, _). x \<noteq> sub) (bs_failures s)\<rparr>)"

definition sweep :: "ban_store \<Rightarrow> nat \<Rightarrow> ban_store" where
  "sweep s now =
     (if \<not> bs_up s then s
      else s\<lparr>bs_failures := filter (\<lambda>(_, _, seen_at). now - 24 * 60 * 60 \<le> seen_at) (bs_failures s),
             bs_bans := filter (\<lambda>(_, r). now - 24 * 60 * 60 \<le> br_until r) (bs_bans s),
             bs_known := filter (\<lambda>(_, seen). now - bp_known_network_window_secs (bs_policy s) \<le> seen)
                           (bs_known s)\<rparr>)"

definition remove_account :: "ban_store \<Rightarrow> rstr \<Rightarrow> ban_store" where
  "remove_account s account =
     (let keep = (\<lambda>sub. sub \<noteq> subject_account account
                    \<and> (case sub of SubPair a _ \<Rightarrow> a \<noteq> ascii_lower account | _ \<Rightarrow> True))
      in if \<not> bs_up s then s
         else s\<lparr>bs_bans := filter (\<lambda>(sub, _). keep sub) (bs_bans s),
                bs_failures := filter (\<lambda>(sub, _, _). keep sub) (bs_failures s),
                bs_known := filter (\<lambda>((a, _), _). a \<noteq> ascii_lower account) (bs_known s)\<rparr>)"

definition is_known_network :: "ban_store \<Rightarrow> rstr \<Rightarrow> ipaddr \<Rightarrow> nat \<Rightarrow> bool" where
  "is_known_network s account ip now =
     (bs_up s \<and> (case map_of (bs_known s) (ascii_lower account, ban_client_key ip) of
        None \<Rightarrow> False
      | Some last_seen \<Rightarrow> now - bp_known_network_window_secs (bs_policy s) \<le> last_seen))"

text \<open>The rows of one account ranked by \<^verbatim>\<open>last_seen DESC\<close>; only the first \<open>cap\<close> stay.\<close>

definition evict_known :: "nat \<Rightarrow> rstr \<Rightarrow> ((rstr \<times> ipaddr) \<times> nat) list \<Rightarrow> ((rstr \<times> ipaddr) \<times> nat) list" where
  "evict_known cap account rows =
     (let mine = rev (sort_key snd (filter (\<lambda>r. fst (fst r) = account) rows))
      in filter (\<lambda>r. fst (fst r) \<noteq> account \<or> r \<in> set (take cap mine)) rows)"

definition record_known_network :: "ban_store \<Rightarrow> rstr \<Rightarrow> ipaddr \<Rightarrow> nat \<Rightarrow> ban_store" where
  "record_known_network s account ip now =
     (if \<not> bs_up s then s
      else let k = (ascii_lower account, ban_client_key ip);
               rows = (case map_of (bs_known s) k of
                   None \<Rightarrow> AList.update k now (bs_known s)
                 | Some last_seen \<Rightarrow>
                     if last_seen + KNOWN_NETWORK_WRITE_THROTTLE_SECS \<le> now
                     then AList.update k now (bs_known s) else bs_known s)
      in s\<lparr>bs_known := evict_known (bp_known_network_max_per_account (bs_policy s))
                            (ascii_lower account) rows\<rparr>)"

text \<open>The operator's side reports a database error instead of failing open.\<close>

definition add_ban :: "ban_store \<Rightarrow> subject \<Rightarrow> nat \<Rightarrow> ban_store option" where
  "add_ban s sub until =
     (if \<not> bs_up s then None
      else let strikes = (case map_of (bs_bans s) sub of None \<Rightarrow> 1 | Some r \<Rightarrow> br_strikes r)
      in Some (s\<lparr>bs_bans := AList.update sub
                 \<lparr>br_strikes = strikes, br_until = until, br_reason = MANUAL_REASON\<rparr> (bs_bans s)\<rparr>))"

definition remove_ban :: "ban_store \<Rightarrow> subject list \<Rightarrow> ban_store option" where
  "remove_ban s subs =
     (if \<not> bs_up s then None
      else Some (s\<lparr>bs_bans := filter (\<lambda>(sub, _). sub \<notin> set subs) (bs_bans s),
                   bs_failures := filter (\<lambda>(sub, _, _). sub \<notin> set subs) (bs_failures s)\<rparr>))"

subsection \<open>The contract of the store\<close>

text \<open>What the sign-in paths rely on: no outcome of a sign-in lifts a ban that is in force.\<close>

locale ban_contract =
  fixes banned :: "'s \<Rightarrow> subject \<Rightarrow> nat \<Rightarrow> bool"
    and fail :: "'s \<Rightarrow> subject \<Rightarrow> rstr \<Rightarrow> nat \<Rightarrow> 's"
    and clear :: "'s \<Rightarrow> subject \<Rightarrow> nat \<Rightarrow> 's"
    and known :: "'s \<Rightarrow> rstr \<Rightarrow> ipaddr \<Rightarrow> nat \<Rightarrow> 's"
    and ok :: "'s \<Rightarrow> bool"
  assumes fail_ok: "ok s \<Longrightarrow> ok (fail s y p now)"
    and clear_ok: "ok s \<Longrightarrow> ok (clear s y now)"
    and known_ok: "ok s \<Longrightarrow> ok (known s a ip now)"
    and fail_keeps: "ok s \<Longrightarrow> now < u64_max \<Longrightarrow> banned s x now \<Longrightarrow> banned (fail s y p now) x now"
    and clear_keeps: "ok s \<Longrightarrow> banned s x now \<Longrightarrow> banned (clear s y now) x now"
    and known_keeps: "banned (known s a ip t) x now = banned s x now"
begin

lemma fails_keep:
  "ok s \<Longrightarrow> now < u64_max \<Longrightarrow> banned s x now \<Longrightarrow>
   ok (fold (\<lambda>y s. fail s y p now) ys s) \<and> banned (fold (\<lambda>y s. fail s y p now) ys s) x now"
  by (induction ys arbitrary: s) (auto intro: fail_ok fail_keeps)

lemma clears_keep:
  "ok s \<Longrightarrow> banned s x now \<Longrightarrow>
   ok (fold (\<lambda>y s. clear s y now) ys s) \<and> banned (fold (\<lambda>y s. clear s y now) ys s) x now"
  by (induction ys arbitrary: s) (auto intro: clear_ok clear_keeps)

end

definition ban_in_force :: "ban_store \<Rightarrow> subject \<Rightarrow> nat \<Rightarrow> bool" where
  "ban_in_force s sub now \<longleftrightarrow> is_banned s sub now \<noteq> None"

definition store_ok :: "ban_store \<Rightarrow> bool" where
  "store_ok s \<longleftrightarrow> distinct (map fst (bs_bans s)) \<and> 0 < bp_base_secs (bs_policy s)
     \<and> 0 < bp_max_secs (bs_policy s)"

lemma latest_ban_None [simp]: "latest_ban rows = None \<longleftrightarrow> rows = []"
proof -
  have "fold (\<lambda>r acc. case acc of
       None \<Rightarrow> Some \<lparr>bi_until_secs = br_until r, bi_reason = br_reason r\<rparr>
     | Some b \<Rightarrow> if bi_until_secs b \<le> br_until r
                 then Some \<lparr>bi_until_secs = br_until r, bi_reason = br_reason r\<rparr> else Some b) rows acc
     = None \<longleftrightarrow> rows = [] \<and> acc = None" for acc
    by (induction rows arbitrary: acc) (auto split: option.split)
  then show ?thesis by (simp add: latest_ban_def)
qed

text \<open>A ban in force is an active row that applies to the subject.\<close>

definition row_for :: "subject \<Rightarrow> subject \<Rightarrow> bool" where
  "row_for sub row \<longleftrightarrow> (case sub of SubIp ip \<Rightarrow> ban_applies row ip | _ \<Rightarrow> row = sub)"

definition exempt :: "rstr list \<Rightarrow> subject \<Rightarrow> bool" where
  "exempt allow sub \<longleftrightarrow> (case sub of SubIp ip \<Rightarrow> is_allowed ip allow | _ \<Rightarrow> False)"

lemma in_force_iff:
  assumes "distinct (map fst (bs_bans s))"
  shows "ban_in_force s sub now \<longleftrightarrow> bs_up s \<and> \<not> exempt (bs_allow s) sub
    \<and> (\<exists>row r. map_of (bs_bans s) row = Some r \<and> now < br_until r \<and> row_for sub row)"
proof (cases sub)
  case (SubIp ip)
  have "ban_in_force s sub now \<longleftrightarrow> bs_up s \<and> \<not> is_allowed ip (bs_allow s)
      \<and> (\<exists>row r. (row, r) \<in> set (bs_bans s) \<and> now < br_until r \<and> ban_applies row ip)"
    unfolding ban_in_force_def is_banned_def SubIp subject.case is_ip_banned_def
    by (simp add: filter_empty_conv del: not_None_eq) blast
  then show ?thesis using assms by (simp add: SubIp exempt_def row_for_def)
qed (auto simp: ban_in_force_def is_banned_def exempt_def row_for_def
      simp del: map_of_eq_Some_iff split: option.split)

lemma duration_pos: "0 < bp_base_secs p \<Longrightarrow> 0 < bp_max_secs p \<Longrightarrow> 0 < duration_for p n"
  by (simp add: duration_for_def sat_mul_def u64_max_def)

lemma fire_ban_row:
  "map_of (bs_bans (fire_ban s sub now)) =
   (map_of (bs_bans s))(sub \<mapsto> \<lparr>br_strikes = next_strikes s sub,
      br_until = sat_add u64_max now (duration_for (bs_policy s) (next_strikes s sub)),
      br_reason = show_nat (threshold_for (bs_policy s) sub) @ lit '' failed authentications in ''
        @ show_nat (bp_window_secs (bs_policy s)) @ lit '' seconds''\<rparr>)"
  by (simp add: fire_ban_def Let_def update_conv')

lemma fire_ban_fields [simp]:
  "bs_policy (fire_ban s sub now) = bs_policy s" "bs_up (fire_ban s sub now) = bs_up s"
  "bs_failures (fire_ban s sub now) = bs_failures s" "bs_allow (fire_ban s sub now) = bs_allow s"
  "bs_known (fire_ban s sub now) = bs_known s"
  by (simp_all add: fire_ban_def Let_def)

lemma record_failure_fields [simp]:
  "bs_policy (record_failure s sub p now) = bs_policy s" "bs_up (record_failure s sub p now) = bs_up s"
  "bs_allow (record_failure s sub p now) = bs_allow s" "bs_known (record_failure s sub p now) = bs_known s"
  by (simp_all add: record_failure_def Let_def)

lemma fire_ban_distinct:
  "distinct (map fst (bs_bans s)) \<Longrightarrow> distinct (map fst (bs_bans (fire_ban s sub now)))"
  by (simp add: fire_ban_def Let_def distinct_update)

lemma record_failure_ok: "store_ok s \<Longrightarrow> store_ok (record_failure s sub p now)"
  unfolding store_ok_def record_failure_fields
  by (simp add: record_failure_def Let_def fire_ban_distinct)

lemma record_failure_rows:
  assumes "store_ok s" "now < u64_max" "map_of (bs_bans s) x = Some r" "now < br_until r"
  shows "\<exists>r'. map_of (bs_bans (record_failure s sub p now)) x = Some r' \<and> now < br_until r'"
proof -
  have "now < sat_add u64_max now (duration_for (bs_policy s) n)" for n
    using assms(1,2) duration_pos [of "bs_policy s" n] by (auto simp: store_ok_def sat_add_def)
  then show ?thesis
    using assms(3,4) by (auto simp: record_failure_def Let_def fire_ban_row)
qed

lemma clear_success_rows:
  "map_of (bs_bans s) x = Some r \<Longrightarrow> now < br_until r \<Longrightarrow>
   map_of (bs_bans (clear_success s sub now)) x = Some r"
  by (auto simp: clear_success_def delete_conv' split: option.split)

lemma clear_success_fields [simp]:
  "bs_policy (clear_success s sub now) = bs_policy s" "bs_up (clear_success s sub now) = bs_up s"
  "bs_allow (clear_success s sub now) = bs_allow s" "bs_known (clear_success s sub now) = bs_known s"
  by (simp_all add: clear_success_def)

lemma clear_success_ok: "store_ok s \<Longrightarrow> store_ok (clear_success s sub now)"
  by (simp add: store_ok_def clear_success_def distinct_delete)

lemma record_known_fields [simp]:
  "bs_policy (record_known_network s a ip now) = bs_policy s"
  "bs_up (record_known_network s a ip now) = bs_up s"
  "bs_failures (record_known_network s a ip now) = bs_failures s"
  "bs_bans (record_known_network s a ip now) = bs_bans s"
  "bs_allow (record_known_network s a ip now) = bs_allow s"
  by (simp_all add: record_known_network_def Let_def)

interpretation pg: ban_contract ban_in_force record_failure clear_success record_known_network store_ok
proof
  fix s y p now a ip x t
  show "store_ok s \<Longrightarrow> store_ok (record_failure s y p now)" by (rule record_failure_ok)
  show "store_ok s \<Longrightarrow> store_ok (clear_success s y now)" by (rule clear_success_ok)
  show "store_ok s \<Longrightarrow> store_ok (record_known_network s a ip now)" by (simp add: store_ok_def)
  show "ban_in_force (record_failure s y p now) x now"
    if "store_ok s" "now < u64_max" "ban_in_force s x now"
  proof -
    have "distinct (map fst (bs_bans (record_failure s y p now)))" "distinct (map fst (bs_bans s))"
      using record_failure_ok [OF that(1)] that(1) by (simp_all add: store_ok_def)
    then show ?thesis
      using that(3) record_failure_rows [OF that(1,2)]
      by (simp add: in_force_iff del: map_of_eq_Some_iff) blast
  qed
  show "ban_in_force (clear_success s y now) x now" if "store_ok s" "ban_in_force s x now"
  proof -
    have "distinct (map fst (bs_bans (clear_success s y now)))" "distinct (map fst (bs_bans s))"
      using clear_success_ok [OF that(1)] that(1) by (simp_all add: store_ok_def)
    then show ?thesis
      using that(2) clear_success_rows by (simp add: in_force_iff del: map_of_eq_Some_iff) blast
  qed
  show "ban_in_force (record_known_network s a ip t) x now = ban_in_force s x now"
    by (simp add: ban_in_force_def is_banned_def is_ip_banned_def split: subject.split)
qed

end
