(* ===== verification/Auth_Gate.thy ===== *)
theory Auth_Gate
  imports Directory Ban_Store Totp
begin

section \<open>The authentication gate of the directory\<close>

text \<open>
  The password side of the directory: the rules every proof of identity passes
  (\<^verbatim>\<open>src/src/smtp/directory/gate.rs\<close>), the local credential check (\<^verbatim>\<open>local.rs\<close>), the ban-aware entry
  point (\<^verbatim>\<open>bans.rs\<close>) and the app passwords (\<^verbatim>\<open>src/src/directory_store/app_passwords/mod.rs\<close>). The crates
  behind it are the record \<open>auth_env\<close>: the argon2id verifier, the NFKC normaliser, HMAC-SHA1, the live
  LDAP bind and the keyed hash of a stand-in account. A check returns, beside its result, how many
  argon2id hashes it ran, because the code pads a refusal to a fixed number of them.
\<close>

subsection \<open>The code\<close>

record auth_env =
  ae_unicode :: unicode_ops
  ae_verify_password :: "rstr \<Rightarrow> rstr \<Rightarrow> bool"
  ae_unicode_passwords :: bool
  ae_nfkc :: "rstr \<Rightarrow> rstr"
  ae_hmac_sha1 :: "octets \<Rightarrow> octets \<Rightarrow> octets"
  ae_ldap :: "(rstr \<Rightarrow> rstr \<Rightarrow> rstr option) option"
  ae_decoy_tag :: "rstr \<Rightarrow> rstr"

datatype proof_kind = ProofPassword | ProofScram | ProofFederated | ProofBearer

datatype verdict = Admitted rstr "rstr option" | Refused | Busy

datatype ban_outcome = Clear "rstr option" | Banned | BannedButKnown rstr

definition is_disabled :: "directory \<Rightarrow> rstr \<Rightarrow> bool" where
  "is_disabled d account \<longleftrightarrow> ascii_lower account \<in> set (d_disabled d)"

definition is_protocol_allowed :: "directory \<Rightarrow> rstr \<Rightarrow> protocol \<Rightarrow> bool" where
  "is_protocol_allowed d account p =
     (case map_of (d_allowed_protocols d) (ascii_lower account) of
        None \<Rightarrow> True | Some ps \<Rightarrow> p \<in> set ps)"

definition admit_login :: "directory \<Rightarrow> rstr \<Rightarrow> protocol \<Rightarrow> proof_kind \<Rightarrow> bool" where
  "admit_login d account p proof =
     (let account = ascii_lower account
      in if account \<in> set (d_disabled d) then False
         else if \<not> is_protocol_allowed d account p then False
         else \<not> (proof \<in> {ProofScram, ProofBearer} \<and> map_of (d_totp d) account \<noteq> None))"

definition bearer_proof :: "bool option \<Rightarrow> proof_kind" where
  "bearer_proof second_factor_attested =
     (case second_factor_attested of Some True \<Rightarrow> ProofFederated | _ \<Rightarrow> ProofBearer)"

definition login_form :: "auth_env \<Rightarrow> rstr \<Rightarrow> rstr" where
  "login_form E password = (if ae_unicode_passwords E then ae_nfkc E password else password)"

definition app_admits :: "auth_env \<Rightarrow> app_password \<Rightarrow> rstr \<Rightarrow> ipaddr option \<Rightarrow> nat \<Rightarrow> bool" where
  "app_admits E app password client_ip now =
     (let hash_ok = ae_verify_password E (ap_hash app) (login_form E password);
          time_ok = (case ap_expires_at app of None \<Rightarrow> True | Some expiry \<Rightarrow> now < expiry);
          ip_ok = (case ap_ip_cidr app of
              None \<Rightarrow> True
            | Some spec \<Rightarrow>
                (case (cidr_parse spec, client_ip) of
                   (Some c, Some ip) \<Rightarrow> cidr_contains c ip | _ \<Rightarrow> False))
      in hash_ok \<and> time_ok \<and> ip_ok)"

text \<open>The last six octets are digits exactly when the last six characters are.\<close>

definition totp_strip :: "auth_env \<Rightarrow> rstr \<Rightarrow> rstr \<Rightarrow> nat \<Rightarrow> rstr option" where
  "totp_strip E password secret now =
     (let split = length password - 6; pass = take split password; code = drop split password
      in if slen password < 7 \<or> length password < 6 \<or> \<not> list_all is_digit code then None
         else case decode_base32_secret secret of
           None \<Rightarrow> None
         | Some bytes \<Rightarrow>
             if totp_verify (ae_hmac_sha1 E) bytes (digits_value code) now then Some pass else None)"

text \<open>Stand-in hashes that bring a refusal from \<open>performed\<close> up to the common total.\<close>

definition burn_refusal :: "directory \<Rightarrow> nat \<Rightarrow> nat" where
  "burn_refusal d performed = 1 + d_max_app_passwords d - performed"

type_synonym local_result = "(rstr \<times> rstr option) option \<times> nat"

fun try_apps :: "auth_env \<Rightarrow> directory \<Rightarrow> rstr \<Rightarrow> rstr \<Rightarrow> ipaddr option \<Rightarrow> protocol \<Rightarrow> nat
    \<Rightarrow> nat \<Rightarrow> app_password list \<Rightarrow> local_result" where
  "try_apps E d account password ip p now index [] = (None, burn_refusal d (1 + index))"
| "try_apps E d account password ip p now index (app # apps) =
     (if app_admits E app password ip now then
        (if \<not> admit_login d account p ProofPassword then (None, 1 + burn_refusal d (2 + index))
         else (Some (account, Some (ap_label app)), 1))
      else let (r, work) = try_apps E d account password ip p now (Suc index) apps in (r, 1 + work))"

definition authenticate_local :: "auth_env \<Rightarrow> directory \<Rightarrow> rstr \<Rightarrow> rstr \<Rightarrow> ipaddr option
    \<Rightarrow> protocol \<Rightarrow> nat \<Rightarrow> local_result" where
  "authenticate_local E d login password ip p now =
     (case credentials (ae_unicode E) d login of
        None \<Rightarrow> (None, burn_refusal d 0)
      | Some (account, hash) \<Rightarrow>
          if account \<in> set (d_disabled d) then (None, burn_refusal d 0)
          else
            let primary = (case map_of (d_totp d) account of
                   Some secret \<Rightarrow> totp_strip E password secret now
                 | None \<Rightarrow> Some password);
                prepared = (case primary of Some candidate \<Rightarrow> login_form E candidate | None \<Rightarrow> [])
            in if prepared \<noteq> [] \<and> ae_verify_password E hash prepared then
                 (if \<not> admit_login d account p ProofPassword then (None, 1 + burn_refusal d 1)
                  else (Some (account, None), 1))
               else
                 let apps = (case map_of (d_app_passwords d) account of Some l \<Rightarrow> l | None \<Rightarrow> []);
                     (r, work) = try_apps E d account password ip p now 0 apps
                 in (r, 1 + work))"

definition decoy_account :: "auth_env \<Rightarrow> rstr \<Rightarrow> rstr" where
  "decoy_account E login = 63 # ae_decoy_tag E (ascii_lower login)"

definition is_ipv6 :: "ipaddr \<Rightarrow> bool" where
  "is_ipv6 ip = (case ip of V6 _ \<Rightarrow> True | V4 _ \<Rightarrow> False)"

definition ip_subjects :: "ban_store \<Rightarrow> ipaddr \<Rightarrow> subject list" where
  "ip_subjects s ip =
     subject_ip ip # (if is_ipv6 ip \<and> \<not> ip_allowed s ip then [subject_client ip] else [])"

text \<open>The pair row and then the account row; only an automatic account ban is bypassed.\<close>

definition account_ban :: "ban_store \<Rightarrow> rstr option \<Rightarrow> rstr \<Rightarrow> ipaddr option \<Rightarrow> nat \<Rightarrow> ban_outcome" where
  "account_ban s account subject_acct ip now =
     (if is_banned s (subject_pair subject_acct ip) now \<noteq> None then Banned
      else case is_banned s (subject_account subject_acct) now of
        None \<Rightarrow> Clear account
      | Some info \<Rightarrow>
          if bi_reason info \<noteq> MANUAL_REASON \<and> account \<noteq> None
             \<and> (case ip of None \<Rightarrow> False | Some ip \<Rightarrow> is_known_network s subject_acct ip now)
          then BannedButKnown subject_acct else Banned)"

definition check_ban :: "auth_env \<Rightarrow> directory \<Rightarrow> ban_store option \<Rightarrow> rstr \<Rightarrow> ipaddr option \<Rightarrow> nat
    \<Rightarrow> ban_outcome" where
  "check_ban E d store login ip now =
     (let account = map_option fst (credentials (ae_unicode E) d login)
      in case store of
        None \<Rightarrow> Clear account
      | Some s \<Rightarrow>
          if (case ip of None \<Rightarrow> False
              | Some ip \<Rightarrow> list_ex (\<lambda>sub. is_banned s sub now \<noteq> None) (ip_subjects s ip))
          then Banned
          else case account of
            Some a \<Rightarrow> account_ban s account a ip now
          | None \<Rightarrow>
              if login = [] then Clear None
              else account_ban s None (decoy_account E login) ip now)"

definition ban_failure :: "auth_env \<Rightarrow> ban_store \<Rightarrow> rstr \<Rightarrow> rstr option \<Rightarrow> ipaddr option \<Rightarrow> rstr \<Rightarrow> nat
    \<Rightarrow> ban_store" where
  "ban_failure E s login account ip protocol_str now =
     (let allowed = (case ip of None \<Rightarrow> False | Some ip \<Rightarrow> ip_allowed s ip);
          s1 = (case ip of
                  None \<Rightarrow> s
                | Some ip \<Rightarrow>
                    if allowed then s else record_failure s (subject_client ip) protocol_str now)
      in if account = None \<and> login = [] then s1
         else let a = (case account of Some a \<Rightarrow> a | None \<Rightarrow> decoy_account E login);
                  s2 = (if allowed then s1 else record_failure s1 (subject_pair a ip) protocol_str now)
              in record_failure s2 (subject_account a) protocol_str now)"

definition ban_success :: "ban_store \<Rightarrow> rstr option \<Rightarrow> bool \<Rightarrow> ipaddr option \<Rightarrow> nat \<Rightarrow> ban_store" where
  "ban_success s account bypassed ip now =
     (case account of
        None \<Rightarrow> s
      | Some a \<Rightarrow>
          let s1 = (if bypassed then s
                    else clear_success (clear_success s (subject_pair a ip) now) (subject_account a) now)
          in (case ip of None \<Rightarrow> s1 | Some ip \<Rightarrow> record_known_network s1 a ip now))"

definition record_ban_outcome :: "auth_env \<Rightarrow> ban_store option \<Rightarrow> rstr \<Rightarrow> rstr option \<Rightarrow> bool \<Rightarrow> bool
    \<Rightarrow> ipaddr option \<Rightarrow> rstr \<Rightarrow> nat \<Rightarrow> ban_store option" where
  "record_ban_outcome E store login account success bypassed ip protocol_str now =
     map_option (\<lambda>s. if success then ban_success s account bypassed ip now
                     else ban_failure E s login account ip protocol_str now) store"

definition protocol_str :: "protocol \<Rightarrow> rstr" where
  "protocol_str p = (case p of
      Smtp \<Rightarrow> lit ''smtp'' | Submission \<Rightarrow> lit ''submission'' | Submissions \<Rightarrow> lit ''submissions''
    | Api \<Rightarrow> lit ''api'' | Imaps \<Rightarrow> lit ''imaps'' | Imap \<Rightarrow> lit ''imap'' | Pop3s \<Rightarrow> lit ''pop3s''
    | ManageSieve \<Rightarrow> lit ''managesieve'' | WebDav \<Rightarrow> lit ''webdav'')"

text \<open>The clock is read at the ban check, again once a place in the hash gate is free, and when the
  outcome is recorded. \<open>gate_full\<close> says that the line behind the gate is full.\<close>

record auth_clock =
  ck_check :: nat
  ck_again :: nat
  ck_record :: nat

definition authenticate_verdict :: "auth_env \<Rightarrow> directory \<Rightarrow> ban_store option \<Rightarrow> rstr \<Rightarrow> rstr
    \<Rightarrow> ipaddr option \<Rightarrow> protocol \<Rightarrow> auth_clock \<Rightarrow> bool \<Rightarrow> verdict \<times> ban_store option" where
  "authenticate_verdict E d store login password ip p clk gate_full =
     (case check_ban E d store login ip (ck_check clk) of
        Banned \<Rightarrow> (Refused, store)
      | first \<Rightarrow>
          let bypassed = (case first of BannedButKnown _ \<Rightarrow> True | _ \<Rightarrow> False);
              resolved = (case first of BannedButKnown a \<Rightarrow> Some a | Clear a \<Rightarrow> a | Banned \<Rightarrow> None)
          in if gate_full then (Busy, store)
             else case check_ban E d store login ip (ck_again clk) of
               Banned \<Rightarrow> (Refused, store)
             | again \<Rightarrow>
                 let bypassed = (bypassed \<or> (case again of BannedButKnown _ \<Rightarrow> True | _ \<Rightarrow> False));
                     local = fst (authenticate_local E d login password ip p (ck_again clk));
                     candidate = (case local of
                         Some r \<Rightarrow> Some r
                       | None \<Rightarrow>
                           (case ae_ldap E of
                              None \<Rightarrow> None
                            | Some ldap \<Rightarrow> map_option (\<lambda>a. (a, None)) (ldap login password)));
                     verified = (case candidate of
                         None \<Rightarrow> None
                       | Some (a, label) \<Rightarrow>
                           if admit_login d a p ProofPassword then Some (a, label) else None);
                     account = (case verified of Some (a, _) \<Rightarrow> Some a | None \<Rightarrow> resolved);
                     store' = record_ban_outcome E store login account (verified \<noteq> None) bypassed ip
                                (protocol_str p) (ck_record clk)
                 in (case verified of
                       Some (a, label) \<Rightarrow> (Admitted a label, store')
                     | None \<Rightarrow> (Refused, store')))"

subsection \<open>Work done by a refusal\<close>

text \<open>No account holds more app passwords than the recorded maximum.\<close>

definition apps_wf :: "directory \<Rightarrow> bool" where
  "apps_wf d \<longleftrightarrow> (\<forall>(k, ps)\<in>set (d_app_passwords d). length ps \<le> d_max_app_passwords d)"

lemma with_app_passwords_wf: "apps_wf (with_app_passwords entries d)"
proof -
  have "length ps \<le> Max (insert 0 (set (map (\<lambda>e. length (snd e)) m)))"
    if "(k, ps) \<in> set m" for k :: rstr and ps :: "app_password list" and m
    by (rule Max_ge) (use that in force)+
  then show ?thesis by (auto simp: apps_wf_def with_app_passwords_def Let_def)
qed

lemma try_apps_work:
  "index + length apps \<le> d_max_app_passwords d \<Longrightarrow>
   fst (try_apps E d account password ip p now index apps) = None \<Longrightarrow>
   snd (try_apps E d account password ip p now index apps) = d_max_app_passwords d - index"
  by (induction E d account password ip p now index apps rule: try_apps.induct)
    (auto simp: burn_refusal_def split: if_splits prod.splits)


subsection \<open>What a sign-in needs\<close>

text \<open>The secret that opened the account: its own password with the one-time code the account
  requires, one of its app passwords, or a live LDAP bind.\<close>

definition primary_proved :: "auth_env \<Rightarrow> directory \<Rightarrow> rstr \<Rightarrow> rstr \<Rightarrow> rstr \<Rightarrow> nat \<Rightarrow> bool" where
  "primary_proved E d account hash password now \<longleftrightarrow>
     (\<exists>candidate. ae_verify_password E hash (login_form E candidate)
        \<and> (case map_of (d_totp d) account of
             None \<Rightarrow> candidate = password
           | Some secret \<Rightarrow> totp_strip E password secret now = Some candidate))"

definition local_proved :: "auth_env \<Rightarrow> directory \<Rightarrow> rstr \<Rightarrow> rstr \<Rightarrow> ipaddr option \<Rightarrow> nat \<Rightarrow> rstr
    \<Rightarrow> rstr option \<Rightarrow> bool" where
  "local_proved E d login password ip now account label \<longleftrightarrow>
     (\<exists>hash. credentials (ae_unicode E) d login = Some (account, hash)
        \<and> (case label of
             None \<Rightarrow> primary_proved E d account hash password now
           | Some l \<Rightarrow> \<exists>apps. map_of (d_app_passwords d) account = Some apps
               \<and> (\<exists>app\<in>set apps. ap_label app = l \<and> app_admits E app password ip now)))"

lemma try_apps_Some:
  "fst (try_apps E d account password ip p now index apps) = Some (a, label) \<Longrightarrow>
   a = account \<and> admit_login d account p ProofPassword
   \<and> (\<exists>app\<in>set apps. label = Some (ap_label app) \<and> app_admits E app password ip now)"
  by (induction E d account password ip p now index apps rule: try_apps.induct)
    (auto split: if_splits prod.splits)

lemma authenticate_local_Some:
  assumes "fst (authenticate_local E d login password ip p now) = Some (a, label)"
  shows "local_proved E d login password ip now a label \<and> admit_login d a p ProofPassword"
proof -
  obtain account hash where c: "credentials (ae_unicode E) d login = Some (account, hash)"
      "account \<notin> set (d_disabled d)"
    using assms by (auto simp: authenticate_local_def split: option.splits if_splits)
  define candidate where "candidate = (case map_of (d_totp d) account of
                   Some secret \<Rightarrow> totp_strip E password secret now
                 | None \<Rightarrow> Some password)"
  define prepared where "prepared = (case candidate of Some c \<Rightarrow> login_form E c | None \<Rightarrow> [])"
  define apps where "apps = (case map_of (d_app_passwords d) account of Some l \<Rightarrow> l | None \<Rightarrow> [])"
  have eq: "authenticate_local E d login password ip p now =
      (if prepared \<noteq> [] \<and> ae_verify_password E hash prepared then
                 (if \<not> admit_login d account p ProofPassword then (None, 1 + burn_refusal d 1)
                  else (Some (account, None), 1))
               else
                 let (r, work) = try_apps E d account password ip p now 0 apps
                 in (r, 1 + work))"
    using c unfolding authenticate_local_def candidate_def prepared_def apps_def by (simp add: Let_def)
  show ?thesis
  proof (cases "prepared \<noteq> [] \<and> ae_verify_password E hash prepared")
    case True
    then have "a = account" "label = None" "admit_login d account p ProofPassword"
      using assms by (auto simp: eq split: if_splits)
    moreover have "primary_proved E d account hash password now"
      using True by (auto simp: prepared_def candidate_def primary_proved_def split: option.splits)
    ultimately show ?thesis using c(1) by (simp add: local_proved_def)
  next
    case False
    then have "fst (try_apps E d account password ip p now 0 apps) = Some (a, label)"
      using assms by (auto simp: eq split: prod.splits if_splits)
    from try_apps_Some [OF this] show ?thesis
      using c(1) by (cases "map_of (d_app_passwords d) account") (auto simp: local_proved_def apps_def)
  qed
qed

lemma verdict_admitted:
  assumes "authenticate_verdict E d store login password ip p clk gate_full = (Admitted a label, store')"
  shows "check_ban E d store login ip (ck_check clk) \<noteq> Banned \<and> \<not> gate_full
    \<and> check_ban E d store login ip (ck_again clk) \<noteq> Banned \<and> admit_login d a p ProofPassword
    \<and> (case fst (authenticate_local E d login password ip p (ck_again clk)) of
         Some r \<Rightarrow> Some r
       | None \<Rightarrow> (case ae_ldap E of None \<Rightarrow> None
                  | Some ldap \<Rightarrow> map_option (\<lambda>a. (a, None)) (ldap login password))) = Some (a, label)"
  using assms unfolding authenticate_verdict_def Let_def
  by (simp split: ban_outcome.split_asm option.split_asm prod.split_asm if_split_asm)

text \<open>The rules of \<^const>\<open>admit_login\<close>, over the data of the directory.\<close>

lemma admit_login_rules:
  "admit_login d a p proof \<longleftrightarrow> \<not> is_disabled d a \<and> is_protocol_allowed d a p
     \<and> (proof \<in> {ProofScram, ProofBearer} \<longrightarrow> map_of (d_totp d) (ascii_lower a) = None)"
  by (auto simp: admit_login_def is_disabled_def is_protocol_allowed_def Let_def)

text \<open>C22: A sign-in is admitted only for an account that is not disabled and may use the protocol, to a
  caller who is not under a ban at either check, and who proved the account's own password together
  with a valid one-time code if the account has a second factor, or an app password of that account
  that has not expired and is used from its network, or, failing both, a live LDAP bind.\<close>

theorem sign_in_needs_proof:
  assumes "authenticate_verdict E d store login password ip p clk gate_full = (Admitted a label, store')"
  shows "\<not> is_disabled d a \<and> is_protocol_allowed d a p \<and> \<not> gate_full
    \<and> check_ban E d store login ip (ck_check clk) \<noteq> Banned
    \<and> check_ban E d store login ip (ck_again clk) \<noteq> Banned
    \<and> (local_proved E d login password ip (ck_again clk) a label
       \<or> label = None \<and> (\<exists>ldap. ae_ldap E = Some ldap \<and> ldap login password = Some a))"
  using verdict_admitted [OF assms] authenticate_local_Some [of E d login password ip p "ck_again clk" a label]
  by (auto simp: admit_login_rules split: option.splits)

lemma ban_failure_fold:
  "\<exists>ys. ban_failure E s login account ip ps now = fold (\<lambda>y s. record_failure s y ps now) ys s"
proof -
  define a where "a = (case account of Some a \<Rightarrow> a | None \<Rightarrow> decoy_account E login)"
  define allowed where "allowed = (case ip of None \<Rightarrow> False | Some ip \<Rightarrow> ip_allowed s ip)"
  define cs where "cs = (case ip of None \<Rightarrow> [] | Some i \<Rightarrow> if allowed then [] else [subject_client i])"
  define as where "as = (if account = None \<and> login = [] then []
     else (if allowed then [] else [subject_pair a ip]) @ [subject_account a])"
  have "ban_failure E s login account ip ps now = fold (\<lambda>y s. record_failure s y ps now) (cs @ as) s"
    unfolding ban_failure_def Let_def allowed_def [symmetric] a_def [symmetric]
    by (cases ip) (simp_all add: cs_def as_def)
  then show ?thesis by blast
qed

lemma ban_success_keeps:
  "store_ok s \<Longrightarrow> ban_in_force s x now \<Longrightarrow> ban_in_force (ban_success s account bypassed ip now) x now"
  by (auto simp: ban_success_def pg.known_keeps intro: pg.clear_ok pg.clear_keeps split: option.splits)

text \<open>The store after any sign-in: unchanged, or with the outcome of that sign-in recorded.\<close>

lemma authenticate_verdict_store:
  "\<exists>account success bypassed. snd (authenticate_verdict E d store login password ip p clk gate_full)
     \<in> {store, record_ban_outcome E store login account success bypassed ip (protocol_str p) (ck_record clk)}"
  unfolding authenticate_verdict_def Let_def
  by (simp split: ban_outcome.split option.split prod.split) blast

text \<open>C23: No sign-in, admitted, refused or turned away, lifts a ban that is in force when its outcome is
  recorded, on whatever client, network, pair or account; and a caller under a ban, or turned away
  because too many checks are waiting, changes no count at all.\<close>

theorem sign_in_lifts_no_ban:
  assumes "store_ok s" and "ck_record clk < u64_max" and "ban_in_force s x (ck_record clk)"
  shows "\<exists>s'. snd (authenticate_verdict E d (Some s) login password ip p clk gate_full) = Some s'
      \<and> ban_in_force s' x (ck_record clk)
      \<and> (check_ban E d (Some s) login ip (ck_check clk) = Banned
         \<or> check_ban E d (Some s) login ip (ck_again clk) = Banned \<or> gate_full \<longrightarrow> s' = s)"
proof -
  have idle: "snd (authenticate_verdict E d (Some s) login password ip p clk gate_full) = Some s"
    if "check_ban E d (Some s) login ip (ck_check clk) = Banned
         \<or> check_ban E d (Some s) login ip (ck_again clk) = Banned \<or> gate_full"
    using that by (auto simp: authenticate_verdict_def Let_def split: ban_outcome.split)
  obtain account success bypassed where
    "snd (authenticate_verdict E d (Some s) login password ip p clk gate_full) \<in> {Some s,
      record_ban_outcome E (Some s) login account success bypassed ip (protocol_str p) (ck_record clk)}"
    using authenticate_verdict_store by blast
  moreover have "\<exists>s'. record_ban_outcome E (Some s) login account success bypassed ip (protocol_str p)
        (ck_record clk) = Some s' \<and> ban_in_force s' x (ck_record clk)"
    using assms ban_success_keeps [OF assms(1,3)] pg.fails_keep [OF assms]
      ban_failure_fold [of E s login account ip "protocol_str p" "ck_record clk"]
    by (auto simp: record_ban_outcome_def)
  ultimately obtain s' where
    "snd (authenticate_verdict E d (Some s) login password ip p clk gate_full) = Some s'"
    "ban_in_force s' x (ck_record clk)"
    using assms(3) by (elim insertE) auto
  then show ?thesis using idle by auto
qed

subsection \<open>Concrete inputs\<close>

text \<open>An environment in which a hash is the password itself and LDAP is not configured.\<close>

definition demo_env :: auth_env where
  "demo_env = \<lparr>ae_unicode = ascii_ops, ae_verify_password = (=), ae_unicode_passwords = False,
     ae_nfkc = (\<lambda>s. s), ae_hmac_sha1 = (\<lambda>k m. replicate 20 0), ae_ldap = None,
     ae_decoy_tag = (\<lambda>s. s)\<rparr>"

definition demo_accounts :: directory where
  "demo_accounts = with_app_passwords
     [(lit ''ann'', \<lparr>ap_label = lit ''phone'', ap_hash = lit ''pw2'', ap_expires_at = None,
        ap_ip_cidr = None, ap_save_sent = None\<rparr>)]
     (with_password_hashes [(lit ''ann'', lit ''pw1'')] (directory_new ascii_ops [] []))"

definition demo_store :: ban_store where
  "demo_store = \<lparr>bs_policy = ban_policy_default, bs_up = True, bs_failures = [],
     bs_bans = [(SubAccount (lit ''bob''), \<lparr>br_strikes = 1, br_until = 900, br_reason = []\<rparr>)],
     bs_allow = [], bs_known = []\<rparr>"

definition demo_clock :: auth_clock where
  "demo_clock = \<lparr>ck_check = 10, ck_again = 11, ck_record = 12\<rparr>"

lemmas auth_eval = authenticate_local_def credentials_def login_form_def burn_refusal_def
  admit_login_def is_protocol_allowed_def app_admits_def demo_env_def demo_accounts_def
  with_app_passwords_def with_password_hashes_def push_app_password_def collect_map_def
  directory_new_def ascii_ops_def str_simps


lemma demo_sign_in:
  "authenticate_verdict demo_env demo_accounts None (lit ''ann'') (lit ''pw2'') None Smtp
     demo_clock False = (Admitted (lit ''ann'') (Some (lit ''phone'')), None)"
  by (simp add: authenticate_verdict_def check_ban_def record_ban_outcome_def auth_eval)

theorem sign_in_needs_proof_witness:
  "\<not> is_disabled demo_accounts (lit ''ann'') \<and> is_protocol_allowed demo_accounts (lit ''ann'') Smtp
   \<and> local_proved demo_env demo_accounts (lit ''ann'') (lit ''pw2'') None 11 (lit ''ann'')
       (Some (lit ''phone''))"
  using sign_in_needs_proof [OF demo_sign_in] by (simp add: demo_clock_def)

theorem sign_in_lifts_no_ban_witness:
  "ban_in_force demo_store (SubAccount (lit ''bob'')) 12
   \<and> (\<exists>s'. snd (authenticate_verdict demo_env demo_accounts (Some demo_store) (lit ''ann'') (lit ''pw1'')
        None Smtp demo_clock False) = Some s' \<and> ban_in_force s' (SubAccount (lit ''bob'')) 12)"
proof -
  have ok: "store_ok demo_store" by (simp add: store_ok_def demo_store_def ban_policy_default_def)
  have b: "ban_in_force demo_store (SubAccount (lit ''bob'')) (ck_record demo_clock)"
    by (simp add: ban_in_force_def is_banned_def demo_store_def demo_clock_def)
  have t: "ck_record demo_clock < u64_max" by (simp add: demo_clock_def u64_max_def)
  show ?thesis
    using sign_in_lifts_no_ban [OF ok t b, of demo_env demo_accounts "lit ''ann''" "lit ''pw1''" None
        Smtp False] b by (auto simp: demo_clock_def)
qed

end
