(* ===== verification/Auth_Lockout.thy ===== *)
theory Auth_Lockout
  imports Auth_Gate
begin

section \<open>One client cannot lock an account out\<close>

text \<open>
  The ban policy counts a failure on the client, on the pair of account and client, and on the account
  with a threshold four times higher (\<^verbatim>\<open>ACCOUNT_THRESHOLD_FACTOR\<close> of
  \<^verbatim>\<open>src/src/antispam/bans/mod.rs\<close>), so that one client is stopped by its own counters before it can have
  the account banned for everyone. This theory proves that for every sequence of sign-ins of one
  client, right and wrong, on any accounts, at any times.
\<close>

subsection \<open>Frame lemmas of the store\<close>

lemma failure_count_antimono: "a \<le> b \<Longrightarrow> failure_count s sub b \<le> failure_count s sub a"
proof -
  assume "a \<le> b"
  then have "length (filter (\<lambda>(x, _, t). x = sub \<and> b \<le> t) fs)
      \<le> length (filter (\<lambda>(x, _, t). x = sub \<and> a \<le> t) fs)" for fs :: "(subject \<times> rstr \<times> nat) list"
    by (induction fs) auto
  then show ?thesis by (simp add: failure_count_def)
qed

lemma record_failure_count:
  assumes "bs_up s" "\<not> exempt (bs_allow s) sub"
  shows "failure_count (record_failure s sub p now) x start
    = failure_count s x start + (if x = sub \<and> start \<le> now then 1 else 0)"
  using assms by (auto simp: record_failure_def exempt_def ip_allowed_def failure_count_def Let_def
      split: subject.splits)

lemma record_failure_count_other:
  "x \<noteq> sub \<Longrightarrow> failure_count (record_failure s sub p now) x start = failure_count s x start"
  by (auto simp: record_failure_def failure_count_def Let_def)

lemma record_failure_row_other:
  "x \<noteq> sub \<Longrightarrow> map_of (bs_bans (record_failure s sub p now)) x = map_of (bs_bans s) x"
  by (simp add: record_failure_def Let_def fire_ban_row)

lemma record_failure_quiet:
  assumes "failure_count (record_failure s sub p now) sub (now - bp_window_secs (bs_policy s))
      < threshold_for (bs_policy s) sub"
  shows "map_of (bs_bans (record_failure s sub p now)) x = map_of (bs_bans s) x"
  using assms by (auto simp: record_failure_def Let_def failure_count_def split: if_splits)

lemma record_failure_fires:
  assumes "bs_up s" "\<not> exempt (bs_allow s) sub"
    and "threshold_for (bs_policy s) sub
      \<le> failure_count (record_failure s sub p now) sub (now - bp_window_secs (bs_policy s))"
  shows "\<exists>n r. map_of (bs_bans (record_failure s sub p now)) sub = Some r
    \<and> br_until r = sat_add u64_max now (duration_for (bs_policy s) n)"
proof -
  define s1 where "s1 = s\<lparr>bs_failures := (sub, p, now) # bs_failures s\<rparr>"
  have eq: "record_failure s sub p now =
      (if threshold_for (bs_policy s) sub \<le> failure_count s1 sub (now - bp_window_secs (bs_policy s))
       then fire_ban s1 sub now else s1)"
    using assms(1,2) by (auto simp: record_failure_def exempt_def ip_allowed_def s1_def Let_def
        split: subject.splits)
  have "failure_count (record_failure s sub p now) sub t = failure_count s1 sub t" for t
    by (simp add: eq failure_count_def)
  then have "record_failure s sub p now = fire_ban s1 sub now" using assms(3) eq by simp
  then show ?thesis by (auto simp: fire_ban_row s1_def)
qed

lemma clear_success_other:
  assumes "x \<noteq> sub"
  shows "failure_count (clear_success s sub now) x start = failure_count s x start"
    "map_of (bs_bans (clear_success s sub now)) x = map_of (bs_bans s) x"
proof -
  have "filter (\<lambda>(y, _, t). y = x \<and> start \<le> t) (filter (\<lambda>(y, _, _). y \<noteq> sub) fs)
      = filter (\<lambda>(y, _, t). y = x \<and> start \<le> t) fs" for fs :: "(subject \<times> rstr \<times> nat) list"
    using assms by (induction fs) auto
  then show "failure_count (clear_success s sub now) x start = failure_count s x start"
    by (simp add: clear_success_def failure_count_def)
  show "map_of (bs_bans (clear_success s sub now)) x = map_of (bs_bans s) x"
    using assms by (simp add: clear_success_def delete_conv')
qed

lemma clear_success_counts:
  "failure_count (clear_success s sub now) x start \<le> failure_count s x start"
proof -
  have "length (filter (\<lambda>(y, _, t). y = x \<and> start \<le> t) (filter (\<lambda>(y, _, _). y \<noteq> sub) fs))
      \<le> length (filter (\<lambda>(y, _, t). y = x \<and> start \<le> t) fs)" for fs :: "(subject \<times> rstr \<times> nat) list"
    by (induction fs) auto
  then show ?thesis by (simp add: clear_success_def failure_count_def)
qed

lemma clear_success_same:
  "bs_up s \<Longrightarrow> clear_success s sub now = s
   \<or> map_of (bs_bans (clear_success s sub now)) sub = None
     \<and> (\<forall>start. failure_count (clear_success s sub now) sub start = 0)"
  by (auto simp: clear_success_def delete_conv' failure_count_def filter_empty_conv)

lemma known_frames:
  "failure_count (record_known_network s a ip now) x start = failure_count s x start"
  "map_of (bs_bans (record_known_network s a ip now)) x = map_of (bs_bans s) x"
  by (simp_all add: failure_count_def)

subsection \<open>The invariant of one account and one client\<close>

text \<open>The account has no ban row, its failures are among those of the pair, and the failures of the
  pair inside the window of its last one are at most one over the threshold; when they reach the
  threshold, the pair's ban runs at least one window on.\<close>

definition calm :: "nat \<Rightarrow> nat \<Rightarrow> ipaddr \<Rightarrow> nat \<Rightarrow> ban_store \<Rightarrow> rstr \<Rightarrow> bool" where
  "calm thr w c t s k \<longleftrightarrow> map_of (bs_bans s) (SubAccount k) = None
     \<and> (\<forall>start. failure_count s (SubAccount k) start \<le> failure_count s (SubPair k (Some c)) start)
     \<and> (\<exists>f\<le>t. failure_count s (SubPair k (Some c)) (Suc f) = 0
          \<and> failure_count s (SubPair k (Some c)) f \<le> thr
          \<and> failure_count s (SubPair k (Some c)) (f - w) \<le> thr + 1
          \<and> (thr \<le> failure_count s (SubPair k (Some c)) (f - w) \<longrightarrow>
               (\<exists>r. map_of (bs_bans s) (SubPair k (Some c)) = Some r \<and> f + w \<le> br_until r)))"

lemma calm_mono: "t \<le> t' \<Longrightarrow> calm thr w c t s k \<Longrightarrow> calm thr w c t' s k"
  unfolding calm_def by (meson order_trans)

lemma calm_frame:
  assumes "calm thr w c t s k"
    and "\<And>x start. x \<in> {SubAccount k, SubPair k (Some c)} \<Longrightarrow>
       failure_count s' x start = failure_count s x start \<and> map_of (bs_bans s') x = map_of (bs_bans s) x"
  shows "calm thr w c t s' k"
  using assms unfolding calm_def by simp

lemma calm_clear:
  assumes "bs_up s" "calm thr w c t s k" "0 < thr"
  shows "calm thr w c t
    (clear_success (clear_success s (SubPair k (Some c)) now) (SubAccount k) now) k"
proof -
  let ?P = "SubPair k (Some c)" and ?A = "SubAccount k"
  define s1 where "s1 = clear_success s ?P now"
  define s2 where "s2 = clear_success s1 ?A now"
  have A: "map_of (bs_bans s1) ?A = None" "failure_count s1 ?A start = failure_count s ?A start" for start
    using assms(2) clear_success_other [of ?A ?P s] by (simp_all add: calm_def s1_def)
  have "s2 = s1\<lparr>bs_bans := AList.delete ?A (bs_bans s1),
      bs_failures := filter (\<lambda>(x, _, _). x \<noteq> ?A) (bs_failures s1)\<rparr>"
    using A(1) assms(1) unfolding s2_def clear_success_def [of s1] by (simp add: s1_def)
  then have A2: "map_of (bs_bans s2) ?A = None" "failure_count s2 ?A start = 0" for start
    by (auto simp: delete_conv' failure_count_def filter_empty_conv)
  have P2: "failure_count s2 ?P start = failure_count s1 ?P start"
      "map_of (bs_bans s2) ?P = map_of (bs_bans s1) ?P" for start
    using clear_success_other [of ?P ?A s1] by (simp_all add: s2_def)
  have "s1 = s \<or> map_of (bs_bans s1) ?P = None \<and> (\<forall>start. failure_count s1 ?P start = 0)"
    unfolding s1_def by (rule clear_success_same [OF assms(1)])
  then have "calm thr w c t s2 k"
  proof
    assume "s1 = s"
    then show ?thesis using assms(2) A2 P2 by (simp add: calm_def)
  next
    assume "map_of (bs_bans s1) ?P = None \<and> (\<forall>start. failure_count s1 ?P start = 0)"
    then show ?thesis using assms(3) A2 P2 by (auto simp: calm_def)
  qed
  then show ?thesis by (simp add: s2_def s1_def)
qed

text \<open>A policy under which a ban outlasts the window it was fired in.\<close>

definition policy_ok :: "ban_policy \<Rightarrow> bool" where
  "policy_ok p \<longleftrightarrow> 0 < bp_threshold p \<and> 4 * bp_threshold p \<le> u32_max \<and> 0 < bp_window_secs p
     \<and> bp_window_secs p \<le> bp_base_secs p \<and> bp_window_secs p \<le> bp_max_secs p"

lemma duration_ge_window:
  assumes "policy_ok p" "bp_max_secs p \<le> u64_max"
  shows "bp_window_secs p \<le> duration_for p n"
proof -
  have "bp_window_secs p \<le> bp_base_secs p * 1" using assms by (simp add: policy_ok_def)
  also have "\<dots> \<le> bp_base_secs p * 2 ^ min (n - 1) 20"
    by (intro mult_le_mono2) simp
  finally show ?thesis using assms by (auto simp: policy_ok_def duration_for_def sat_mul_def)
qed

lemma calm_failure:
  assumes pol: "policy_ok (bs_policy s)" "thr = bp_threshold (bs_policy s)" "w = bp_window_secs (bs_policy s)"
    and up: "bs_up s"
    and calm: "calm thr w c t s k"
    and free: "\<not> ban_in_force s (SubPair k (Some c)) u" "t \<le> u" "u \<le> g"
    and clock: "g + bp_max_secs (bs_policy s) \<le> u64_max"
  shows "calm thr w c g (record_failure (record_failure s (SubPair k (Some c)) ps g) (SubAccount k) ps g) k"
proof -
  let ?P = "SubPair k (Some c)" and ?A = "SubAccount k"
  define s1 where "s1 = record_failure s ?P ps g"
  define s2 where "s2 = record_failure s1 ?A ps g"
  obtain f where f: "f \<le> t" "failure_count s ?P (Suc f) = 0" "failure_count s ?P f \<le> thr"
      "failure_count s ?P (f - w) \<le> thr + 1"
      "thr \<le> failure_count s ?P (f - w) \<Longrightarrow> \<exists>r. map_of (bs_bans s) ?P = Some r \<and> f + w \<le> br_until r"
    using calm by (auto simp: calm_def)
  have until: "br_until r \<le> g" if "map_of (bs_bans s) ?P = Some r" for r
    using free that up by (auto simp: ban_in_force_def is_banned_def split: if_splits)
  have w: "0 < w" "0 < thr" using pol by (auto simp: policy_ok_def)
  have fg: "f \<le> g" using f(1) free by simp
  have count1: "failure_count s1 ?P start = failure_count s ?P start + (if start \<le> g then 1 else 0)" for start
    using record_failure_count [of s ?P ps g ?P start] up by (simp add: s1_def exempt_def)
  have countP: "failure_count s2 ?P start = failure_count s1 ?P start" for start
    using record_failure_count_other [of ?P ?A s1] by (simp add: s2_def)
  have countA: "failure_count s2 ?A start = failure_count s ?A start + (if start \<le> g then 1 else 0)" for start
    using record_failure_count [of s1 ?A ps g ?A start] record_failure_count_other [of ?A ?P s] up
    by (simp add: s2_def s1_def exempt_def)
  have le: "failure_count s2 ?A start \<le> failure_count s2 ?P start" for start
    using calm by (simp add: countA countP count1 calm_def)
  have bound: "failure_count s1 ?P (g - w) \<le> thr + 1 \<and> failure_count s1 ?P g \<le> thr"
  proof (cases "thr \<le> failure_count s ?P (f - w)")
    case True
    then have "f + w \<le> g" using f(5) until by fastforce
    then have "failure_count s ?P (g - w) \<le> failure_count s ?P f" "failure_count s ?P g = 0"
      using failure_count_antimono [of f "g - w"] failure_count_antimono [of "Suc f" g s ?P] f(2) w by auto
    then show ?thesis using f(3) w count1 by simp
  next
    case False
    have "f - w \<le> g - w" "f - w \<le> g" using fg by auto
    with False have "failure_count s ?P (g - w) < thr" "failure_count s ?P g < thr"
      using failure_count_antimono [of "f - w" "g - w" s ?P] failure_count_antimono [of "f - w" g s ?P]
      by simp_all
    then show ?thesis using count1 by simp
  qed
  have "failure_count s1 ?P (Suc g) = 0"
    using failure_count_antimono [of "Suc f" "Suc g" s ?P] f(2) fg by (simp add: count1)
  moreover have "thr \<le> failure_count s1 ?P (g - w) \<Longrightarrow>
      \<exists>r. map_of (bs_bans s1) ?P = Some r \<and> g + w \<le> br_until r"
    using record_failure_fires [of s ?P ps g] up pol duration_ge_window [OF pol(1)] clock
    by (fastforce simp: s1_def exempt_def threshold_for_def sat_add_def policy_ok_def)
  moreover have "map_of (bs_bans s2) ?P = map_of (bs_bans s1) ?P"
    using record_failure_row_other [of ?P ?A s1] by (simp add: s2_def)
  moreover have "map_of (bs_bans s2) ?A = None"
  proof -
    have "failure_count s2 ?A (g - w) < threshold_for (bs_policy s1) ?A"
      using le [of "g - w"] bound countP [of "g - w"] pol w
      by (simp add: threshold_for_def sat_mul_def ACCOUNT_THRESHOLD_FACTOR_def s1_def policy_ok_def)
    then have "map_of (bs_bans s2) ?A = map_of (bs_bans s1) ?A"
      using record_failure_quiet [of s1 ?A ps g ?A] pol by (simp add: s2_def s1_def)
    also have "\<dots> = None" using calm record_failure_row_other [of ?A ?P s] by (simp add: s1_def calm_def)
    finally show ?thesis .
  qed
  ultimately have "calm thr w c g s2 k"
    using bound le unfolding calm_def countP by auto
  then show ?thesis by (simp add: s2_def s1_def)
qed

subsection \<open>Sign-ins of one client\<close>

record attempt =
  at_login :: rstr
  at_password :: rstr
  at_protocol :: protocol
  at_clock :: auth_clock
  at_gate_full :: bool

definition sign_in :: "auth_env \<Rightarrow> directory \<Rightarrow> ipaddr \<Rightarrow> attempt \<Rightarrow> ban_store option \<Rightarrow> ban_store option" where
  "sign_in E d ip a store = snd (authenticate_verdict E d store (at_login a) (at_password a) (Some ip)
     (at_protocol a) (at_clock a) (at_gate_full a))"

text \<open>The clock does not run backwards, and stays clear of its end by the longest ban.\<close>

fun ordered_clock :: "nat \<Rightarrow> nat \<Rightarrow> attempt list \<Rightarrow> bool" where
  "ordered_clock longest t [] = True"
| "ordered_clock longest t (a # as) =
     (t \<le> ck_check (at_clock a) \<and> ck_check (at_clock a) \<le> ck_again (at_clock a)
      \<and> ck_again (at_clock a) \<le> ck_record (at_clock a) \<and> ck_record (at_clock a) + longest \<le> u64_max
      \<and> ordered_clock longest (ck_record (at_clock a)) as)"

definition resolved_account :: "auth_env \<Rightarrow> directory \<Rightarrow> rstr \<Rightarrow> rstr option" where
  "resolved_account E d login = map_option fst (credentials (ae_unicode E) d login)"

lemma check_ban_resolved:
  "check_ban E d store login ip now = Clear x \<Longrightarrow> x = resolved_account E d login"
  "check_ban E d store login ip now = BannedButKnown a \<Longrightarrow> resolved_account E d login = Some a"
  by (auto simp: check_ban_def account_ban_def resolved_account_def Let_def split: option.splits if_splits)

lemma check_ban_pair:
  assumes "check_ban E d (Some s) login ip now \<noteq> Banned"
    and "a = (case resolved_account E d login of Some a \<Rightarrow> a | None \<Rightarrow> decoy_account E login)"
    and "resolved_account E d login \<noteq> None \<or> login \<noteq> []"
  shows "\<not> ban_in_force s (subject_pair a ip) now"
  using assms by (auto simp: check_ban_def account_ban_def resolved_account_def ban_in_force_def Let_def
      split: option.splits if_splits)

lemma sign_in_cases:
  "sign_in E d ip a (Some s) = Some s
   \<or> (\<exists>acct bypassed. sign_in E d ip a (Some s)
        = Some (ban_success s (Some acct) bypassed (Some ip) (ck_record (at_clock a))))
   \<or> check_ban E d (Some s) (at_login a) (Some ip) (ck_again (at_clock a)) \<noteq> Banned
     \<and> sign_in E d ip a (Some s)
        = Some (ban_failure E s (at_login a) (resolved_account E d (at_login a)) (Some ip)
            (protocol_str (at_protocol a)) (ck_record (at_clock a)))"
  unfolding sign_in_def authenticate_verdict_def Let_def record_ban_outcome_def
  by (auto dest: check_ban_resolved split: ban_outcome.split option.split prod.split)

definition client_inv :: "ban_policy \<Rightarrow> ipaddr \<Rightarrow> nat \<Rightarrow> ban_store \<Rightarrow> bool" where
  "client_inv pol ip t s \<longleftrightarrow> bs_up s \<and> bs_policy s = pol \<and> \<not> is_allowed ip (bs_allow s)
     \<and> (\<forall>k. calm (bp_threshold pol) (bp_window_secs pol) (ban_client_key ip) t s k)"

lemma client_inv_success:
  assumes "client_inv pol ip t s" "0 < bp_threshold pol"
  shows "client_inv pol ip t (ban_success s (Some a) bypassed (Some ip) now)"
proof -
  let ?P = "SubPair (ascii_lower a) (Some (ban_client_key ip))" and ?A = "SubAccount (ascii_lower a)"
  define s1 where "s1 = (if bypassed then s else clear_success (clear_success s ?P now) ?A now)"
  have eq: "ban_success s (Some a) bypassed (Some ip) now = record_known_network s1 a ip now"
    by (simp add: ban_success_def s1_def subject_pair_def subject_account_def)
  have "calm (bp_threshold pol) (bp_window_secs pol) (ban_client_key ip) t s1 k" for k
  proof (cases "k = ascii_lower a")
    case True
    then show ?thesis using assms calm_clear by (auto simp: s1_def client_inv_def)
  next
    case False
    have "calm (bp_threshold pol) (bp_window_secs pol) (ban_client_key ip) t s k"
      using assms(1) by (simp add: client_inv_def)
    then show ?thesis
      by (rule calm_frame) (use False in \<open>auto simp: s1_def clear_success_other\<close>)
  qed
  then have "calm (bp_threshold pol) (bp_window_secs pol) (ban_client_key ip) t
      (record_known_network s1 a ip now) k" for k
    by (rule calm_frame) (simp add: known_frames del: record_known_fields)
  then show ?thesis using assms(1) by (simp add: eq client_inv_def s1_def)
qed

lemma client_inv_failure:
  assumes inv: "client_inv pol ip t s" and pol: "policy_ok pol"
    and free: "check_ban E d (Some s) login (Some ip) u \<noteq> Banned" "t \<le> u" "u \<le> g"
    and clock: "g + bp_max_secs pol \<le> u64_max"
  shows "client_inv pol ip g (ban_failure E s login (resolved_account E d login) (Some ip) ps g)"
proof -
  define a where "a = (case resolved_account E d login of Some a \<Rightarrow> a | None \<Rightarrow> decoy_account E login)"
  let ?P = "SubPair (ascii_lower a) (Some (ban_client_key ip))" and ?A = "SubAccount (ascii_lower a)"
  define s1 where "s1 = record_failure s (subject_client ip) ps g"
  have inv1: "client_inv pol ip t s1"
  proof -
    have "calm (bp_threshold pol) (bp_window_secs pol) (ban_client_key ip) t s1 k" for k
    proof (rule calm_frame)
      show "calm (bp_threshold pol) (bp_window_secs pol) (ban_client_key ip) t s k"
        using inv by (simp add: client_inv_def)
    qed (auto simp: s1_def subject_client_def record_failure_count_other record_failure_row_other)
    then show ?thesis using inv by (simp add: client_inv_def s1_def)
  qed
  have later: "client_inv pol ip g s1"
    using inv1 calm_mono [of t g] free by (auto simp: client_inv_def)
  show ?thesis
  proof (cases "resolved_account E d login = None \<and> login = []")
    case True
    then have "ban_failure E s login (resolved_account E d login) (Some ip) ps g = s1"
      using inv by (auto simp: ban_failure_def s1_def client_inv_def ip_allowed_def Let_def)
    then show ?thesis using later by simp
  next
    case False
    have eq: "ban_failure E s login (resolved_account E d login) (Some ip) ps g
        = record_failure (record_failure s1 ?P ps g) ?A ps g"
      using False inv by (auto simp: ban_failure_def s1_def a_def client_inv_def ip_allowed_def Let_def
          subject_pair_def subject_account_def)
    have "\<not> ban_in_force s ?P u"
      using check_ban_pair [OF free(1) a_def] False by (simp add: subject_pair_def)
    then have "\<not> ban_in_force s1 ?P u"
      using record_failure_row_other [of ?P "subject_client ip" s]
      by (auto simp: ban_in_force_def is_banned_def s1_def subject_client_def split: if_splits)
    then have mine: "calm (bp_threshold pol) (bp_window_secs pol) (ban_client_key ip) g
        (record_failure (record_failure s1 ?P ps g) ?A ps g) (ascii_lower a)"
      using inv1 pol free clock by (intro calm_failure [where t = t and u = u]) (auto simp: client_inv_def)
    have "calm (bp_threshold pol) (bp_window_secs pol) (ban_client_key ip) g
        (record_failure (record_failure s1 ?P ps g) ?A ps g) k" for k
    proof (cases "k = ascii_lower a")
      case True
      with mine show ?thesis by simp
    next
      case False
      have "calm (bp_threshold pol) (bp_window_secs pol) (ban_client_key ip) g s1 k"
        using later by (simp add: client_inv_def)
      then show ?thesis
        by (rule calm_frame) (use False in \<open>auto simp: record_failure_count_other record_failure_row_other\<close>)
    qed
    then show ?thesis using inv by (simp add: eq client_inv_def s1_def)
  qed
qed

lemma sign_in_inv:
  assumes "client_inv pol ip t s" "policy_ok pol" "ordered_clock (bp_max_secs pol) t (a # as)"
  shows "\<exists>s'. sign_in E d ip a (Some s) = Some s' \<and> client_inv pol ip (ck_record (at_clock a)) s'"
proof -
  have later: "client_inv pol ip (ck_record (at_clock a)) s'" if "client_inv pol ip t s'" for s'
    using that assms(3) calm_mono [of t "ck_record (at_clock a)"] by (auto simp: client_inv_def)
  from sign_in_cases [of E d ip a s] show ?thesis
  proof (elim disjE exE conjE)
    assume "sign_in E d ip a (Some s) = Some s"
    then show ?thesis using later assms(1) by blast
  next
    fix acct bypassed
    assume "sign_in E d ip a (Some s)
        = Some (ban_success s (Some acct) bypassed (Some ip) (ck_record (at_clock a)))"
    then show ?thesis using later client_inv_success assms(1,2) by (auto simp: policy_ok_def)
  next
    assume c: "check_ban E d (Some s) (at_login a) (Some ip) (ck_again (at_clock a)) \<noteq> Banned"
      and "sign_in E d ip a (Some s)
        = Some (ban_failure E s (at_login a) (resolved_account E d (at_login a)) (Some ip)
            (protocol_str (at_protocol a)) (ck_record (at_clock a)))"
    then show ?thesis using client_inv_failure [OF assms(1,2) c] assms(3) by simp
  qed
qed

lemma sign_ins_inv:
  "client_inv pol ip t s \<Longrightarrow> policy_ok pol \<Longrightarrow> ordered_clock (bp_max_secs pol) t as \<Longrightarrow>
   \<exists>s' t'. fold (sign_in E d ip) as (Some s) = Some s' \<and> client_inv pol ip t' s'"
proof (induction as arbitrary: t s)
  case (Cons a as)
  then obtain s' where "sign_in E d ip a (Some s) = Some s'" "client_inv pol ip (ck_record (at_clock a)) s'"
    using sign_in_inv by blast
  with Cons show ?case by fastforce
qed auto


definition demo_attempt :: "nat \<Rightarrow> attempt" where
  "demo_attempt t = \<lparr>at_login = lit ''ann'', at_password = lit ''bad'', at_protocol = Imaps,
     at_clock = \<lparr>ck_check = t, ck_again = t, ck_record = t\<rparr>, at_gate_full = False\<rparr>"


end
