(* ===== verification/Smtp_Reply.thy ===== *)
theory Smtp_Reply
  imports Prelude
begin

section \<open>SMTP replies and SASL mechanisms\<close>

text \<open>
  \<^verbatim>\<open>Reply\<close> of \<^verbatim>\<open>src/src/smtp/reply/mod.rs\<close> and the mechanism list of \<^verbatim>\<open>src/src/sasl.rs\<close>. The two
  assertions of \<^verbatim>\<open>Reply::new\<close> are the predicate \<open>reply_ok\<close>; that every reply the session builds meets
  them is proved where the session is. A rendered reply read line by line, as RFC 5321 section 4.2.1
  says, gives back its code and its lines, and leaves what follows it untouched.
\<close>

subsection \<open>The code\<close>

record reply =
  r_code :: nat
  r_lines :: "rstr list"

definition reply_new :: "nat \<Rightarrow> rstr list \<Rightarrow> reply" where
  "reply_new code lines = \<lparr>r_code = code, r_lines = lines\<rparr>"

definition reply_ok :: "reply \<Rightarrow> bool" where
  "reply_ok r \<longleftrightarrow> 200 \<le> r_code r \<and> r_code r \<le> 599 \<and> r_lines r \<noteq> []"

definition reply_single :: "nat \<Rightarrow> rstr \<Rightarrow> reply" where
  "reply_single code text = reply_new code [text]"

definition is_positive :: "reply \<Rightarrow> bool" where
  "is_positive r \<longleftrightarrow> 200 \<le> r_code r \<and> r_code r < 400"

fun show_lines :: "nat \<Rightarrow> rstr list \<Rightarrow> rstr" where
  "show_lines code [] = []"
| "show_lines code [line] = show_nat code @ [32] @ line @ [13, 10]"
| "show_lines code (line # rest) = show_nat code @ [45] @ line @ [13, 10] @ show_lines code rest"

definition reply_show :: "reply \<Rightarrow> rstr" where
  "reply_show r = show_lines (r_code r) (r_lines r)"

definition reply_ok_250 :: reply where
  "reply_ok_250 = reply_single 250 (lit ''2.0.0 ok'')"

definition reply_closing :: reply where
  "reply_closing = reply_single 221 (lit ''2.0.0 closing connection'')"

definition syntax_error :: reply where
  "syntax_error = reply_single 500 (lit ''5.5.2 syntax error'')"

definition invalid_arguments :: reply where
  "invalid_arguments = reply_single 501 (lit ''5.5.4 invalid arguments'')"

definition bad_sequence :: reply where
  "bad_sequence = reply_single 503 (lit ''5.5.1 bad sequence of commands'')"

definition vrfy_not_disclosed :: reply where
  "vrfy_not_disclosed = reply_single 252 (lit ''2.1.5 cannot verify, send some mail and find out'')"

definition start_mail_input :: reply where
  "start_mail_input = reply_single 354 (lit ''start mail input, end with <CRLF>.<CRLF>'')"

lemmas reply_defs = reply_ok_250_def reply_closing_def syntax_error_def invalid_arguments_def
  bad_sequence_def vrfy_not_disclosed_def start_mail_input_def

datatype mechanism =
  External
| ScramSha256Plus
| ScramSha256
| Plain
| Login
| OauthBearer
| Xoauth2

definition mechanism_name :: "mechanism \<Rightarrow> rstr" where
  "mechanism_name m = (case m of
       External \<Rightarrow> lit ''EXTERNAL''
     | ScramSha256Plus \<Rightarrow> lit ''SCRAM-SHA-256-PLUS''
     | ScramSha256 \<Rightarrow> lit ''SCRAM-SHA-256''
     | Plain \<Rightarrow> lit ''PLAIN''
     | Login \<Rightarrow> lit ''LOGIN''
     | OauthBearer \<Rightarrow> lit ''OAUTHBEARER''
     | Xoauth2 \<Rightarrow> lit ''XOAUTH2'')"

definition mechanism_parse :: "rstr \<Rightarrow> mechanism option" where
  "mechanism_parse name =
     List.find (\<lambda>m. mechanism_name m = ascii_upper name)
       [External, ScramSha256Plus, ScramSha256, Plain, Login, OauthBearer, Xoauth2]"

definition sasl_available :: "bool \<Rightarrow> bool \<Rightarrow> bool \<Rightarrow> bool \<Rightarrow> mechanism list" where
  "sasl_available external channel_binding scram_enabled oauth =
     (if external then [External] else [])
     @ (if scram_enabled \<and> channel_binding then [ScramSha256Plus] else [])
     @ (if scram_enabled then [ScramSha256] else [])
     @ [Plain, Login]
     @ (if oauth then [OauthBearer, Xoauth2] else [])"

definition is_available :: "mechanism \<Rightarrow> bool \<Rightarrow> bool \<Rightarrow> bool \<Rightarrow> bool \<Rightarrow> bool" where
  "is_available m external channel_binding scram_enabled oauth \<longleftrightarrow>
     m \<in> set (sasl_available external channel_binding scram_enabled oauth)"

subsection \<open>Reading a reply back\<close>

text \<open>A client's reader: a line up to CRLF, its code, and whether another line follows.\<close>

fun until_crlf :: "rstr \<Rightarrow> (rstr \<times> rstr) option" where
  "until_crlf [] = None"
| "until_crlf (c # rest) =
     (if c = 13 \<and> rest \<noteq> [] \<and> hd rest = 10 then Some ([], tl rest)
      else map_option (\<lambda>(l, r). (c # l, r)) (until_crlf rest))"

fun read_reply :: "nat \<Rightarrow> rstr \<Rightarrow> (nat \<times> rstr list \<times> rstr) option" where
  "read_reply 0 text = None"
| "read_reply (Suc fuel) text =
     (case until_crlf text of
        None \<Rightarrow> None
      | Some (line, rest) \<Rightarrow>
          (case (parse_uint u16_max (take 3 line), drop 3 line) of
             (Some code, sep # msg) \<Rightarrow>
               if sep = 32 then Some (code, [msg], rest)
               else if sep = 45 then
                 (case read_reply fuel rest of
                    Some (code', msgs, rest') \<Rightarrow> if code' = code then Some (code, msg # msgs, rest') else None
                  | None \<Rightarrow> None)
               else None
           | _ \<Rightarrow> None))"

definition line_clean :: "rstr \<Rightarrow> bool" where
  "line_clean l \<longleftrightarrow> 13 \<notin> set l \<and> 10 \<notin> set l"

lemma until_crlf_append: "13 \<notin> set l \<Longrightarrow> until_crlf (l @ 13 # 10 # rest) = Some (l, rest)"
  by (induction l) auto

lemma show_code_length: "100 \<le> c \<Longrightarrow> c < 1000 \<Longrightarrow> length (show_nat c) = 3"
  by (subst show_nat.simps, subst show_nat.simps, subst show_nat.simps) auto

lemma read_reply_line:
  assumes "100 \<le> code" "code < 1000" "line_clean line"
  shows "until_crlf (show_nat code @ sep # line @ 13 # 10 # rest) = Some (show_nat code @ sep # line, rest)
    \<or> sep = 13"
    "parse_uint u16_max (take 3 (show_nat code @ sep # line)) = Some code"
    "drop 3 (show_nat code @ sep # line) = sep # line"
proof -
  have len: "length (show_nat code) = 3"
    using assms show_code_length by simp
  have "13 \<notin> set (show_nat code)"
    using show_nat_digits [of code] by (auto simp: list_all_iff is_digit_def)
  then have "13 \<notin> set (show_nat code @ sep # line)" if "sep \<noteq> 13"
    using assms that by (auto simp: line_clean_def)
  then show "until_crlf (show_nat code @ sep # line @ 13 # 10 # rest) = Some (show_nat code @ sep # line, rest)
    \<or> sep = 13"
    using until_crlf_append [of "show_nat code @ sep # line" rest] by auto
  show "parse_uint u16_max (take 3 (show_nat code @ sep # line)) = Some code"
    using assms(2) parse_show_nat [of code u16_max] len by (simp add: u16_max_def)
  show "drop 3 (show_nat code @ sep # line) = sep # line"
    using len by simp
qed

lemma read_show_lines:
  assumes "100 \<le> code" "code < 1000"
  shows "lines \<noteq> [] \<Longrightarrow> list_all line_clean lines \<Longrightarrow> length lines \<le> fuel \<Longrightarrow>
    read_reply fuel (show_lines code lines @ rest) = Some (code, lines, rest)"
proof (induction lines arbitrary: fuel rule: induct_list012)
  case (2 line)
  then obtain n where "fuel = Suc n" by (cases fuel) auto
  then show ?case
    using read_reply_line(1) [OF assms, of line 32 rest] read_reply_line(2,3) [OF assms, of line 32] 2 by simp
next
  case (3 line l ls)
  then obtain n where n: "fuel = Suc n" by (cases fuel) auto
  with 3 have "read_reply n (show_lines code (l # ls) @ rest) = Some (code, l # ls, rest)"
    by simp
  then show ?case
    using read_reply_line(1) [OF assms, of line 45 "show_lines code (l # ls) @ rest"]
      read_reply_line(2,3) [OF assms, of line 45] 3 n by simp
qed simp

text \<open>C27: A reply that passes the assertions of \<^verbatim>\<open>Reply::new\<close> and has no line end inside a line is read
  back by a client exactly as it was built, whatever follows it on the wire: no reply can be read as
  two, and a multi-line reply ends at its own last line.\<close>

theorem reply_read_back:
  assumes "reply_ok r" "list_all line_clean (r_lines r)"
  shows "read_reply (length (r_lines r)) (reply_show r @ rest) = Some (r_code r, r_lines r, rest)"
  using assms read_show_lines [of "r_code r" "r_lines r" "length (r_lines r)" rest]
  by (simp add: reply_ok_def reply_show_def)

theorem reply_read_back_witness:
  "read_reply 2 (reply_show (reply_new 250 [lit ''mx.example'', lit ''SIZE 10'']) @ lit ''220'')
     = Some (250, [lit ''mx.example'', lit ''SIZE 10''], lit ''220'')"
  using reply_read_back [of "reply_new 250 [lit ''mx.example'', lit ''SIZE 10'']" "lit ''220''"]
  by (simp add: reply_new_def reply_ok_def line_clean_def lit_def numeral_2_eq_2 del: read_reply.simps)

lemma mechanism_parse_name: "mechanism_parse (mechanism_name m) = Some m"
  by (cases m) (simp_all add: mechanism_parse_def mechanism_name_def str_simps)

end
