(* ===== verification/Ip_Show.thy ===== *)
theory Ip_Show
  imports Net_Cidr
begin

section \<open>Printed IP addresses\<close>

text \<open>
  What the standard library's \<^verbatim>\<open>Display\<close> of an address writes: dotted decimal, or eight groups of
  hexadecimal with the first longest run of two or more zero groups written as two colons. The
  server uses it as a rate-limit key and in trace headers.
\<close>

definition v4_octet :: "32 word \<Rightarrow> nat \<Rightarrow> nat" where
  "v4_octet a i = unat (take_bit 8 (drop_bit (24 - 8 * i) a))"

definition show_ipv4 :: "32 word \<Rightarrow> rstr" where
  "show_ipv4 a = join_with [46] (map (\<lambda>i. show_nat (v4_octet a i)) [0..<4])"

definition v6_segments :: "128 word \<Rightarrow> nat list" where
  "v6_segments a = map (\<lambda>i. unat (take_bit 16 (drop_bit (112 - 16 * i) a))) [0..<8]"

definition hex_digit :: "nat \<Rightarrow> rchar" where
  "hex_digit n = (if n < 10 then 48 + n else 87 + n)"

fun show_hex :: "nat \<Rightarrow> rstr" where
  "show_hex n = (if n < 16 then [hex_digit n] else show_hex (n div 16) @ [hex_digit (n mod 16)])"

declare show_hex.simps [simp del]

text \<open>Start and length of the first longest run of zeros.\<close>

fun zero_span :: "nat \<Rightarrow> nat \<times> nat \<Rightarrow> nat \<times> nat \<Rightarrow> nat list \<Rightarrow> nat \<times> nat" where
  "zero_span i current longest [] = longest"
| "zero_span i (cs, cl) (ls, ll) (g # gs) =
     (if g = 0 then
        (let cs' = (if cl = 0 then i else cs); cl' = cl + 1
         in zero_span (i + 1) (cs', cl') (if cl' > ll then (cs', cl') else (ls, ll)) gs)
      else zero_span (i + 1) (0, 0) (ls, ll) gs)"

definition show_groups :: "nat list \<Rightarrow> rstr" where
  "show_groups gs = join_with [58] (map show_hex gs)"

definition show_ipv6 :: "128 word \<Rightarrow> rstr" where
  "show_ipv6 a =
     (if drop_bit 32 a = 65535 then lit ''::ffff:'' @ show_ipv4 (ucast a)
      else let gs = v6_segments a; (start, len) = zero_span 0 (0, 0) (0, 0) gs
        in if len > 1 then show_groups (take start gs) @ lit ''::'' @ show_groups (drop (start + len) gs)
           else show_groups gs)"

definition show_ip :: "ipaddr \<Rightarrow> rstr" where
  "show_ip ip = (case ip of V4 a \<Rightarrow> show_ipv4 a | V6 a \<Rightarrow> show_ipv6 a)"

end
