(* ===== verification/Header_Block.thy ===== *)
theory Header_Block
  imports Utf8 Ip_Show
begin

section \<open>Header blocks\<close>

text \<open>
  Where the header block of a raw message ends, its lines and fields, and the operations on it:
  \<^verbatim>\<open>src/src/util/header_block/mod.rs\<close> and the header parts of \<^verbatim>\<open>src/src/smtp/trace/mod.rs\<close> (the count of
  \<^verbatim>\<open>Received\<close> fields, the trace header, and the rewriting that strips \<^verbatim>\<open>Bcc\<close>). The in-place rewriting
  is modelled at the level of its array copies and proved equal to the plain one.
\<close>

subsection \<open>The code\<close>

fun split_inclusive :: "('a \<Rightarrow> bool) \<Rightarrow> 'a list \<Rightarrow> 'a list list" where
  "split_inclusive p [] = []"
| "split_inclusive p (x # xs) =
     (if p x then [x] # split_inclusive p xs
      else case split_inclusive p xs of [] \<Rightarrow> [[x]] | l # ls \<Rightarrow> (x # l) # ls)"

abbreviation lf_lines :: "octets \<Rightarrow> octets list" where
  "lf_lines \<equiv> split_inclusive (\<lambda>b. b = 10)"

definition strip_last :: "8 word \<Rightarrow> octets \<Rightarrow> octets" where
  "strip_last b line = (if line \<noteq> [] \<and> last line = b then butlast line else line)"

definition unterminated :: "octets \<Rightarrow> octets" where
  "unterminated line = strip_last 13 (strip_last 10 line)"

fun find_crlfcrlf :: "octets \<Rightarrow> nat option" where
  "find_crlfcrlf [] = None"
| "find_crlfcrlf (b # bs) =
     (if take 4 (b # bs) = [13, 10, 13, 10] then Some 0 else map_option Suc (find_crlfcrlf bs))"

definition hb_split :: "octets \<Rightarrow> octets \<times> octets" where
  "hb_split raw = (case find_crlfcrlf raw of
       Some at \<Rightarrow> (take (at + 2) raw, drop (at + 4) raw)
     | None \<Rightarrow> (raw, []))"

definition split_at_blank_line :: "octets \<Rightarrow> octets \<times> octets" where
  "split_at_blank_line raw =
     (let ls = lf_lines raw
      in (concat (takeWhile (\<lambda>l. unterminated l \<noteq> []) ls),
          concat (tl (dropWhile (\<lambda>l. unterminated l \<noteq> []) ls))))"

definition line_ending :: "octets \<Rightarrow> octets" where
  "line_ending raw =
     (let pre = takeWhile (\<lambda>b. b \<noteq> 10) raw
      in if 10 \<in> set raw \<and> \<not> (pre \<noteq> [] \<and> last pre = 13) then [10] else [13, 10])"

fun has_unframed_byte :: "octets \<Rightarrow> bool" where
  "has_unframed_byte [] = False"
| "has_unframed_byte (b # bs) =
     (b = 0 \<or> b = 13 \<and> (bs = [] \<or> hd bs \<noteq> 10) \<or> has_unframed_byte bs)"

fun lf_framed :: "8 word option \<Rightarrow> octets \<Rightarrow> bool" where
  "lf_framed previous [] = True"
| "lf_framed previous (b # bs) = ((b \<noteq> 10 \<or> previous = Some 13) \<and> lf_framed (Some b) bs)"

fun crlf_normalise :: "8 word option \<Rightarrow> octets \<Rightarrow> octets" where
  "crlf_normalise previous [] = []"
| "crlf_normalise previous (b # bs) =
     (if b = 10 \<and> previous \<noteq> Some 13 then [13, b] else [b]) @ crlf_normalise (Some b) bs"

definition outbound_crlf :: "octets \<Rightarrow> octets" where
  "outbound_crlf d =
     (if ends_with [13, 10] d \<and> lf_framed None d then d
      else let n = crlf_normalise None d in if ends_with [13, 10] n then n else n @ [13, 10])"

fun reframe :: "octets \<Rightarrow> octets" where
  "reframe [] = []"
| "reframe (b # bs) =
     (if b = 0 then reframe bs
      else if b = 13 then [13, 10] @ (case bs of [] \<Rightarrow> [] | c # cs \<Rightarrow> if c = 10 then reframe cs else reframe bs)
      else if b = 10 then [13, 10] @ reframe bs
      else b # reframe bs)"

definition frame_generated :: "octets \<Rightarrow> octets" where
  "frame_generated d = (if \<not> has_unframed_byte d then outbound_crlf d else outbound_crlf (reframe d))"

definition hb_lines :: "octets \<Rightarrow> octets list" where
  "hb_lines block = map unterminated (lf_lines block)"

definition is_continuation :: "octets \<Rightarrow> bool" where
  "is_continuation line \<longleftrightarrow> line \<noteq> [] \<and> (hd line = 32 \<or> hd line = 9)"

definition begins_field :: "octets \<Rightarrow> bool" where
  "begins_field line \<longleftrightarrow> line \<noteq> [] \<and> \<not> is_continuation line"

definition field_count :: "octets \<Rightarrow> nat" where
  "field_count raw = length (filter begins_field (hb_lines (fst (hb_split raw))))"

definition MAX_HEADER_FIELDS :: nat where
  "MAX_HEADER_FIELDS = 9900"

definition refuse_padded_headers :: "octets \<Rightarrow> bool" where
  "refuse_padded_headers d \<longleftrightarrow> \<not> field_count d \<le> MAX_HEADER_FIELDS"

text \<open>The count of \<^verbatim>\<open>Received\<close> fields. \<^verbatim>\<open>line[..9]\<close> indexes a string by octets, which panics inside the
  encoding of a character: \<open>None\<close>.\<close>

definition RECEIVED_HOP_LIMIT :: nat where
  "RECEIVED_HOP_LIMIT = 100"

definition hop_line :: "rstr \<Rightarrow> bool option" where
  "hop_line line =
     (if line \<noteq> [] \<and> (hd line = 32 \<or> hd line = 9) \<or> slen line < 9 then Some False
      else case split_at_octet 9 line of
        None \<Rightarrow> None
      | Some (name, _) \<Rightarrow> Some (eq_ignore_case name (lit ''received:'')))"

fun count_hops :: "rstr list \<Rightarrow> nat option" where
  "count_hops [] = Some 0"
| "count_hops (l # ls) =
     (case hop_line l of
        None \<Rightarrow> None
      | Some hop \<Rightarrow> map_option (\<lambda>n. if hop then Suc n else n) (count_hops ls))"

definition hop_lines :: "octets \<Rightarrow> rstr list" where
  "hop_lines d =
     (let header_end = (case find_crlfcrlf d of Some p \<Rightarrow> p + 2 | None \<Rightarrow> length d)
      in split_inclusive (\<lambda>c. c = 10) (from_utf8_lossy (take header_end d)))"

definition received_hop_count :: "octets \<Rightarrow> nat option" where
  "received_hop_count d = count_hops (hop_lines d)"

definition spf_domain :: "rstr \<Rightarrow> rstr option \<Rightarrow> rstr option" where
  "spf_domain path helo =
     (if path = [] then helo else map_option (\<lambda>(_, domain). ascii_lower domain) (rsplit_once 64 path))"

definition received_protocol :: "bool \<Rightarrow> bool \<Rightarrow> bool \<Rightarrow> rstr" where
  "received_protocol esmtp tls auth =
     (if \<not> esmtp then lit ''SMTP''
      else lit ''ESMTP'' @ (if tls then lit ''S'' else []) @ (if auth then lit ''A'' else []))"

text \<open>\<open>date\<close> is the clock's printed date.\<close>

definition received_header :: "rstr option \<Rightarrow> ipaddr option \<Rightarrow> rstr \<Rightarrow> bool \<Rightarrow> bool \<Rightarrow> bool \<Rightarrow> rstr \<Rightarrow> rstr" where
  "received_header helo peer hostname esmtp tls auth date =
     (let client = (case helo of Some h \<Rightarrow> h | None \<Rightarrow> lit ''unknown'');
          shown = (case peer of Some ip \<Rightarrow> [91] @ show_ip ip @ [93] | None \<Rightarrow> lit ''[unknown]'')
      in lit ''Received: from '' @ client @ lit '' ('' @ shown @ lit '')'' @ [13, 10, 9] @ lit ''by ''
         @ hostname @ lit '' with '' @ received_protocol esmtp tls auth @ lit '';'' @ [13, 10, 9]
         @ date @ [13, 10])"

definition format_auth_results :: "rstr \<Rightarrow> rstr list \<Rightarrow> rstr" where
  "format_auth_results hostname methods =
     lit ''Authentication-Results: '' @ hostname
     @ concat (map (\<lambda>m. lit '';'' @ [13, 10, 9] @ m) methods) @ [13, 10]"

subsection \<open>Fields by name\<close>

definition oct_whitespace :: "8 word \<Rightarrow> bool" where
  "oct_whitespace b \<longleftrightarrow> is_ascii_whitespace (unat b)"

definition oct_eq_ignore_case :: "8 word \<Rightarrow> 8 word \<Rightarrow> bool" where
  "oct_eq_ignore_case a b \<longleftrightarrow> to_lower (unat a) = to_lower (unat b)"

definition trim_ascii_end :: "octets \<Rightarrow> octets" where
  "trim_ascii_end bs = rev (dropWhile oct_whitespace (rev bs))"

definition fold_trailing_space :: "octets \<Rightarrow> octets" where
  "fold_trailing_space name = (case from_utf8 name of
       None \<Rightarrow> name | Some text \<Rightarrow> utf8_encode (trim_end text))"

definition split_field :: "octets \<Rightarrow> (octets \<times> octets) option" where
  "split_field line =
     (let rest = dropWhile (\<lambda>b. b = 58 \<or> oct_whitespace b) line
      in map_option (\<lambda>(name, value). (fold_trailing_space (trim_ascii_end name), value))
           (split_once 58 rest))"

definition field_name :: "octets \<Rightarrow> octets option" where
  "field_name line = map_option fst (split_field line)"

definition same_name :: "octets \<Rightarrow> octets \<Rightarrow> bool" where
  "same_name name wanted =
     list_all2 oct_eq_ignore_case (filter (\<lambda>b. \<not> oct_whitespace b) name)
       (filter (\<lambda>b. \<not> oct_whitespace b) wanted)"

definition named :: "octets \<Rightarrow> rstr list \<Rightarrow> bool" where
  "named name names = list_ex (\<lambda>wanted. same_name name (utf8_encode wanted)) names"

definition header_block_end :: "octets \<Rightarrow> nat" where
  "header_block_end d = length (fst (split_at_blank_line d))"

text \<open>The lines kept by a rewriting; \<open>keep\<close> may depend on the names it saw before, so it threads a
  state.\<close>

definition drop_step :: "('s \<Rightarrow> octets \<Rightarrow> 's \<times> bool) \<Rightarrow> 's \<Rightarrow> bool \<Rightarrow> octets \<Rightarrow> 's \<times> bool" where
  "drop_step keep st dropping l =
     (if is_continuation l then (st, dropping)
      else case field_name l of
             None \<Rightarrow> (st, False)
           | Some name \<Rightarrow> (case keep st name of (st', wanted) \<Rightarrow> (st', \<not> wanted)))"

fun kept_lines :: "('s \<Rightarrow> octets \<Rightarrow> 's \<times> bool) \<Rightarrow> 's \<Rightarrow> bool \<Rightarrow> octets list \<Rightarrow> octets list" where
  "kept_lines keep st dropping [] = []"
| "kept_lines keep st dropping (l # ls) =
     (case drop_step keep st dropping l of
        (st', dropping') \<Rightarrow> (if dropping' then [] else [l]) @ kept_lines keep st' dropping' ls)"

definition rewrite_header_block :: "('s \<Rightarrow> octets \<Rightarrow> 's \<times> bool) \<Rightarrow> 's \<Rightarrow> octets \<Rightarrow> octets" where
  "rewrite_header_block keep st d =
     concat (kept_lines keep st False (lf_lines (take (header_block_end d) d))) @ drop (header_block_end d) d"

definition strip_headers :: "octets \<Rightarrow> rstr list \<Rightarrow> octets" where
  "strip_headers d names = rewrite_header_block (\<lambda>_ name. ((), \<not> named name names)) () d"

definition strip_bcc :: "octets \<Rightarrow> octets" where
  "strip_bcc d = strip_headers d [lit ''bcc'', lit ''resent-bcc'']"

fun find_named :: "octets \<Rightarrow> rstr list \<Rightarrow> nat option" where
  "find_named name [] = None"
| "find_named name (w # ws) =
     (if same_name name (utf8_encode w) then Some 0 else map_option Suc (find_named name ws))"

definition keep_first :: "rstr list \<Rightarrow> bool list \<Rightarrow> octets \<Rightarrow> bool list \<times> bool" where
  "keep_first names seen name = (case find_named name names of
       None \<Rightarrow> (seen, True)
     | Some i \<Rightarrow> (seen[i := True], \<not> seen ! i))"

subsection \<open>Rewriting in place\<close>

text \<open>The kept lines as offset and length, then the copies: line by line towards the front, then the
  body over the gap. \<^verbatim>\<open>copy_within\<close> reads the array as it was before the copy, so the two ranges may
  overlap.\<close>

fun kept_spans :: "('s \<Rightarrow> octets \<Rightarrow> 's \<times> bool) \<Rightarrow> 's \<Rightarrow> bool \<Rightarrow> nat \<Rightarrow> octets list \<Rightarrow> (nat \<times> nat) list" where
  "kept_spans keep st dropping cursor [] = []"
| "kept_spans keep st dropping cursor (l # ls) =
     (case drop_step keep st dropping l of
        (st', dropping') \<Rightarrow>
          (if dropping' then [] else [(cursor, length l)])
          @ kept_spans keep st' dropping' (cursor + length l) ls)"

definition copy_within :: "nat \<Rightarrow> nat \<Rightarrow> nat \<Rightarrow> 'a list \<Rightarrow> 'a list" where
  "copy_within src len dst d =
     map (\<lambda>i. if dst \<le> i \<and> i < dst + len then d ! (src + (i - dst)) else d ! i) [0..<length d]"

fun copy_forward :: "nat \<Rightarrow> nat \<Rightarrow> nat \<Rightarrow> nat \<Rightarrow> 'a list \<Rightarrow> 'a list" where
  "copy_forward src dst i 0 d = d"
| "copy_forward src dst i (Suc n) d = copy_forward src dst (Suc i) n (d[dst + i := d ! (src + i)])"

fun compact :: "nat \<Rightarrow> (nat \<times> nat) list \<Rightarrow> octets \<Rightarrow> nat \<times> octets" where
  "compact write_to [] d = (write_to, d)"
| "compact write_to ((offset, len) # ks) d =
     compact (write_to + len) ks
       (if write_to \<ge> offset then copy_forward offset write_to 0 len d
        else copy_within offset len write_to d)"

definition move_body :: "nat \<Rightarrow> nat \<Rightarrow> octets \<Rightarrow> octets" where
  "move_body header_end write_to d =
     (let body_len = length d - header_end
      in if body_len = 0 then take write_to d
         else if write_to + body_len \<le> header_end
         then take (write_to + body_len)
                (take write_to d @ drop header_end d @ drop (write_to + body_len) (take header_end d) @ drop header_end d)
         else let head = header_end - write_to; right = drop header_end d
           in take (write_to + body_len)
                (take write_to d @ take head right @ copy_within head (body_len - head) 0 right))"

definition rewrite_header_block_in_place :: "('s \<Rightarrow> octets \<Rightarrow> 's \<times> bool) \<Rightarrow> 's \<Rightarrow> octets \<Rightarrow> octets" where
  "rewrite_header_block_in_place keep st d =
     (let header_end = header_block_end d;
          (write_to, d') = compact 0 (kept_spans keep st False 0 (lf_lines (take header_end d))) d
      in move_body header_end write_to d')"

definition strip_headers_in_place :: "octets \<Rightarrow> rstr list \<Rightarrow> octets" where
  "strip_headers_in_place d names = rewrite_header_block_in_place (\<lambda>_ name. ((), \<not> named name names)) () d"

definition strip_bcc_in_place :: "octets \<Rightarrow> octets" where
  "strip_bcc_in_place d = strip_headers_in_place d [lit ''bcc'', lit ''resent-bcc'']"

definition keep_first_of_each_in_place :: "octets \<Rightarrow> rstr list \<Rightarrow> octets" where
  "keep_first_of_each_in_place d names =
     rewrite_header_block_in_place (keep_first names) (replicate (length names) False) d"

subsection \<open>Rewriting in place equals rewriting\<close>

lemma concat_split_inclusive [simp]: "concat (split_inclusive p xs) = xs"
  by (induction xs) (auto split: list.splits)

lemma length_copy_within [simp]: "length (copy_within src len dst d) = length d"
  by (simp add: copy_within_def)

lemma copy_within_eq:
  assumes "src + len \<le> length d" "dst + len \<le> length d"
  shows "copy_within src len dst d = take dst d @ take len (drop src d) @ drop (dst + len) d"
proof -
  have "min len (length d - src) = len" "min (length d) dst = dst"
    using assms by simp_all
  then show ?thesis
    using assms by (intro nth_equalityI) (auto simp: copy_within_def nth_append)
qed

fun spans_ok :: "nat \<Rightarrow> nat \<Rightarrow> (nat \<times> nat) list \<Rightarrow> bool" where
  "spans_ok c H [] = (c \<le> H)"
| "spans_ok c H ((offset, len) # ks) = (c \<le> offset \<and> spans_ok (offset + len) H ks)"

definition slices :: "octets \<Rightarrow> (nat \<times> nat) list \<Rightarrow> octets" where
  "slices d ks = concat (map (\<lambda>(offset, len). take len (drop offset d)) ks)"

lemma spans_ok_mono: "spans_ok c H ks \<Longrightarrow> c' \<le> c \<Longrightarrow> spans_ok c' H ks"
  by (cases ks) auto

lemma spans_ok_le: "spans_ok c H ks \<Longrightarrow> c \<le> H"
  by (induction c H ks rule: spans_ok.induct) auto

lemma slices_cong: "spans_ok c H ks \<Longrightarrow> drop c d = drop c d' \<Longrightarrow> slices d ks = slices d' ks"
proof (induction c H ks rule: spans_ok.induct)
  case (2 c H offset len ks)
  then have "drop offset d = drop offset d'" "drop (offset + len) d = drop (offset + len) d'"
    by (metis drop_drop le_add_diff_inverse2 spans_ok.simps(2) trans_le_add1)+
  with 2 show ?case by (simp add: slices_def)
qed (simp add: slices_def)

lemma copy_forward_same [simp]: "copy_forward k k i n d = d"
  by (induction n arbitrary: i) simp_all

lemma copy_step:
  assumes "w \<le> offset" "offset + len \<le> length d"
  defines "d' \<equiv> (if w \<ge> offset then copy_forward offset w 0 len d else copy_within offset len w d)"
  shows "length d' = length d" "take (w + len) d' = take w d @ take len (drop offset d)"
    "drop (w + len) d' = drop (w + len) d"
proof -
  define sl where "sl = take len (drop offset d)"
  have len: "length sl = len"
    using assms(2) by (simp add: sl_def)
  have d': "d' = take w d @ take len (drop offset d) @ drop (w + len) d"
  proof (cases "w = offset")
    case True
    then have "d' = d"
      by (simp add: d'_def)
    also have "d = take w d @ take len (drop w d) @ drop len (drop w d)"
      by (simp only: append_take_drop_id)
    finally show ?thesis using True by (simp add: add.commute)
  qed (use assms(1,2) in \<open>simp add: d'_def copy_within_eq\<close>)
  show "length d' = length d" "take (w + len) d' = take w d @ take len (drop offset d)"
    "drop (w + len) d' = drop (w + len) d"
    using assms(1,2) len unfolding d' sl_def [symmetric] by simp_all
qed

lemma compact_correct:
  "spans_ok c H ks \<Longrightarrow> w \<le> c \<Longrightarrow> H \<le> length d \<Longrightarrow> compact w ks d = (w', d') \<Longrightarrow>
     w \<le> w' \<and> w' \<le> H \<and> length d' = length d \<and> take w' d' = take w d @ slices d ks \<and> drop H d' = drop H d"
proof (induction ks arbitrary: c w d)
  case Nil
  then show ?case by (simp add: slices_def)
next
  case (Cons k ks)
  obtain offset len where k: "k = (offset, len)" by (cases k)
  define d1 where "d1 = (if w \<ge> offset then copy_forward offset w 0 len d else copy_within offset len w d)"
  have ok: "c \<le> offset" "spans_ok (offset + len) H ks" "offset + len \<le> H"
    using Cons.prems(1) spans_ok_le by (auto simp: k)
  note step = copy_step [of w offset len d, folded d1_def]
  have w: "w \<le> offset" "offset + len \<le> length d"
    using ok Cons.prems(2,3) by simp_all
  have IH: "w + len \<le> w' \<and> w' \<le> H \<and> length d' = length d1 \<and> take w' d' = take (w + len) d1 @ slices d1 ks
      \<and> drop H d' = drop H d1"
    using Cons.IH [OF ok(2), of "w + len" d1] Cons.prems(3,4) w step by (simp add: k d1_def)
  have tail: "drop n d1 = drop n d" if "w + len \<le> n" for n
    using step(3) [OF w] that by (metis drop_drop le_add_diff_inverse2)
  have "slices d1 ks = slices d ks"
    by (rule slices_cong [OF ok(2)]) (use tail w in simp)
  then show ?case
    using IH step w tail [of H] ok by (simp add: k slices_def)
qed

lemma move_body_correct:
  assumes "w \<le> H" "H \<le> length d"
  shows "move_body H w d = take w d @ drop H d"
proof -
  have "H - w + H = H + H - w"
    using assms(1) by simp
  then have "take (H - w) (drop H d) @ drop (H + H - w) d = drop H d"
    using append_take_drop_id [of "H - w" "drop H d"] by simp
  then show ?thesis
    using assms by (auto simp: move_body_def copy_within_eq Let_def)
qed

lemma kept_spans_lines:
  "D = pre @ concat ls @ post \<Longrightarrow> length pre = c \<Longrightarrow> H = c + length (concat ls) \<Longrightarrow>
     slices D (kept_spans keep st dropping c ls) = concat (kept_lines keep st dropping ls)
     \<and> spans_ok c H (kept_spans keep st dropping c ls)"
proof (induction keep st dropping c ls arbitrary: pre rule: kept_spans.induct)
  case (1 keep st dropping cursor)
  then show ?case by (simp add: slices_def)
next
  case (2 keep st dropping cursor l ls)
  obtain st' dr where upd: "drop_step keep st dropping l = (st', dr)"
    by (meson surj_pair)
  have IH: "slices D (kept_spans keep st' dr (cursor + length l) ls) = concat (kept_lines keep st' dr ls)
     \<and> spans_ok (cursor + length l) H (kept_spans keep st' dr (cursor + length l) ls)"
    using 2(1) [OF upd [symmetric], of "pre @ l"] 2(2-) by simp
  have "take (length l) (drop cursor D) = l"
    using 2(2,3) by simp
  then show ?case
    using IH upd spans_ok_mono [of "cursor + length l" H "kept_spans keep st' dr (cursor + length l) ls" cursor]
    by (auto simp: slices_def simp del: split_paired_All)
qed

lemma header_block_end_le: "header_block_end d \<le> length d"
proof -
  have "length (concat (takeWhile P ls)) \<le> length (concat ls)" for P and ls :: "octets list"
    by (metis concat_append le_add1 length_append takeWhile_dropWhile_id)
  from this [of "\<lambda>l. unterminated l \<noteq> []" "lf_lines d"] show ?thesis
    by (simp add: header_block_end_def split_at_blank_line_def Let_def)
qed

lemma rewrite_in_place_eq: "rewrite_header_block_in_place keep st d = rewrite_header_block keep st d"
proof -
  define H ls where "H = header_block_end d" and "ls = lf_lines (take H d)"
  have H: "H \<le> length d"
    using header_block_end_le by (simp add: H_def)
  have spans: "slices d (kept_spans keep st False 0 ls) = concat (kept_lines keep st False ls)"
    "spans_ok 0 H (kept_spans keep st False 0 ls)"
  proof -
    have "d = [] @ concat ls @ drop H d" "length ([] :: octets) = 0" "H = 0 + length (concat ls)"
      using H by (simp_all add: ls_def)
    note * = kept_spans_lines [OF this, of keep st False]
    show "slices d (kept_spans keep st False 0 ls) = concat (kept_lines keep st False ls)"
      "spans_ok 0 H (kept_spans keep st False 0 ls)"
      by (rule conjunct1 [OF *], rule conjunct2 [OF *])
  qed
  obtain w' d' where c: "compact 0 (kept_spans keep st False 0 ls) d = (w', d')"
    by fastforce
  have "w' \<le> H \<and> length d' = length d \<and> take w' d' = concat (kept_lines keep st False ls) \<and> drop H d' = drop H d"
    using compact_correct [OF spans(2) _ H c] spans(1) by simp
  moreover from this have "move_body H w' d' = take w' d' @ drop H d'"
    using H by (intro move_body_correct) simp_all
  moreover have "rewrite_header_block_in_place keep st d = move_body H w' d'"
    using c by (simp add: rewrite_header_block_in_place_def H_def ls_def Let_def)
  moreover have "rewrite_header_block keep st d = concat (kept_lines keep st False ls) @ drop H d"
    by (simp add: rewrite_header_block_def H_def ls_def)
  ultimately show ?thesis
    by metis
qed

subsection \<open>What a strip leaves\<close>

definition full_line :: "octets \<Rightarrow> bool" where
  "full_line l \<longleftrightarrow> l \<noteq> [] \<and> last l = 10 \<and> 10 \<notin> set (butlast l)"

lemma lf_lines_full: "full_line l \<Longrightarrow> lf_lines (l @ rest) = l # lf_lines rest"
  by (induction l) (auto simp: full_line_def split: if_splits list.splits)

lemma lf_lines_full_concat: "\<forall>l\<in>set ls. full_line l \<Longrightarrow> lf_lines (concat ls @ rest) = ls @ lf_lines rest"
  by (induction ls) (simp_all add: lf_lines_full)

lemma lf_lines_partial: "10 \<notin> set l \<Longrightarrow> l \<noteq> [] \<Longrightarrow> lf_lines l = [l]"
proof (induction l)
  case (Cons a l)
  then show ?case by (cases "l = []") auto
qed simp

lemma lf_lines_Nil_iff [simp]: "lf_lines d = [] \<longleftrightarrow> d = []"
  by (cases d) (auto split: list.splits)

lemma lf_lines_form:
  "\<exists>ls tail. lf_lines d = ls @ (if tail = [] then [] else [tail]) \<and> (\<forall>l\<in>set ls. full_line l) \<and> 10 \<notin> set tail"
proof (induction d)
  case Nil
  have "lf_lines [] = [] @ (if ([] :: octets) = [] then [] else [[]])" by simp
  then show ?case by force
next
  case (Cons b d)
  then obtain ls tail where IH: "lf_lines d = ls @ (if tail = [] then [] else [tail])"
    "\<forall>l\<in>set ls. full_line l" "10 \<notin> set tail" by blast
  show ?case
  proof (cases "b = 10")
    case True
    then show ?thesis
      using IH by (intro exI [of _ "[b] # ls"] exI [of _ tail]) (simp add: full_line_def)
  next
    case b: False
    show ?thesis
    proof (cases ls)
      case Nil
      then show ?thesis
        using IH b by (intro exI [of _ "[]"] exI [of _ "b # tail"]) simp
    next
      case (Cons l ls')
      then have "full_line (b # l)"
        using IH(2) b by (auto simp: full_line_def)
      then show ?thesis
        using IH b Cons by (intro exI [of _ "(b # l) # ls'"] exI [of _ tail]) simp
    qed
  qed
qed

text \<open>Header lines of a message, and the message from them on.\<close>

definition block_lines :: "octets \<Rightarrow> octets list" where
  "block_lines d = takeWhile (\<lambda>l. unterminated l \<noteq> []) (lf_lines d)"

definition body_part :: "octets \<Rightarrow> octets" where
  "body_part d = concat (dropWhile (\<lambda>l. unterminated l \<noteq> []) (lf_lines d))"

lemma header_block_end_lines: "header_block_end d = length (concat (block_lines d))"
  by (simp add: header_block_end_def split_at_blank_line_def block_lines_def Let_def)

lemma block_body: "concat (block_lines d) @ body_part d = d"
  unfolding block_lines_def body_part_def by (metis concat_append concat_split_inclusive takeWhile_dropWhile_id)

lemma take_drop_block: "take (header_block_end d) d = concat (block_lines d)" "drop (header_block_end d) d = body_part d"
  using block_body [of d] by (metis append_eq_conv_conj header_block_end_lines)+

lemma lines_of_lines:
  assumes "lf_lines d = xs @ ys"
  shows "lf_lines (concat xs) = xs" "lf_lines (concat ys) = ys" "ys \<noteq> [] \<Longrightarrow> \<forall>l\<in>set xs. full_line l"
proof -
  obtain ls tail where f: "lf_lines d = ls @ (if tail = [] then [] else [tail])"
    "\<forall>l\<in>set ls. full_line l" "10 \<notin> set tail"
    using lf_lines_form by blast
  have full: "\<forall>l\<in>set xs. full_line l" if "ys \<noteq> []"
  proof -
    have "xs @ butlast ys = butlast (lf_lines d)"
      using assms that by (simp add: butlast_append)
    also have "set \<dots> \<subseteq> set ls"
      using f(1) by (auto simp: butlast_append dest: in_set_butlastD split: if_splits)
    finally show ?thesis using f(2) by auto
  qed
  then show "ys \<noteq> [] \<Longrightarrow> \<forall>l\<in>set xs. full_line l" .
  have whole: "lf_lines (concat zs) = zs" if "lf_lines d = ws @ zs" for ws zs
  proof (cases zs rule: rev_cases)
    case (snoc zs' z)
    have zs': "\<forall>l\<in>set zs'. full_line l" and z: "full_line z \<or> z \<noteq> [] \<and> 10 \<notin> set z"
    proof (atomize (full), cases "tail = []")
      case True
      then have "ls = ws @ zs' @ [z]"
        using f(1) that snoc by simp
      then have "set (zs' @ [z]) \<subseteq> set ls"
        by auto
      then show "(\<forall>l\<in>set zs'. full_line l) \<and> (full_line z \<or> z \<noteq> [] \<and> 10 \<notin> set z)"
        using f(2) by auto
    next
      case False
      then have "ws @ zs' = ls \<and> z = tail"
        using f(1) that snoc by simp
      then show "(\<forall>l\<in>set zs'. full_line l) \<and> (full_line z \<or> z \<noteq> [] \<and> 10 \<notin> set z)"
        using f(2,3) False by auto
    qed
    then show ?thesis
      using snoc lf_lines_full_concat [OF zs', of z] lf_lines_full [of z "[]"] lf_lines_partial [of z] by auto
  qed simp
  show "lf_lines (concat ys) = ys"
    using whole assms by blast
  show "lf_lines (concat xs) = xs"
  proof (cases "ys = []")
    case True
    then show ?thesis using whole [of "[]" xs] assms by simp
  next
    case False
    then show ?thesis using lf_lines_full_concat [of xs "[]"] full by simp
  qed
qed

lemma lf_lines_block: "lf_lines d = block_lines d @ lf_lines (body_part d)"
  "lf_lines (concat (block_lines d)) = block_lines d"
proof -
  have "lf_lines d = block_lines d @ dropWhile (\<lambda>l. unterminated l \<noteq> []) (lf_lines d)"
    by (simp add: block_lines_def)
  from lines_of_lines [OF this] this
  show "lf_lines d = block_lines d @ lf_lines (body_part d)" "lf_lines (concat (block_lines d)) = block_lines d"
    by (simp_all add: body_part_def)
qed

lemma kept_lines_subset: "set (kept_lines keep st dropping ls) \<subseteq> set ls"
proof (induction ls arbitrary: st dropping)
  case (Cons l ls)
  then show ?case by (cases "drop_step keep st dropping l") auto
qed simp

text \<open>The fields of a block: a line and its continuations.\<close>

function group_fields :: "octets list \<Rightarrow> octets list list" where
  "group_fields [] = []"
| "group_fields (l # ls) = (l # takeWhile is_continuation ls) # group_fields (dropWhile is_continuation ls)"
  by pat_completeness auto
termination
  by (relation "measure length") (auto simp: le_imp_less_Suc length_dropWhile_le)

definition field_wanted :: "rstr list \<Rightarrow> octets list \<Rightarrow> bool" where
  "field_wanted names f \<longleftrightarrow> is_continuation (hd f) \<or> (case field_name (hd f) of
     None \<Rightarrow> True | Some name \<Rightarrow> \<not> named name names)"

abbreviation strip_keep :: "rstr list \<Rightarrow> unit \<Rightarrow> octets \<Rightarrow> unit \<times> bool" where
  "strip_keep names \<equiv> \<lambda>_ name. ((), \<not> named name names)"

lemma kept_lines_continuations:
  "kept_lines keep st dropping (takeWhile is_continuation ls @ rest)
     = (if dropping then [] else takeWhile is_continuation ls) @ kept_lines keep st dropping rest"
  by (cases dropping; induction ls) (simp_all add: drop_step_def)

lemma kept_lines_group:
  "kept_lines (strip_keep names) () dropping ls =
     (if dropping then [] else takeWhile is_continuation ls)
     @ concat (filter (field_wanted names) (group_fields (dropWhile is_continuation ls)))"
proof (induction "length ls" arbitrary: ls dropping rule: less_induct)
  case less
  define c rest where "c = takeWhile is_continuation ls" and "rest = dropWhile is_continuation ls"
  have ls: "kept_lines (strip_keep names) () dropping ls
      = (if dropping then [] else c) @ kept_lines (strip_keep names) () dropping rest"
    using kept_lines_continuations [of "strip_keep names" "()" dropping ls rest] by (simp add: c_def rest_def)
  have "kept_lines (strip_keep names) () dropping rest
      = concat (filter (field_wanted names) (group_fields rest))"
  proof (cases rest)
    case (Cons l ls')
    then have l: "\<not> is_continuation l"
      unfolding rest_def by (metis dropWhile_eq_Cons_conv)
    have shorter: "length ls' < length ls"
      using Cons length_dropWhile_le [of is_continuation ls] by (simp add: rest_def)
    have "drop_step (strip_keep names) () dropping l = ((), \<not> field_wanted names (l # takeWhile is_continuation ls'))"
      using l by (simp add: drop_step_def field_wanted_def split: option.splits)
    then show ?thesis
      using less [OF shorter] Cons by simp
  qed simp
  with ls show ?case by (simp add: c_def rest_def)
qed

lemma dropWhile_hd: "dropWhile P xs = y # ys \<Longrightarrow> \<not> P y"
  by (metis dropWhile_eq_Cons_conv)

lemma hd_group_dropped: "f \<in> set (group_fields (dropWhile is_continuation ls)) \<Longrightarrow> \<not> is_continuation (hd f) \<and> f \<noteq> []"
proof (induction "length ls" arbitrary: ls rule: less_induct)
  case less
  show ?case
  proof (cases "dropWhile is_continuation ls")
    case (Cons l ls')
    moreover have "length ls' < length ls"
      using Cons length_dropWhile_le [of is_continuation ls] by simp
    ultimately show ?thesis
      using less dropWhile_hd [OF Cons] by auto
  next
    case Nil
    show ?thesis using less.prems unfolding Nil by simp
  qed
qed

lemma concat_group [simp]: "concat (group_fields ls) = ls"
  by (induction ls rule: group_fields.induct) simp_all

definition good_field :: "octets list \<Rightarrow> bool" where
  "good_field f \<longleftrightarrow> f \<noteq> [] \<and> (\<forall>l\<in>set (tl f). is_continuation l)"

lemma group_fields_good: "f \<in> set (group_fields ls) \<Longrightarrow> good_field f"
  by (induction ls rule: group_fields.induct) (auto simp: good_field_def dest: set_takeWhileD)

lemma group_concat:
  "\<forall>f\<in>set gs. good_field f \<Longrightarrow> \<forall>f\<in>set (tl gs). \<not> is_continuation (hd f) \<Longrightarrow> group_fields (concat gs) = gs"
proof (induction gs)
  case (Cons f gs)
  obtain l cs where f: "f = l # cs" "\<forall>c\<in>set cs. is_continuation c"
    using Cons.prems(1) by (cases f) (auto simp: good_field_def)
  have "takeWhile is_continuation (concat gs) = [] \<and> dropWhile is_continuation (concat gs) = concat gs"
    using Cons.prems by (cases gs; cases "hd gs") (auto simp: good_field_def)
  moreover have "group_fields (concat gs) = gs"
    using Cons by (cases gs) auto
  ultimately show ?case
    using f by (simp add: takeWhile_append2 dropWhile_append2)
qed simp

lemma tl_filter_subset: "set (tl (filter P xs)) \<subseteq> set (tl xs)"
proof (induction xs)
  case (Cons x xs)
  then show ?case by (cases xs) auto
qed simp

lemma group_filter: "group_fields (concat (filter P (group_fields ls))) = filter P (group_fields ls)"
proof (rule group_concat)
  have "\<forall>f\<in>set (tl (group_fields ls)). \<not> is_continuation (hd f)"
    using hd_group_dropped by (cases ls) auto
  then show "\<forall>f\<in>set (tl (filter P (group_fields ls))). \<not> is_continuation (hd f)"
    using tl_filter_subset [of P "group_fields ls"] by blast
qed (use group_fields_good in auto)

lemma kept_lines_fields: "kept_lines (strip_keep names) () False ls = concat (filter (field_wanted names) (group_fields ls))"
proof (cases ls)
  case (Cons l rest)
  show ?thesis
  proof (cases "is_continuation l")
    case True
    then show ?thesis
      unfolding kept_lines_group using Cons by (simp add: field_wanted_def)
  next
    case False
    then show ?thesis
      unfolding kept_lines_group using Cons by simp
  qed
qed simp

lemma kept_lines_snoc: "\<exists>b. kept_lines keep st dropping (xs @ [x]) = kept_lines keep st dropping xs @ (if b then [x] else [])"
proof (induction xs arbitrary: st dropping)
  case Nil
  show ?case by (cases "drop_step keep st dropping x") (auto intro: exI [of _ "\<not> snd (drop_step keep st dropping x)"])
next
  case (Cons l xs)
  obtain st' dr where "drop_step keep st dropping l = (st', dr)" by fastforce
  with Cons [of st' dr] show ?case by auto
qed

lemma lf_lines_kept:
  assumes "lf_lines d = ls"
  shows "lf_lines (concat (kept_lines keep st dropping ls)) = kept_lines keep st dropping ls"
proof -
  obtain xs tail where f: "ls = xs @ (if tail = [] then [] else [tail])" "\<forall>l\<in>set xs. full_line l" "10 \<notin> set tail"
    using lf_lines_form [of d] assms by blast
  have full: "\<forall>l\<in>set (kept_lines keep st dropping xs). full_line l"
    using f(2) kept_lines_subset [of keep st dropping xs] by blast
  show ?thesis
  proof (cases "tail = []")
    case True
    then show ?thesis using f(1) lf_lines_full_concat [OF full, of "[]"] by simp
  next
    case False
    then obtain b where "kept_lines keep st dropping ls = kept_lines keep st dropping xs @ (if b then [tail] else [])"
      using f(1) kept_lines_snoc [of keep st dropping xs tail] by auto
    then show ?thesis
      using False f(3) lf_lines_full_concat [OF full, of tail] lf_lines_full_concat [OF full, of "[]"]
        lf_lines_partial [of tail] by auto
  qed
qed

lemma rewrite_parts:
  "block_lines (rewrite_header_block keep st d) = kept_lines keep st False (block_lines d)"
  "body_part (rewrite_header_block keep st d) = body_part d"
proof -
  let ?K = "kept_lines keep st False (block_lines d)"
  have r: "rewrite_header_block keep st d = concat ?K @ body_part d"
    by (simp add: rewrite_header_block_def take_drop_block lf_lines_block(2))
  have lines: "lf_lines (concat ?K @ body_part d) = ?K @ lf_lines (body_part d)"
  proof (cases "body_part d = []")
    case True
    then show ?thesis
      using lf_lines_kept [OF lf_lines_block(2) [of d], of keep st False] by simp
  next
    case False
    then have "\<forall>l\<in>set (block_lines d). full_line l"
      using lines_of_lines(3) [OF lf_lines_block(1)] by simp
    then show ?thesis
      using kept_lines_subset [of keep st False "block_lines d"] by (intro lf_lines_full_concat) blast
  qed
  have nonblank: "\<forall>l\<in>set ?K. unterminated l \<noteq> []"
    using kept_lines_subset [of keep st False "block_lines d"] by (auto simp: block_lines_def dest: set_takeWhileD)
  have "lf_lines (body_part d) = dropWhile (\<lambda>l. unterminated l \<noteq> []) (lf_lines d)"
  proof -
    have "block_lines d @ dropWhile (\<lambda>l. unterminated l \<noteq> []) (lf_lines d) = lf_lines d"
      by (simp add: block_lines_def)
    also note lf_lines_block(1) [of d]
    finally show ?thesis by simp
  qed
  then have "lf_lines (body_part d) = [] \<or> unterminated (hd (lf_lines (body_part d))) = []"
    using hd_dropWhile [of "\<lambda>l. unterminated l \<noteq> []" "lf_lines d"] by auto
  then have tw: "takeWhile (\<lambda>l. unterminated l \<noteq> []) (lf_lines (body_part d)) = []"
    "dropWhile (\<lambda>l. unterminated l \<noteq> []) (lf_lines (body_part d)) = lf_lines (body_part d)"
    by (cases "lf_lines (body_part d)"; simp)+
  show "block_lines (rewrite_header_block keep st d) = ?K"
    unfolding r block_lines_def [of "concat ?K @ body_part d"] lines
    using nonblank tw(1) by (simp add: takeWhile_append2)
  show "body_part (rewrite_header_block keep st d) = body_part d"
    unfolding r body_part_def [of "concat ?K @ body_part d"] lines using nonblank tw(2) by (simp add: dropWhile_append2)
qed

text \<open>C28: Stripping \<^verbatim>\<open>Bcc\<close> in place removes every \<^verbatim>\<open>Bcc\<close> and \<^verbatim>\<open>Resent-Bcc\<close> field with its continuation lines,
  whatever the case of the name and the blanks in it, keeps every other field as it stands and in its
  order, and leaves the blank line and the body untouched; and the array copies compute the same
  octets as the plain rewriting.\<close>

theorem bcc_never_leaves:
  "strip_bcc_in_place d = strip_bcc d
   \<and> group_fields (block_lines (strip_bcc_in_place d))
       = filter (field_wanted [lit ''bcc'', lit ''resent-bcc'']) (group_fields (block_lines d))
   \<and> body_part (strip_bcc_in_place d) = body_part d"
  by (simp add: strip_bcc_in_place_def strip_bcc_def strip_headers_in_place_def strip_headers_def
      rewrite_in_place_eq rewrite_parts kept_lines_fields group_filter)

subsection \<open>Framing of generated messages\<close>

text \<open>What an outbound message must be: no NUL, CR and LF only as CRLF, and a CRLF at the end.\<close>

definition framed :: "octets \<Rightarrow> bool" where
  "framed d \<longleftrightarrow> \<not> has_unframed_byte d \<and> lf_framed None d \<and> ends_with [13, 10] d"

text \<open>\<open>smtp_text\<close>: lines of text octets, each ended by CRLF, the last one possibly open.\<close>

inductive smtp_text :: "octets \<Rightarrow> bool" where
  st_nil: "smtp_text []"
| st_octet: "b \<noteq> 0 \<Longrightarrow> b \<noteq> 13 \<Longrightarrow> b \<noteq> 10 \<Longrightarrow> smtp_text bs \<Longrightarrow> smtp_text (b # bs)"
| st_crlf: "smtp_text bs \<Longrightarrow> smtp_text (13 # 10 # bs)"

lemma smtp_text_framed: "smtp_text d \<Longrightarrow> \<not> has_unframed_byte d \<and> lf_framed p d"
  by (induction d arbitrary: p rule: smtp_text.induct) auto

lemma smtp_text_append: "smtp_text a \<Longrightarrow> smtp_text b \<Longrightarrow> smtp_text (a @ b)"
  by (induction a rule: smtp_text.induct) (auto intro: smtp_text.intros)

lemma reframe_text: "smtp_text (reframe d)"
proof (induction "length d" arbitrary: d rule: less_induct)
  case less
  show ?case
  proof (cases d)
    case (Cons b bs)
    have bs: "smtp_text (reframe bs)"
      using less Cons by simp
    have "smtp_text (case bs of [] \<Rightarrow> [] | c # cs \<Rightarrow> if c = 10 then reframe cs else reframe bs)"
    proof (cases bs)
      case Nil
      then show ?thesis by (simp add: st_nil)
    next
      case (Cons c cs)
      then have "smtp_text (reframe cs)"
        using less \<open>d = b # bs\<close> by simp
      with Cons bs show ?thesis by (simp del: reframe.simps)
    qed
    then show ?thesis
      using Cons bs by (simp add: smtp_text.intros)
  qed (simp add: st_nil)
qed

lemma crlf_normalise_text:
  "\<not> has_unframed_byte d \<Longrightarrow> p \<noteq> Some 13 \<Longrightarrow> smtp_text (crlf_normalise p d)"
proof (induction "length d" arbitrary: d p rule: less_induct)
  case less
  show ?case
  proof (cases d)
    case (Cons b bs)
    show ?thesis
    proof (cases "b = 13")
      case True
      then obtain cs where cs: "bs = 10 # cs"
        using less.prems(1) Cons by (cases bs) auto
      have "smtp_text (crlf_normalise (Some 10) cs)"
        using less.prems(1) Cons cs True by (intro less.hyps) auto
      then show ?thesis
        using Cons cs True by (simp add: st_crlf)
    next
      case False
      have "smtp_text (crlf_normalise (Some b) bs)"
        using less.prems(1) Cons False by (intro less.hyps) auto
      then show ?thesis
        using Cons False less.prems by (auto intro: smtp_text.intros)
    qed
  qed (simp add: st_nil)
qed

lemma framed_text: "lf_framed p d \<Longrightarrow> crlf_normalise p d = d"
  by (induction p d rule: crlf_normalise.induct) auto

lemma outbound_crlf_framed: "\<not> has_unframed_byte d \<Longrightarrow> smtp_text (outbound_crlf d) \<and> ends_with [13, 10] (outbound_crlf d)"
proof -
  assume d: "\<not> has_unframed_byte d"
  have t: "smtp_text (crlf_normalise None d)"
    by (rule crlf_normalise_text [OF d]) simp
  have "smtp_text d" if "lf_framed None d"
    using t framed_text [OF that] by simp
  moreover have "smtp_text (crlf_normalise None d @ [13, 10])"
    using t by (intro smtp_text_append) (simp_all add: smtp_text.intros)
  ultimately show ?thesis
    using t by (auto simp: outbound_crlf_def Let_def ends_with_iff)
qed

text \<open>C29: Whatever octets a message generated by the server quotes, its framed form has no NUL, no bare CR or
  LF, and ends with CRLF; a message that already has this form is left as it is, so framing twice is
  framing once.\<close>

theorem generated_message_framed:
  "framed (frame_generated d) \<and> (frame_generated d = d \<longleftrightarrow> framed d)
   \<and> frame_generated (frame_generated d) = frame_generated d"
proof -
  have f: "framed (frame_generated d)" for d
  proof -
    have "smtp_text (frame_generated d) \<and> ends_with [13, 10] (frame_generated d)"
      using outbound_crlf_framed smtp_text_framed reframe_text by (simp add: frame_generated_def)
    then show ?thesis using smtp_text_framed by (auto simp: framed_def)
  qed
  have "frame_generated d = d" if "framed d" for d
    using that by (simp add: framed_def frame_generated_def outbound_crlf_def)
  with f show ?thesis by metis
qed

subsection \<open>The hop count\<close>

lemma split_at_octet_None:
  "split_at_octet n s = None \<and> n \<le> slen s \<longleftrightarrow>
     (\<exists>a c b. s = a @ c # b \<and> slen a < n \<and> n < slen a + utf8_len c)"
proof (induction n s rule: split_at_octet.induct)
  case (2 n x s)
  show ?case
  proof (cases "n < utf8_len x")
    case True
    show ?thesis
    proof (cases "n = 0")
      case False
      with True show ?thesis by (auto intro!: exI [of _ "[]"])
    qed simp
  next
    case False
    have "(\<exists>a c b. x # s = a @ c # b \<and> slen a < n \<and> n < slen a + utf8_len c) \<longleftrightarrow>
      (\<exists>a c b. s = a @ c # b \<and> slen a < n - utf8_len x \<and> n - utf8_len x < slen a + utf8_len c)" (is "?L \<longleftrightarrow> ?R")
    proof
      assume ?L
      then obtain a c b where *: "x # s = a @ c # b" "slen a < n" "n < slen a + utf8_len c" by blast
      with False obtain a' where "a = x # a'" by (cases a) auto
      with * False show ?R by (intro exI [of _ a'] exI [of _ c] exI [of _ b]) auto
    next
      assume ?R
      then obtain a c b where "s = a @ c # b" "slen a < n - utf8_len x" "n - utf8_len x < slen a + utf8_len c" by blast
      with False show ?L by (intro exI [of _ "x # a"] exI [of _ c] exI [of _ b]) auto
    qed
    moreover have n: "n \<noteq> 0"
      using False utf8_len_pos [of x] by (metis gr_zeroI)
    have "split_at_octet n (x # s) = None \<longleftrightarrow> split_at_octet (n - utf8_len x) s = None"
      using False n by (simp split: option.split)
    moreover have "n \<le> slen (x # s) \<longleftrightarrow> n - utf8_len x \<le> slen s"
      using False by auto
    ultimately show ?thesis
      using "2.IH" [OF n False] by simp
  qed
qed auto

lemma count_hops_None: "count_hops ls = None \<longleftrightarrow> (\<exists>l\<in>set ls. hop_line l = None)"
  by (induction ls) (auto split: option.splits)

lemma count_hops_Some: "count_hops ls = Some n \<Longrightarrow> n = length (filter (\<lambda>l. hop_line l = Some True) ls)"
  by (induction ls arbitrary: n) (auto split: option.splits if_splits)

lemma hop_line_None:
  "hop_line l = None \<longleftrightarrow> \<not> (l \<noteq> [] \<and> (hd l = 32 \<or> hd l = 9))
     \<and> (\<exists>a c b. l = a @ c # b \<and> slen a < 9 \<and> 9 < slen a + utf8_len c)"
  using split_at_octet_None [of 9 l] by (auto simp: hop_line_def split: option.splits)

text \<open>C30: The loop guard's count of \<^verbatim>\<open>Received\<close> fields fails, by indexing a string inside a character, exactly when
  a header line that is not folded has a character that spans its ninth octet; a message whose
  header holds the line \<^verbatim>\<open>Subject:\<close> followed directly by an accented letter is such a message.\<close>

theorem hop_count_fails_inside_a_character:
  "(received_hop_count d = None) = (\<exists>l a c b. l \<in> set (hop_lines d) \<and> l = a @ c # b
      \<and> \<not> (hd l = 32 \<or> hd l = 9) \<and> slen a < 9 \<and> 9 < slen a + utf8_len c)
   \<and> received_hop_count (utf8_encode (lit ''Subject:'' @ [233, 13, 10, 13, 10])) = None"
proof -
  have "received_hop_count (utf8_encode (lit ''Subject:'' @ [233, 13, 10, 13, 10])) = None"
    by (simp add: received_hop_count_def hop_lines_def utf8_encode_def encode_char_def lit_def oct_def
        utf8_eval hop_line_def utf8_len_def)
  then show ?thesis
    by (force simp: received_hop_count_def count_hops_None hop_line_None)
qed

end
