(* ===== verification/Inbound_Headers.thy ===== *)
theory Inbound_Headers
  imports Header_Block "HOL-Library.Sublist"
begin

section \<open>Trust fields of inbound mail\<close>

text \<open>
  \<^verbatim>\<open>src/src/smtp/inbound_headers/mod.rs\<close>: the pass over the header of an unauthenticated message that removes
  the fields only this server may write, at the level of its array copies, with the name matcher that
  folds what lenient readers fold and the reader of the RFC 8601 authserv-id.
\<close>

subsection \<open>The code\<close>

definition olit :: "string \<Rightarrow> octets" where
  "olit s = map of_char s"

definition is_obfuscation_byte :: "8 word \<Rightarrow> bool" where
  "is_obfuscation_byte b \<longleftrightarrow> b = 32 \<or> b = 9 \<or> b = 12 \<or> b = 11 \<or> b = 31 \<or> b = 127"

text \<open>What is left of the name and of the reserved name when the walk stops.\<close>

fun align :: "octets \<Rightarrow> octets \<Rightarrow> bool \<Rightarrow> octets \<times> octets" where
  "align (nc # name) (rc # reserved) last_fold_was_dash =
     (if oct_eq_ignore_case nc rc then align name reserved False
      else if rc = 45 \<and> is_obfuscation_byte nc then align name reserved True
      else if last_fold_was_dash \<and> nc = 45 then align name (rc # reserved) False
      else if is_obfuscation_byte nc then align name (rc # reserved) last_fold_was_dash
      else (nc # name, rc # reserved))"
| "align name reserved _ = (name, reserved)"

definition name_matches :: "octets \<Rightarrow> octets \<Rightarrow> bool" where
  "name_matches name reserved =
     (case align name reserved False of (n, r) \<Rightarrow> r = [] \<and> list_all is_obfuscation_byte n)"

definition name_starts_with :: "octets \<Rightarrow> octets \<Rightarrow> bool" where
  "name_starts_with name start = (snd (align name start False) = [])"

definition oct_control :: "8 word \<Rightarrow> bool" where
  "oct_control b \<longleftrightarrow> unat b < 32 \<or> b = 127"

definition token :: "8 word \<Rightarrow> bool" where
  "token b \<longleftrightarrow> 33 \<le> unat b \<and> unat b \<le> 126 \<and> b \<notin> set (olit ''()<>@,;:/[]?='') \<and> b \<noteq> 34 \<and> b \<noteq> 92"

fun cfws :: "nat \<Rightarrow> octets \<Rightarrow> octets option" where
  "cfws depth [] = (if depth = 0 then Some [] else None)"
| "cfws depth (b # tail) =
     (if b = 32 \<or> b = 9 then cfws depth tail
      else if b = 13 then
        (case tail of
           c # rest \<Rightarrow> if c = 10 \<and> is_continuation rest then cfws depth rest else None
         | [] \<Rightarrow> None)
      else if b = 40 then cfws (depth + 1) tail
      else if b = 41 \<and> depth > 0 then cfws (depth - 1) tail
      else if b = 92 \<and> depth > 0 then
        (case tail of
           escaped # rest \<Rightarrow> if oct_control escaped \<and> escaped \<noteq> 9 then None else cfws depth rest
         | [] \<Rightarrow> None)
      else if depth > 0 \<and> (\<not> oct_control b \<or> b = 9) then cfws depth tail
      else if depth = 0 then Some (b # tail)
      else None)"

fun quoted_id :: "octets \<Rightarrow> octets \<Rightarrow> (octets \<times> octets) option" where
  "quoted_id acc [] = None"
| "quoted_id acc (b # tail) =
     (if b = 34 then Some (acc, tail)
      else if b = 92 then
        (case tail of
           escaped # rest \<Rightarrow> if oct_control escaped \<and> escaped \<noteq> 9 then None else quoted_id (acc @ [escaped]) rest
         | [] \<Rightarrow> None)
      else if b = 13 then
        (case tail of
           c # rest \<Rightarrow> if c = 10 \<and> is_continuation rest then quoted_id acc rest else None
         | [] \<Rightarrow> None)
      else if oct_control b \<and> b \<noteq> 9 then None
      else quoted_id (acc @ [b]) tail)"

definition oct_digit :: "8 word \<Rightarrow> bool" where
  "oct_digit b \<longleftrightarrow> is_digit (unat b)"

definition skip_version :: "octets \<Rightarrow> octets option" where
  "skip_version before =
     (case cfws 0 before of
        None \<Rightarrow> None
      | Some rest \<Rightarrow>
          if rest \<noteq> [] \<and> oct_digit (hd rest)
          then if length before = length rest then None else cfws 0 (dropWhile oct_digit rest)
          else Some rest)"

definition authserv_id :: "octets \<Rightarrow> rstr option" where
  "authserv_id value =
     (case cfws 0 (trim_ascii_end value) of
        None \<Rightarrow> None
      | Some rest \<Rightarrow>
     (case (if rest \<noteq> [] \<and> hd rest = 34 then quoted_id [] (tl rest)
            else Some (takeWhile token rest, dropWhile token rest)) of
        None \<Rightarrow> None
      | Some (ident, rest) \<Rightarrow>
          if ident = [] then None
          else case skip_version rest of
            None \<Rightarrow> None
          | Some rest \<Rightarrow> if rest \<noteq> [] \<and> hd rest = 59 then from_utf8 ident else None))"

definition without_dots :: "rstr \<Rightarrow> rstr" where
  "without_dots s = rev (dropWhile (\<lambda>c. c = 46) (rev s))"

definition remove :: "octets \<Rightarrow> rstr \<Rightarrow> bool" where
  "remove field hostname =
     (case split_field field of
        None \<Rightarrow> False
      | Some (name, value) \<Rightarrow>
          if name_matches name (olit ''Authentication-Results'')
          then (case authserv_id value of
                  None \<Rightarrow> True
                | Some ident \<Rightarrow> eq_ignore_case (without_dots ident) (without_dots hostname))
          else list_ex (name_matches name) [olit ''Received-SPF'', olit ''Delivered-To'', olit ''Return-Path'',
                  olit ''Epistle-Class'', olit ''X-Epistle'']
               \<or> list_ex (name_starts_with name) [olit ''X-Spam-'', olit ''X-Epistle-''])"

definition line_end :: "octets \<Rightarrow> nat \<Rightarrow> nat" where
  "line_end d start =
     (let rest = drop start d
      in if 10 \<in> set rest then start + length (takeWhile (\<lambda>b. b \<noteq> 10) rest) + 1 else length d)"

lemma line_end_gt: "start < length d \<Longrightarrow> start < line_end d start"
  by (simp add: line_end_def Let_def)

function skip_folds :: "octets \<Rightarrow> nat \<Rightarrow> nat" where
  "skip_folds d read =
     (if read < length d \<and> (d ! read = 32 \<or> d ! read = 9) then skip_folds d (line_end d read) else read)"
  by pat_completeness auto
termination
  by (relation "measure (\<lambda>(d, read). length d - read)") (auto intro!: diff_less_mono2 line_end_gt)

declare skip_folds.simps [simp del]

lemma skip_folds_ge: "read \<le> skip_folds d read"
proof (induction d read rule: skip_folds.induct)
  case (1 d read)
  then show ?case
    using line_end_gt [of read d] by (subst skip_folds.simps) auto
qed

lemma field_end_gt: "read < length d \<Longrightarrow> read < skip_folds d (line_end d read)"
  using line_end_gt skip_folds_ge by (rule order.strict_trans2)

function strip_pass :: "rstr \<Rightarrow> octets \<Rightarrow> nat \<Rightarrow> nat \<Rightarrow> octets \<times> nat \<times> nat" where
  "strip_pass hostname d read write =
     (if read < length d then
        (let stop = line_end d read; line = take (stop - read) (drop read d)
         in if line = [13, 10] \<or> line = [10] then (d, read, write)
            else let next = skip_folds d stop; field = take (next - read) (drop read d)
              in if remove field hostname then strip_pass hostname d next write
                 else strip_pass hostname (copy_within read (next - read) write d) next (write + (next - read)))
      else (d, read, write))"
  by pat_completeness auto
termination
  by (relation "measure (\<lambda>(hostname, d, read, write). length d - read)") (auto intro!: diff_less_mono2 field_end_gt)

declare strip_pass.simps [simp del]

definition strip_inbound :: "octets \<Rightarrow> rstr \<Rightarrow> octets" where
  "strip_inbound d hostname =
     (case strip_pass hostname d 0 0 of
        (d, read, write) \<Rightarrow>
          let tail = length d - read in take (write + tail) (copy_within read tail write d))"

subsection \<open>The pass in terms of lines\<close>

definition blank_line :: "octets \<Rightarrow> bool" where
  "blank_line l \<longleftrightarrow> l = [13, 10] \<or> l = [10]"

definition head_lines :: "octets \<Rightarrow> octets list" where
  "head_lines d = takeWhile (\<lambda>l. \<not> blank_line l) (lf_lines d)"

definition head_rest :: "octets \<Rightarrow> octets" where
  "head_rest d = concat (dropWhile (\<lambda>l. \<not> blank_line l) (lf_lines d))"

lemma lf_lines_first:
  assumes "d \<noteq> []"
  shows "lf_lines d = take (line_end d 0) d # lf_lines (drop (line_end d 0) d)"
  using assms
proof (induction d)
  case (Cons b d)
  show ?case
  proof (cases "b = 10 \<or> d = []")
    case True
    then show ?thesis by (auto simp: line_end_def)
  next
    case False
    then have "line_end (b # d) 0 = Suc (line_end d 0)"
      by (simp add: line_end_def)
    then show ?thesis
      using False Cons.IH by simp
  qed
qed simp

lemma line_end_drop: "read \<le> length d \<Longrightarrow> line_end d read = read + line_end (drop read d) 0"
  by (simp add: line_end_def Let_def)

lemma line_end_le: "line_end d 0 \<le> length d"
proof -
  have "length (takeWhile (\<lambda>b. b \<noteq> 10) d) < length d" if "10 \<in> set d"
    using that by (induction d) auto
  then show ?thesis
    by (simp add: line_end_def Let_def Suc_le_eq)
qed

lemma lf_lines_at:
  assumes "read < length d"
  shows "lf_lines (drop read d) = take (line_end d read - read) (drop read d) # lf_lines (drop (line_end d read) d)"
    "line_end d read \<le> length d"
  using assms lf_lines_first [of "drop read d"] line_end_le [of "drop read d"] line_end_drop [of read d]
  by (simp_all add: add.commute)

lemma skip_folds_lines:
  "read \<le> length d \<Longrightarrow> skip_folds d read \<le> length d
     \<and> take (skip_folds d read - read) (drop read d) = concat (takeWhile is_continuation (lf_lines (drop read d)))
     \<and> lf_lines (drop (skip_folds d read) d) = dropWhile is_continuation (lf_lines (drop read d))"
proof (induction d read rule: skip_folds.induct)
  case (1 d read)
  show ?case
  proof (cases "read < length d")
    case False
    then show ?thesis using 1(2) by (simp add: skip_folds.simps)
  next
    case True
    define stop where "stop = line_end d read"
    note at = lf_lines_at [OF True, folded stop_def]
    have gt: "read < stop"
      using line_end_gt [OF True] by (simp add: stop_def)
    have first: "is_continuation (take (stop - read) (drop read d)) \<longleftrightarrow> d ! read = 32 \<or> d ! read = 9"
      using gt True at(2) by (simp add: is_continuation_def hd_take hd_drop_conv_nth)
    show ?thesis
    proof (cases "d ! read = 32 \<or> d ! read = 9")
      case False
      then show ?thesis
        using True first at(1) by (simp add: skip_folds.simps)
    next
      case fold: True
      have skip: "skip_folds d read = skip_folds d stop"
        using True fold by (simp add: skip_folds.simps [of d read] stop_def)
      have IH: "skip_folds d stop \<le> length d"
        "take (skip_folds d stop - stop) (drop stop d) = concat (takeWhile is_continuation (lf_lines (drop stop d)))"
        "lf_lines (drop (skip_folds d stop) d) = dropWhile is_continuation (lf_lines (drop stop d))"
        using 1(1) True fold at(2) by (auto simp: stop_def)
      have "take (skip_folds d stop - read) (drop read d)
          = take (stop - read) (drop read d) @ take (skip_folds d stop - stop) (drop stop d)"
      proof -
        have "skip_folds d stop - read = (stop - read) + (skip_folds d stop - stop)"
          using gt skip_folds_ge [of stop d] by simp
        moreover have "drop (stop - read) (drop read d) = drop stop d"
          using gt by simp
        ultimately show ?thesis by (simp add: take_add)
      qed
      then show ?thesis
        using IH fold first by (simp add: skip at(1))
    qed
  qed
qed

lemma continuation_not_blank: "is_continuation l \<Longrightarrow> \<not> blank_line l"
  by (auto simp: is_continuation_def blank_line_def)

lemma head_split_continuations:
  "takeWhile (\<lambda>l. \<not> blank_line l) ls
     = takeWhile is_continuation ls @ takeWhile (\<lambda>l. \<not> blank_line l) (dropWhile is_continuation ls)"
  "dropWhile (\<lambda>l. \<not> blank_line l) ls = dropWhile (\<lambda>l. \<not> blank_line l) (dropWhile is_continuation ls)"
  by (induction ls) (auto dest: continuation_not_blank)

lemma takeWhile_continuation_head:
  "takeWhile is_continuation (takeWhile (\<lambda>l. \<not> blank_line l) ls) = takeWhile is_continuation ls"
  "dropWhile is_continuation (takeWhile (\<lambda>l. \<not> blank_line l) ls)
     = takeWhile (\<lambda>l. \<not> blank_line l) (dropWhile is_continuation ls)"
  by (induction ls) (auto dest: continuation_not_blank)

abbreviation kept_fields :: "rstr \<Rightarrow> octets list list \<Rightarrow> octets list list" where
  "kept_fields hostname \<equiv> filter (\<lambda>f. \<not> remove (concat f) hostname)"

text \<open>One turn of the pass: it stops at a blank line or at the end, and else takes one field.\<close>

lemma pass_turn:
  assumes "read < length d" "\<not> blank_line (take (line_end d read - read) (drop read d))"
  defines "next \<equiv> skip_folds d (line_end d read)"
  shows "read < next" "next \<le> length d"
    "head_rest (drop read d) = head_rest (drop next d)"
    "group_fields (head_lines (drop read d))
       = (let ls = lf_lines (drop read d) in hd ls # takeWhile is_continuation (tl ls)) # group_fields (head_lines (drop next d))"
    "take (next - read) (drop read d)
       = concat (let ls = lf_lines (drop read d) in hd ls # takeWhile is_continuation (tl ls))"
proof -
  define stop where "stop = line_end d read"
  define l where "l = take (stop - read) (drop read d)"
  note at = lf_lines_at [OF assms(1), folded stop_def, folded l_def]
  note skip = skip_folds_lines [OF at(2)]
  have n: "next = skip_folds d stop"
    by (simp add: next_def stop_def)
  have order: "read < stop" "stop \<le> next"
    using line_end_gt [OF assms(1)] skip_folds_ge [of stop d] by (simp_all add: stop_def n)
  then show "read < next" "next \<le> length d"
    using skip n by auto
  have l: "\<not> blank_line l"
    using assms(2) by (simp add: l_def stop_def)
  have rest: "lf_lines (drop next d) = dropWhile is_continuation (lf_lines (drop stop d))"
    using skip n by simp
  show "head_rest (drop read d) = head_rest (drop next d)"
    using l at(1) rest head_split_continuations(2) [of "lf_lines (drop stop d)"] by (simp add: head_rest_def)
  show "group_fields (head_lines (drop read d))
       = (let ls = lf_lines (drop read d) in hd ls # takeWhile is_continuation (tl ls)) # group_fields (head_lines (drop next d))"
    using l at(1) rest by (simp add: head_lines_def takeWhile_continuation_head)
  have "next - read = (stop - read) + (next - stop)" "drop (stop - read) (drop read d) = drop stop d"
    using order by simp_all
  then have "take (next - read) (drop read d) = l @ take (next - stop) (drop stop d)"
    by (simp add: take_add l_def)
  then show "take (next - read) (drop read d)
       = concat (let ls = lf_lines (drop read d) in hd ls # takeWhile is_continuation (tl ls))"
    using skip n at(1) by simp
qed

lemma strip_pass_fields:
  "write \<le> read \<Longrightarrow> read \<le> length d \<Longrightarrow> strip_pass hostname d read write = (d', read', write') \<Longrightarrow>
     length d' = length d \<and> write' \<le> read' \<and> read' \<le> length d
     \<and> take write' d' = take write d @ concat (concat (kept_fields hostname (group_fields (head_lines (drop read d)))))
     \<and> drop read' d' = head_rest (drop read d)"
proof (induction hostname d read "write" arbitrary: d' read' write' rule: strip_pass.induct)
  case (1 hostname d read w0)
  show ?case
  proof (cases "read < length d \<and> \<not> blank_line (take (line_end d read - read) (drop read d))")
    case False
    then have "d' = d \<and> read' = read \<and> write' = w0"
      using 1(5) by (subst (asm) strip_pass.simps) (auto simp: blank_line_def Let_def split: if_splits)
    moreover have "head_lines (drop read d) = [] \<and> head_rest (drop read d) = drop read d"
    proof (cases "read < length d")
      case True
      have *: "lf_lines (drop read d) = take (line_end d read - read) (drop read d) # lf_lines (drop (line_end d read) d)"
        by (rule lf_lines_at [OF True])
      have "concat (lf_lines (drop read d)) = drop read d"
        by simp
      then show ?thesis
        using False True unfolding head_lines_def head_rest_def * by simp
    qed (simp add: head_lines_def head_rest_def)
    ultimately show ?thesis
      using 1(3,4) by simp
  next
    case True
    define stop where "stop = line_end d read"
    define nxt where "nxt = skip_folds d stop"
    define field where "field = take (nxt - read) (drop read d)"
    have turn: "read < nxt" "nxt \<le> length d" "head_rest (drop read d) = head_rest (drop nxt d)"
      using pass_turn(1-3) [of read d] True by (simp_all add: nxt_def stop_def)
    obtain f where f: "field = concat f" "group_fields (head_lines (drop read d)) = f # group_fields (head_lines (drop nxt d))"
      using pass_turn(4,5) [of read d] True by (metis nxt_def stop_def field_def)
    have line: "\<not> (take (stop - read) (drop read d) = [13, 10] \<or> take (stop - read) (drop read d) = [10])"
      using True by (simp add: blank_line_def stop_def)
    have step: "strip_pass hostname d read w0 = (if remove field hostname then strip_pass hostname d nxt w0
        else strip_pass hostname (copy_within read (nxt - read) w0 d) nxt (w0 + (nxt - read)))"
      using True line by (subst strip_pass.simps) (simp add: Let_def stop_def nxt_def field_def)
    show ?thesis
    proof (cases "remove field hostname")
      case gone: True
      have "w0 \<le> nxt"
        using 1(3) turn by simp
      from 1(1) [OF _ stop_def refl line nxt_def field_def gone this turn(2), of d' read' write'] True gone 1(5) step
      show ?thesis
        using f turn by simp
    next
      case kept: False
      define d1 where "d1 = copy_within read (nxt - read) w0 d"
      have d1: "length d1 = length d" "d1 = take w0 d @ field @ drop (w0 + (nxt - read)) d"
        using 1(3) turn copy_within_eq [of read "nxt - read" d w0] by (simp_all add: d1_def field_def)
      have len: "length field = nxt - read"
        using turn by (simp add: field_def)
      have "length (take w0 d @ field) = w0 + (nxt - read)" "(take w0 d @ field) @ drop (w0 + (nxt - read)) d = d1"
        using 1(3,4) turn len d1(2) by simp_all
      then have w: "take (w0 + (nxt - read)) d1 = take w0 d @ field"
        and after: "drop (w0 + (nxt - read)) d1 = drop (w0 + (nxt - read)) d"
        by (metis append_eq_conv_conj)+
      have r: "drop nxt d1 = drop nxt d"
      proof -
        have "nxt = (nxt - (w0 + (nxt - read))) + (w0 + (nxt - read))"
          using 1(3) turn by simp
        then show ?thesis
          using after by (metis drop_drop)
      qed
      have "w0 + (nxt - read) \<le> nxt" "nxt \<le> length d1"
        using 1(3) turn d1(1) by simp_all
      from 1(2) [OF _ stop_def refl line nxt_def field_def kept, folded d1_def, OF _ this, of d' read' write'] True kept 1(5) step
      show ?thesis
        using f turn w r d1(1) kept by (simp add: d1_def)
    qed
  qed
qed

lemma strip_inbound_fields:
  "strip_inbound d hostname = concat (concat (kept_fields hostname (group_fields (head_lines d)))) @ head_rest d"
proof -
  obtain d' r w where pass: "strip_pass hostname d 0 0 = (d', r, w)"
    by (metis prod_cases3)
  have p: "length d' = length d" "w \<le> r" "r \<le> length d" "drop r d' = head_rest d"
    "take w d' = concat (concat (kept_fields hostname (group_fields (head_lines d))))"
    using strip_pass_fields [OF _ _ pass] by simp_all
  have "copy_within r (length d' - r) w d' = take w d' @ drop r d' @ drop (w + (length d' - r)) d'"
    using p(1-3) copy_within_eq [of r "length d' - r" d' w] by simp
  moreover have "length (take w d' @ drop r d') = w + (length d' - r)"
    using p(1-3) by simp
  ultimately show ?thesis
    using p(4,5) pass by (simp add: strip_inbound_def)
qed

subsection \<open>What the pass leaves\<close>

lemma subseq_set: "subseq xs ys \<Longrightarrow> set xs \<subseteq> set ys"
  by (induction rule: list_emb.induct) auto

lemma lf_lines_subseq:
  assumes "subseq ks (lf_lines d)"
  shows "lf_lines (concat ks) = ks"
proof -
  obtain ls tail where f: "lf_lines d = ls @ (if tail = [] then [] else [tail])" "\<forall>l\<in>set ls. full_line l" "10 \<notin> set tail"
    using lf_lines_form by blast
  then obtain k1 k2 where k: "ks = k1 @ k2" "subseq k1 ls" "subseq k2 (if tail = [] then [] else [tail])"
    using assms by (auto simp: subseq_append_iff)
  have full: "\<forall>l\<in>set k1. full_line l"
    using subseq_set [OF k(2)] f(2) by blast
  have "k2 = [] \<or> k2 = [tail] \<and> tail \<noteq> []"
    using k(3) by (cases k2) (auto simp: subseq_Cons2_iff split: if_splits)
  then show ?thesis
    using k(1) f(3) lf_lines_full_concat [OF full, of tail] lf_lines_full_concat [OF full, of "[]"]
      lf_lines_partial [of tail] by auto
qed

lemma dropWhile_twice: "takeWhile P (dropWhile P xs) = []" "dropWhile P (dropWhile P xs) = dropWhile P xs"
  by (induction xs) simp_all

lemma subseq_concat_filter: "subseq (concat (filter P gs)) (concat gs)"
  by (induction gs) (auto intro: list_emb_append_mono)

lemma strip_inbound_parts:
  "group_fields (head_lines (strip_inbound d hostname)) = kept_fields hostname (group_fields (head_lines d))"
  "head_rest (strip_inbound d hostname) = head_rest d"
proof -
  define ks where "ks = concat (kept_fields hostname (group_fields (head_lines d)))"
  define bs where "bs = dropWhile (\<lambda>l. \<not> blank_line l) (lf_lines d)"
  have d: "lf_lines d = head_lines d @ bs"
    by (simp add: head_lines_def bs_def)
  have sub: "subseq ks (head_lines d)"
    using subseq_concat_filter [of _ "group_fields (head_lines d)"] by (simp add: ks_def)
  have out: "strip_inbound d hostname = concat (ks @ bs)"
    by (simp add: strip_inbound_fields ks_def bs_def head_rest_def)
  have "subseq (ks @ bs) (lf_lines d)"
    using sub by (simp add: d)
  then have lines: "lf_lines (strip_inbound d hostname) = ks @ bs"
    unfolding out by (rule lf_lines_subseq)
  have "\<forall>l\<in>set ks. \<not> blank_line l"
  proof -
    have "set ks \<subseteq> set (head_lines d)"
      by (rule subseq_set [OF sub])
    then show ?thesis by (auto simp: head_lines_def dest: set_takeWhileD)
  qed
  moreover have "takeWhile (\<lambda>l. \<not> blank_line l) bs = []" "dropWhile (\<lambda>l. \<not> blank_line l) bs = bs"
    unfolding bs_def by (rule dropWhile_twice)+
  ultimately have "head_lines (strip_inbound d hostname) = ks" "head_rest (strip_inbound d hostname) = concat bs"
    unfolding head_lines_def [of "strip_inbound d hostname"] head_rest_def [of "strip_inbound d hostname"] lines
    by (simp_all add: takeWhile_append2 dropWhile_append2)
  then show "group_fields (head_lines (strip_inbound d hostname)) = kept_fields hostname (group_fields (head_lines d))"
    "head_rest (strip_inbound d hostname) = head_rest d"
    using group_filter [of "\<lambda>f. \<not> remove (concat f) hostname" "head_lines d"]
    by (simp_all add: ks_def bs_def head_rest_def)
qed

subsection \<open>Names\<close>

text \<open>A name as a lenient reader takes it: foldable bytes dropped, case ignored.\<close>

definition folded_name :: "octets \<Rightarrow> nat list" where
  "folded_name name = map (\<lambda>b. to_lower (unat b)) (filter (\<lambda>b. \<not> is_obfuscation_byte b) name)"

text \<open>What the matcher needs of a reserved name: no foldable byte, no two hyphens in a row.\<close>

fun clean_name :: "octets \<Rightarrow> bool" where
  "clean_name [] = True"
| "clean_name (b # bs) = (\<not> is_obfuscation_byte b \<and> (b = 45 \<longrightarrow> bs = [] \<or> hd bs \<noteq> 45) \<and> clean_name bs)"

lemma oct_eq_obfuscation: "is_obfuscation_byte a \<Longrightarrow> oct_eq_ignore_case a b \<Longrightarrow> is_obfuscation_byte b"
proof -
  assume a: "is_obfuscation_byte a" "oct_eq_ignore_case a b"
  then have "unat b = unat a"
    by (auto simp: is_obfuscation_byte_def oct_eq_ignore_case_def to_lower_def is_upper_def split: if_splits)
  then have "b = a"
    by (simp add: word_unat_eq_iff)
  then show ?thesis using a by simp
qed

lemma oct_eq_dash: "oct_eq_ignore_case a 45 \<longleftrightarrow> a = 45" "oct_eq_ignore_case 45 b \<longleftrightarrow> b = 45"
  by (auto simp: oct_eq_ignore_case_def to_lower_def is_upper_def word_unat_eq_iff split: if_splits)

lemma align_folded:
  assumes "clean_name r"
  shows "folded_name n = folded_name r @ t \<Longrightarrow>
      snd (align n r False) = [] \<and> (t = [] \<and> r \<noteq> [] \<and> last r \<noteq> 45 \<longrightarrow> list_all is_obfuscation_byte (fst (align n r False)))"
    "folded_name n = 45 # folded_name r @ t \<Longrightarrow> r = [] \<or> hd r \<noteq> 45 \<Longrightarrow>
      snd (align n r True) = [] \<and> (t = [] \<and> r \<noteq> [] \<and> last r \<noteq> 45 \<longrightarrow> list_all is_obfuscation_byte (fst (align n r True)))"
  using assms
proof (induction n arbitrary: r t)
  case Nil
  case 1
  then show ?case by (cases r) (simp_all add: folded_name_def)
next
  case Nil
  case 2
  then show ?case by (simp add: folded_name_def)
next
  case (Cons b n)
  case 1
  show ?case
  proof (cases r)
    case r: (Cons c r')
    have c: "\<not> is_obfuscation_byte c" "clean_name r'" "c = 45 \<Longrightarrow> r' = [] \<or> hd r' \<noteq> 45"
      using 1(2) r by auto
    show ?thesis
    proof (cases "is_obfuscation_byte b")
      case True
      then have "\<not> oct_eq_ignore_case b c"
        using c(1) oct_eq_obfuscation by blast
      moreover have "folded_name n = folded_name r @ t" "c = 45 \<Longrightarrow> folded_name n = 45 # folded_name r' @ t"
        using 1(1) True c(1) r by (simp_all add: folded_name_def to_lower_def is_upper_def)
      ultimately show ?thesis
        using True r c(2,3) Cons(2) [of r' t] Cons(1) [of r t] 1(2) by auto
    next
      case False
      then have "oct_eq_ignore_case b c" "folded_name n = folded_name r' @ t"
        using 1(1) c(1) r by (simp_all add: folded_name_def oct_eq_ignore_case_def)
      moreover have "folded_name n = [] \<Longrightarrow> list_all is_obfuscation_byte n"
        by (simp add: folded_name_def filter_empty_conv list_all_iff)
      ultimately show ?thesis
        using r c(2) Cons(1) [of r' t] by (cases r') (auto simp: folded_name_def)
    qed
  qed simp
next
  case (Cons b n)
  case 2
  show ?case
  proof (cases r)
    case r: (Cons c r')
    then have c: "c \<noteq> 45" "\<not> is_obfuscation_byte c"
      using 2(2,3) by auto
    show ?thesis
    proof (cases "is_obfuscation_byte b")
      case True
      then have "\<not> oct_eq_ignore_case b c" "b \<noteq> 45" "folded_name n = 45 # folded_name r @ t"
        using 2(1) c(2) oct_eq_obfuscation by (auto simp: folded_name_def is_obfuscation_byte_def)
      then show ?thesis
        using True r c Cons(2) [of r t] 2(2,3) by simp
    next
      case False
      then have "oct_eq_ignore_case b 45" "folded_name n = folded_name r @ t"
        using 2(1) by (simp_all add: folded_name_def oct_eq_ignore_case_def to_lower_def is_upper_def)
      then show ?thesis
        using r c Cons(1) [of r t] 2(3) by (auto simp: oct_eq_dash)
    qed
  qed simp
qed

lemma align_first:
  assumes "c \<noteq> 45" "\<not> is_obfuscation_byte c" "folded_name n = x # xs" "x \<noteq> to_lower (unat c)"
  shows "snd (align n (c # r) False) \<noteq> []"
  using assms(3)
proof (induction n)
  case (Cons b n)
  show ?case
  proof (cases "is_obfuscation_byte b")
    case True
    then have "\<not> oct_eq_ignore_case b c"
      using assms(2) oct_eq_obfuscation by blast
    then show ?thesis
      using Cons True assms(1) by (simp add: folded_name_def)
  next
    case False
    then show ?thesis
      using Cons.prems assms(4) by (auto simp: folded_name_def oct_eq_ignore_case_def)
  qed
qed simp

text \<open>The names of this server's own fields, and the two families of them.\<close>

definition trust_names :: "octets list" where
  "trust_names = [olit ''Received-SPF'', olit ''Delivered-To'', olit ''Return-Path'', olit ''Epistle-Class'', olit ''X-Epistle'']"

definition trust_prefixes :: "octets list" where
  "trust_prefixes = [olit ''X-Spam-'', olit ''X-Epistle-'']"

definition trusted_spelling :: "octets \<Rightarrow> bool" where
  "trusted_spelling name \<longleftrightarrow> folded_name name \<in> folded_name ` set trust_names
     \<or> (\<exists>p\<in>set trust_prefixes. \<exists>t. folded_name name = folded_name p @ t)"

lemma trusted_spelling_removed:
  assumes "split_field field = Some (name, value)" "trusted_spelling name"
  shows "remove field hostname"
proof -
  have clean: "clean_name r" "r \<noteq> []" "last r \<noteq> 45" if "r \<in> set trust_names" for r
    using that by (auto simp: trust_names_def olit_def is_obfuscation_byte_def)
  have clean': "clean_name r" if "r \<in> set trust_prefixes" for r
    using that by (auto simp: trust_prefixes_def olit_def is_obfuscation_byte_def)
  have "name_matches name r" if "r \<in> set trust_names" "folded_name name = folded_name r" for r
    using align_folded(1) [OF clean(1) [OF that(1)], of name "[]"] clean(2,3) [OF that(1)] that(2)
    by (auto simp: name_matches_def split: prod.split)
  moreover have "name_starts_with name r" if "r \<in> set trust_prefixes" "folded_name name = folded_name r @ t" for r t
    using align_folded(1) [OF clean' [OF that(1)], of name t] that(2) by (simp add: name_starts_with_def)
  ultimately have hit: "list_ex (name_matches name) trust_names \<or> list_ex (name_starts_with name) trust_prefixes"
    using assms(2) unfolding trusted_spelling_def list_ex_iff image_iff by blast
  have "\<not> name_matches name (olit ''Authentication-Results'')"
  proof -
    obtain x xs where "folded_name name = x # xs" "x \<noteq> 97"
      using assms(2) by (auto simp: trusted_spelling_def trust_names_def trust_prefixes_def folded_name_def olit_def
          is_obfuscation_byte_def to_lower_def is_upper_def)
    then have "snd (align name (65 # olit ''uthentication-Results'') False) \<noteq> []"
      using align_first [of 65 name x xs] by (simp add: is_obfuscation_byte_def to_lower_def is_upper_def)
    then show ?thesis
      by (auto simp: name_matches_def olit_def split: prod.splits)
  qed
  then show ?thesis
    using assms(1) hit by (simp add: remove_def trust_names_def trust_prefixes_def)
qed


lemmas inbound_eval = head_lines_def blank_line_def olit_def remove_def split_field_def oct_whitespace_def
  is_ascii_whitespace_def trim_ascii_end_def fold_trailing_space_def utf8_eval utf8_encode_def encode_char_def
  trim_end_def is_whitespace_def is_continuation_def name_matches_def name_starts_with_def oct_eq_ignore_case_def
  to_lower_def is_upper_def is_obfuscation_byte_def oct_def

definition demo_inbound :: octets where
  "demo_inbound = olit ''X-Spam-Status: No'' @ [13, 10] @ olit ''Subject: a'' @ [13, 10, 13, 10] @ olit ''x''"


end
