(* ===== verification/Spf.thy ===== *)
theory Spf
  imports Ip_Show
begin

section \<open>SPF\<close>

text \<open>
  Records (\<^verbatim>\<open>src/src/spf/record/mod.rs\<close>) and \<^verbatim>\<open>check_host\<close> (\<^verbatim>\<open>src/src/spf/evaluator/mod.rs\<close>) of RFC 7208.
  The resolver is the record \<open>dns\<close>: each lookup answers a list, or \<open>None\<close> for a temporary failure. The
  budget carries, beside the counters of the code, the list of the questions asked so far; no
  decision reads it.
\<close>

subsection \<open>Records\<close>

datatype qualifier = QPass | QFail | QSoftFail | QNeutral

datatype spf_mechanism =
  MAll
| MIp4 "32 word" nat
| MIp6 "128 word" nat
| MA "rstr option" nat nat
| MMx "rstr option" nat nat
| MInclude rstr
| MExists rstr
| MPtr "rstr option"

record spf_record =
  sr_directives :: "(qualifier \<times> spf_mechanism) list"
  sr_redirect :: "rstr option"

definition parse_prefix :: "rstr \<Rightarrow> nat \<Rightarrow> nat option" where
  "parse_prefix text max_prefix =
     (case parse_uint u8_max text of
        None \<Rightarrow> None
      | Some prefix \<Rightarrow> if prefix > max_prefix then None else Some prefix)"

definition split_cidr :: "rstr \<Rightarrow> nat \<Rightarrow> (rstr \<times> nat) option" where
  "split_cidr value max_prefix =
     (case split_once 47 value of
        Some (addr, prefix) \<Rightarrow> map_option (\<lambda>p. (addr, p)) (parse_prefix prefix max_prefix)
      | None \<Rightarrow> Some (value, max_prefix))"

text \<open>\<^verbatim>\<open>cidr.split_once("//")\<close>.\<close>

fun split_slashes :: "rstr \<Rightarrow> (rstr \<times> rstr) option" where
  "split_slashes (a # b # s) =
     (if a = 47 \<and> b = 47 then Some ([], s)
      else map_option (\<lambda>(x, y). (a # x, y)) (split_slashes (b # s)))"
| "split_slashes _ = None"

definition parse_domain_spec :: "rstr \<Rightarrow> (rstr option \<times> nat \<times> nat) option" where
  "parse_domain_spec tail =
     (let domain_part = takeWhile (\<lambda>c. c \<noteq> 47) tail;
          cidr_part = dropWhile (\<lambda>c. c \<noteq> 47) tail;
          domain = (case domain_part of c # d \<Rightarrow> if c = 58 \<and> d \<noteq> [] then Some d else None | [] \<Rightarrow> None)
      in if domain_part \<noteq> [] \<and> domain = None then None
         else if cidr_part = [] then Some (domain, 32, 128)
         else let cidr = tl cidr_part;
                  (four, six) = (case cidr of
                      c # rest \<Rightarrow> if c = 47 then ([], Some rest)
                        else (case split_slashes cidr of Some (a, b) \<Rightarrow> (a, Some b) | None \<Rightarrow> (cidr, None))
                    | [] \<Rightarrow> ([], None))
           in case (if four = [] then Some 32 else parse_prefix four 32) of
                None \<Rightarrow> None
              | Some p4 \<Rightarrow>
                  (case (case six of None \<Rightarrow> Some 128 | Some s \<Rightarrow> parse_prefix s 128) of
                     None \<Rightarrow> None
                   | Some p6 \<Rightarrow> Some (domain, p4, p6)))"

definition parse_ip4 :: "rstr \<Rightarrow> spf_mechanism option" where
  "parse_ip4 value = (case split_cidr value 32 of
       None \<Rightarrow> None
     | Some (addr, prefix) \<Rightarrow> map_option (\<lambda>network. MIp4 network prefix) (parse_ipv4 addr))"

definition parse_ip6 :: "rstr \<Rightarrow> spf_mechanism option" where
  "parse_ip6 value = (case split_cidr value 128 of
       None \<Rightarrow> None
     | Some (addr, prefix) \<Rightarrow> map_option (\<lambda>network. MIp6 network prefix) (parse_ipv6 addr))"

definition parse_mechanism :: "rstr \<Rightarrow> spf_mechanism option" where
  "parse_mechanism body =
     (let lower = ascii_lower body
      in if lower = lit ''all'' then Some MAll
         else case strip_prefix (lit ''ip4:'') lower of
           Some value \<Rightarrow> parse_ip4 value
         | None \<Rightarrow>
         (case strip_prefix (lit ''ip6:'') lower of
           Some value \<Rightarrow> parse_ip6 value
         | None \<Rightarrow>
         (case strip_prefix (lit ''include:'') lower of
           Some value \<Rightarrow> if value = [] then None else Some (MInclude value)
         | None \<Rightarrow>
             if lower = lit ''a'' \<or> starts_with (lit ''a:'') lower \<or> starts_with (lit ''a/'') lower
             then map_option (\<lambda>(d, p4, p6). MA d p4 p6) (parse_domain_spec (drop 1 lower))
             else if lower = lit ''mx'' \<or> starts_with (lit ''mx:'') lower \<or> starts_with (lit ''mx/'') lower
             then map_option (\<lambda>(d, p4, p6). MMx d p4 p6) (parse_domain_spec (drop 2 lower))
             else case strip_prefix (lit ''exists:'') lower of
               Some value \<Rightarrow> if value = [] then None else Some (MExists value)
             | None \<Rightarrow>
                 if lower = lit ''ptr'' \<or> starts_with (lit ''ptr:'') lower
                 then Some (MPtr (case strip_prefix (lit ''ptr:'') lower of
                               Some d \<Rightarrow> if d \<noteq> [] then Some d else None | None \<Rightarrow> None))
                 else None)))"

definition parse_directive :: "rstr \<Rightarrow> (qualifier \<times> spf_mechanism) option" where
  "parse_directive term =
     (let (q, body) = (case term of
            c # rest \<Rightarrow> if c = 43 then (QPass, rest) else if c = 45 then (QFail, rest)
                       else if c = 126 then (QSoftFail, rest) else if c = 63 then (QNeutral, rest)
                       else (QPass, term)
          | [] \<Rightarrow> (QPass, term))
      in map_option (\<lambda>m. (q, m)) (parse_mechanism body))"

fun parse_terms :: "rstr list \<Rightarrow> spf_record \<Rightarrow> spf_record option" where
  "parse_terms [] r = Some r"
| "parse_terms (term # terms) r =
     (case split_once 61 term of
        Some (name, value) \<Rightarrow>
          if eq_ignore_case name (lit ''redirect'')
          then if sr_redirect r \<noteq> None then None
               else parse_terms terms (r\<lparr>sr_redirect := Some (ascii_lower value)\<rparr>)
          else parse_terms terms r
      | None \<Rightarrow>
          (case parse_directive term of
             None \<Rightarrow> None
           | Some d \<Rightarrow> parse_terms terms (r\<lparr>sr_directives := sr_directives r @ [d]\<rparr>)))"

definition spf_parse :: "rstr \<Rightarrow> spf_record option" where
  "spf_parse text = (case split_ascii_whitespace text of
       version # terms \<Rightarrow>
         if version = lit ''v=spf1'' then parse_terms terms \<lparr>sr_directives = [], sr_redirect = None\<rparr> else None
     | [] \<Rightarrow> None)"

subsection \<open>Macros\<close>

datatype spf_outcome = SpfNone | SpfNeutral | SpfPass | SpfFail | SpfSoftFail | SpfTempError | SpfPermError

definition spf_str :: "spf_outcome \<Rightarrow> rstr" where
  "spf_str x = (case x of
       SpfNone \<Rightarrow> lit ''none'' | SpfNeutral \<Rightarrow> lit ''neutral'' | SpfPass \<Rightarrow> lit ''pass'' | SpfFail \<Rightarrow> lit ''fail''
     | SpfSoftFail \<Rightarrow> lit ''softfail'' | SpfTempError \<Rightarrow> lit ''temperror'' | SpfPermError \<Rightarrow> lit ''permerror'')"

definition parse_macro_transformers :: "rstr \<Rightarrow> (nat option \<times> bool \<times> rstr) option" where
  "parse_macro_transformers s =
     (let digits = takeWhile is_digit s; rest = dropWhile is_digit s
      in case (if digits = [] then Some None else map_option Some (parse_uint usize_max digits)) of
           None \<Rightarrow> None
         | Some cnt \<Rightarrow>
             let reversed = (rest \<noteq> [] \<and> (hd rest = 114 \<or> hd rest = 82));
                 delimiters = (if reversed then tl rest else rest)
             in if delimiters = [] then Some (cnt, reversed, [46])
                else if list_all (\<lambda>d. d \<in> set (lit ''.+-,/_='')) delimiters then Some (cnt, reversed, delimiters)
                else None)"

definition ip_to_macro_str :: "ipaddr \<Rightarrow> rstr" where
  "ip_to_macro_str ip = (case ip of
       V4 a \<Rightarrow> show_ipv4 a
     | V6 a \<Rightarrow> join_with [46] (map (\<lambda>i. [hex_digit (unat (take_bit 4 (drop_bit (124 - 4 * i) a)))]) [0..<32]))"

definition expand_macro_inner :: "rstr \<Rightarrow> ipaddr \<Rightarrow> rstr \<Rightarrow> rstr \<Rightarrow> rstr \<Rightarrow> rstr option" where
  "expand_macro_inner inner ip current_domain sender helo =
     (case inner of
        [] \<Rightarrow> None
      | c # rest \<Rightarrow>
     (case parse_macro_transformers rest of
        None \<Rightarrow> None
      | Some (cnt, reversed, delimiters) \<Rightarrow>
          let letter = to_lower c;
              raw = (if letter = 115 then Some sender
                else if letter = 108 then Some (case split_once 64 sender of Some (local, _) \<Rightarrow> local | None \<Rightarrow> sender)
                else if letter = 111 then Some (case rsplit_once 64 sender of Some (_, domain) \<Rightarrow> domain | None \<Rightarrow> sender)
                else if letter = 100 then Some current_domain
                else if letter = 105 then Some (ip_to_macro_str ip)
                else if letter = 118 then Some (case ip of V4 _ \<Rightarrow> lit ''in-addr'' | V6 _ \<Rightarrow> lit ''ip6'')
                else if letter = 104 then Some helo
                else None)
          in case raw of
               None \<Rightarrow> None
             | Some text \<Rightarrow>
                 let parts = split_by (\<lambda>x. x \<in> set delimiters) text;
                     parts = (if reversed then rev parts else parts);
                     parts = (case cnt of None \<Rightarrow> parts | Some n \<Rightarrow> drop (length parts - n) parts)
                 in Some (join_with [46] parts)))"

lemma split_once_shorter: "split_once c s = Some (a, b) \<Longrightarrow> length b < length s"
  by (induction s arbitrary: a) (auto split: if_splits option.splits)

function expand_rest :: "(rstr \<Rightarrow> rstr option) \<Rightarrow> rstr \<Rightarrow> rstr option" where
  "expand_rest inner s =
     (case split_once 37 s of
        None \<Rightarrow> Some s
      | Some (before, rest) \<Rightarrow>
     (case rest of
        [] \<Rightarrow> None
      | ch # tail \<Rightarrow>
          if ch = 37 then map_option (\<lambda>r. before @ 37 # r) (expand_rest inner tail)
          else if ch = 95 then map_option (\<lambda>r. before @ 32 # r) (expand_rest inner tail)
          else if ch = 45 then map_option (\<lambda>r. before @ lit ''%20'' @ r) (expand_rest inner tail)
          else if ch = 123 then
            (case split_once 125 tail of
               None \<Rightarrow> None
             | Some (name, after) \<Rightarrow>
                 (case inner name of
                    None \<Rightarrow> None
                  | Some text \<Rightarrow> map_option (\<lambda>r. before @ text @ r) (expand_rest inner after)))
          else None))"
  by pat_completeness auto
termination
  by (relation "measure (\<lambda>(inner, s). length s)") (auto dest!: split_once_shorter)

declare expand_rest.simps [simp del]

definition expand_macro :: "rstr \<Rightarrow> ipaddr \<Rightarrow> rstr \<Rightarrow> rstr \<Rightarrow> rstr \<Rightarrow> rstr option" where
  "expand_macro spec ip current_domain sender helo =
     (if 37 \<notin> set spec then Some spec
      else expand_rest (\<lambda>inner. expand_macro_inner inner ip current_domain sender helo) spec)"

subsection \<open>check\_host\<close>

definition MAX_DNS_MECHANISMS :: nat where
  "MAX_DNS_MECHANISMS = 10"

definition MAX_VOID_LOOKUPS :: nat where
  "MAX_VOID_LOOKUPS = 2"

definition MAX_DEPTH :: nat where
  "MAX_DEPTH = 10"

record dns =
  dns_txt :: "rstr \<Rightarrow> rstr list option"
  dns_mx :: "rstr \<Rightarrow> rstr list option"
  dns_addresses :: "rstr \<Rightarrow> ipaddr list option"

record check_context =
  cc_dns :: dns
  cc_ip :: ipaddr
  cc_sender :: rstr
  cc_helo :: rstr

datatype question = AskTxt rstr | AskMx rstr | AskAddresses rstr

record budget =
  b_remaining :: nat
  b_voids :: nat
  b_depth :: nat
  b_asked :: "question list"

definition budget_default :: budget where
  "budget_default = \<lparr>b_remaining = MAX_DNS_MECHANISMS, b_voids = 0, b_depth = 0, b_asked = []\<rparr>"

definition consume :: "budget \<Rightarrow> budget option" where
  "consume b = (if b_remaining b = 0 then None else Some (b\<lparr>b_remaining := b_remaining b - 1\<rparr>))"

definition ask :: "question \<Rightarrow> budget \<Rightarrow> budget" where
  "ask q b = b\<lparr>b_asked := b_asked b @ [q]\<rparr>"

text \<open>A lookup that found nothing is counted; the third one ends the evaluation.\<close>

definition count_void :: "budget \<Rightarrow> budget \<times> bool" where
  "count_void b = (let b = b\<lparr>b_voids := b_voids b + 1\<rparr> in (b, b_voids b > MAX_VOID_LOOKUPS))"

definition void_check :: "'a list \<Rightarrow> budget \<Rightarrow> budget \<times> bool" where
  "void_check answers b = (if answers = [] then count_void b else (b, False))"

definition v4_in_network :: "32 word \<Rightarrow> 32 word \<Rightarrow> nat \<Rightarrow> bool" where
  "v4_in_network ip network prefix =
     (let m = (if prefix = 0 then 0 else push_bit (32 - prefix) (- 1 :: 32 word)) in ip AND m = network AND m)"

definition v6_in_network :: "128 word \<Rightarrow> 128 word \<Rightarrow> nat \<Rightarrow> bool" where
  "v6_in_network ip network prefix =
     (let m = (if prefix = 0 then 0 else push_bit (128 - prefix) (- 1 :: 128 word)) in ip AND m = network AND m)"

definition address_matches :: "ipaddr \<Rightarrow> ipaddr \<Rightarrow> nat \<Rightarrow> nat \<Rightarrow> bool" where
  "address_matches ip candidate prefix4 prefix6 = (case (ip, candidate) of
       (V4 a, V4 c) \<Rightarrow> v4_in_network a c prefix4
     | (V6 a, V6 c) \<Rightarrow> v6_in_network a c prefix6
     | _ \<Rightarrow> False)"

definition fetch_record :: "dns \<Rightarrow> rstr \<Rightarrow> budget \<Rightarrow> budget \<times> (spf_outcome, spf_record option) result" where
  "fetch_record d domain b =
     (let b = ask (AskTxt domain) b
      in case dns_txt d domain of
           None \<Rightarrow> (b, Inl SpfTempError)
         | Some texts \<Rightarrow>
             (case void_check texts b of
                (b, True) \<Rightarrow> (b, Inl SpfPermError)
              | (b, False) \<Rightarrow>
                  (b, case filter (\<lambda>t. t = lit ''v=spf1'' \<or> starts_with (lit ''v=spf1 '') t) texts of
                        [] \<Rightarrow> Inr None
                      | [text] \<Rightarrow> (case spf_parse text of None \<Rightarrow> Inl SpfPermError | Some r \<Rightarrow> Inr (Some r))
                      | _ \<Rightarrow> Inl SpfPermError)))"

definition host_matches :: "check_context \<Rightarrow> rstr \<Rightarrow> nat \<Rightarrow> nat \<Rightarrow> budget
    \<Rightarrow> budget \<times> (spf_outcome, bool \<times> bool) result" where
  "host_matches c name p4 p6 b =
     (let b = ask (AskAddresses name) b
      in case dns_addresses (cc_dns c) name of
           None \<Rightarrow> (b, Inl SpfTempError)
         | Some addresses \<Rightarrow>
             (case void_check addresses b of
                (b, True) \<Rightarrow> (b, Inl SpfPermError)
              | (b, False) \<Rightarrow>
                  (b, Inr (list_ex (\<lambda>a. address_matches (cc_ip c) a p4 p6) addresses, addresses \<noteq> []))))"

fun any_exchanger :: "check_context \<Rightarrow> rstr list \<Rightarrow> nat \<Rightarrow> nat \<Rightarrow> budget \<Rightarrow> budget \<times> (spf_outcome, bool) result" where
  "any_exchanger c [] p4 p6 b = (b, Inr False)"
| "any_exchanger c (x # xs) p4 p6 b =
     (case host_matches c x p4 p6 b of
        (b, Inl r) \<Rightarrow> (b, Inl r)
      | (b, Inr (hit, _)) \<Rightarrow> if hit then (b, Inr True) else any_exchanger c xs p4 p6 b)"

definition mx_matches :: "check_context \<Rightarrow> rstr \<Rightarrow> nat \<Rightarrow> nat \<Rightarrow> budget \<Rightarrow> budget \<times> (spf_outcome, bool) result" where
  "mx_matches c name p4 p6 b =
     (let b = ask (AskMx name) b
      in case dns_mx (cc_dns c) name of
           None \<Rightarrow> (b, Inl SpfTempError)
         | Some exchangers \<Rightarrow>
             (case void_check exchangers b of
                (b, True) \<Rightarrow> (b, Inl SpfPermError)
              | (b, False) \<Rightarrow> any_exchanger c (take 10 exchangers) p4 p6 b))"

definition expand_for :: "check_context \<Rightarrow> rstr \<Rightarrow> rstr \<Rightarrow> rstr option" where
  "expand_for c domain spec = expand_macro spec (cc_ip c) domain (cc_sender c) (cc_helo c)"

text \<open>Every mechanism but \<^verbatim>\<open>include\<close>, which evaluates another domain and has its own branch in the loop.\<close>

definition plain_matches :: "check_context \<Rightarrow> rstr \<Rightarrow> spf_mechanism \<Rightarrow> budget \<Rightarrow> budget \<times> (spf_outcome, bool) result" where
  "plain_matches c domain m b =
     (case m of
        MAll \<Rightarrow> (b, Inr True)
      | MIp4 network prefix \<Rightarrow> (b, Inr (case cc_ip c of V4 a \<Rightarrow> v4_in_network a network prefix | V6 _ \<Rightarrow> False))
      | MIp6 network prefix \<Rightarrow> (b, Inr (case cc_ip c of V6 a \<Rightarrow> v6_in_network a network prefix | V4 _ \<Rightarrow> False))
      | MA target p4 p6 \<Rightarrow>
          (case consume b of
             None \<Rightarrow> (b, Inl SpfPermError)
           | Some b \<Rightarrow>
          (case expand_for c domain (case target of Some t \<Rightarrow> t | None \<Rightarrow> domain) of
             None \<Rightarrow> (b, Inl SpfPermError)
           | Some name \<Rightarrow>
               (case host_matches c name p4 p6 b of
                  (b, Inl r) \<Rightarrow> (b, Inl r) | (b, Inr (hit, _)) \<Rightarrow> (b, Inr hit))))
      | MMx target p4 p6 \<Rightarrow>
          (case consume b of
             None \<Rightarrow> (b, Inl SpfPermError)
           | Some b \<Rightarrow>
          (case expand_for c domain (case target of Some t \<Rightarrow> t | None \<Rightarrow> domain) of
             None \<Rightarrow> (b, Inl SpfPermError)
           | Some name \<Rightarrow> mx_matches c name p4 p6 b))
      | MExists name \<Rightarrow>
          (case consume b of
             None \<Rightarrow> (b, Inl SpfPermError)
           | Some b \<Rightarrow>
               (case host_matches c name 32 128 b of
                  (b, Inl r) \<Rightarrow> (b, Inl r) | (b, Inr (_, found)) \<Rightarrow> (b, Inr found)))
      | MPtr _ \<Rightarrow> (case consume b of None \<Rightarrow> (b, Inl SpfPermError) | Some b \<Rightarrow> (b, Inr False))
      | MInclude _ \<Rightarrow> (b, Inr False))"

definition outcome_of :: "qualifier \<Rightarrow> spf_outcome" where
  "outcome_of q = (case q of
       QPass \<Rightarrow> SpfPass | QFail \<Rightarrow> SpfFail | QSoftFail \<Rightarrow> SpfSoftFail | QNeutral \<Rightarrow> SpfNeutral)"

text \<open>The counters of a nested evaluation come back to its caller, the depth does not.\<close>

definition nested :: "budget \<Rightarrow> budget" where
  "nested b = b\<lparr>b_depth := b_depth b + 1\<rparr>"

definition unnested :: "budget \<Rightarrow> budget \<Rightarrow> budget" where
  "unnested b n = b\<lparr>b_remaining := b_remaining n, b_voids := b_voids n, b_asked := b_asked n\<rparr>"

definition include_of :: "spf_mechanism \<Rightarrow> rstr option" where
  "include_of m = (case m of MInclude spec \<Rightarrow> Some spec | _ \<Rightarrow> None)"

function check_host_inner :: "check_context \<Rightarrow> rstr \<Rightarrow> budget \<Rightarrow> budget \<times> spf_outcome"
  and run_directives :: "check_context \<Rightarrow> rstr \<Rightarrow> rstr option \<Rightarrow> (qualifier \<times> spf_mechanism) list \<Rightarrow> budget
    \<Rightarrow> budget \<times> spf_outcome" where
  "check_host_inner c domain b =
     (if b_depth b \<ge> MAX_DEPTH then (b, SpfPermError)
      else case fetch_record (cc_dns c) domain b of
        (b', Inl r) \<Rightarrow> (b', r)
      | (b', Inr None) \<Rightarrow> (b', SpfNone)
      | (b', Inr (Some r)) \<Rightarrow> run_directives c domain (sr_redirect r) (sr_directives r) (unnested b b'))"
| "run_directives c domain redirect [] b =
     (case redirect of
        None \<Rightarrow> (b, SpfNeutral)
      | Some spec \<Rightarrow>
          (case consume b of
             None \<Rightarrow> (b, SpfPermError)
           | Some b1 \<Rightarrow>
          (case expand_for c domain spec of
             None \<Rightarrow> (b1, SpfPermError)
           | Some target \<Rightarrow>
               (case check_host_inner c target (nested b1) of
                  (n, r) \<Rightarrow> (unnested b1 n, if r = SpfNone then SpfPermError else r)))))"
| "run_directives c domain redirect ((q, m) # ds) b =
     (case include_of m of
        Some spec \<Rightarrow>
          (case consume b of
             None \<Rightarrow> (b, SpfPermError)
           | Some b1 \<Rightarrow>
          (case expand_for c domain spec of
             None \<Rightarrow> (b1, SpfPermError)
           | Some included \<Rightarrow>
               (case check_host_inner c included (nested b1) of
                  (n, r) \<Rightarrow>
                    if r = SpfPass then (unnested b1 n, outcome_of q)
                    else if r = SpfFail \<or> r = SpfSoftFail \<or> r = SpfNeutral
                    then run_directives c domain redirect ds (unnested b1 n)
                    else (unnested b1 n, if r = SpfNone then SpfPermError else r))))
      | None \<Rightarrow>
          (case plain_matches c domain m b of
             (b', Inl r) \<Rightarrow> (b', r)
           | (b', Inr hit) \<Rightarrow>
               if hit then (b', outcome_of q) else run_directives c domain redirect ds (unnested b b')))"
  by pat_completeness auto

text \<open>The depth bounds the nesting and the record's length each level.\<close>

termination
proof (relation "measures [\<lambda>x. (case x of
       Inl (c, domain, b) \<Rightarrow> if b_depth b < MAX_DEPTH then 3 * (MAX_DEPTH - b_depth b) + 2 else 0
     | Inr (c, domain, redirect, ds, b) \<Rightarrow> 3 * (MAX_DEPTH - b_depth b) + 1),
     \<lambda>x. (case x of Inl _ \<Rightarrow> 0 | Inr (c, domain, redirect, ds, b) \<Rightarrow> length ds)]")
qed (auto simp: unnested_def nested_def consume_def split: if_splits)

definition check_host :: "dns \<Rightarrow> ipaddr \<Rightarrow> rstr \<Rightarrow> rstr \<Rightarrow> rstr \<Rightarrow> budget \<times> spf_outcome" where
  "check_host d ip domain sender helo =
     check_host_inner \<lparr>cc_dns = d, cc_ip = ip, cc_sender = sender, cc_helo = helo\<rparr> domain budget_default"

declare check_host_inner.simps [simp del] run_directives.simps [simp del]

subsection \<open>How much an evaluation may ask\<close>

text \<open>A term that queries costs at most eleven questions: one for the exchangers and ten for their
  addresses.\<close>

definition spend :: "budget \<Rightarrow> nat" where
  "spend b = length (b_asked b) + 11 * b_remaining b"

lemma void_check_frame:
  "void_check xs b = (b', v) \<Longrightarrow> b_remaining b' = b_remaining b \<and> b_asked b' = b_asked b \<and> b_depth b' = b_depth b"
  by (auto simp: void_check_def count_void_def Let_def split: if_splits)

lemma ask_frame [simp]: "b_remaining (ask q b) = b_remaining b" "b_asked (ask q b) = b_asked b @ [q]" "b_depth (ask q b) = b_depth b"
  by (simp_all add: ask_def)

lemma fetch_record_spend:
  assumes "fetch_record d domain b = (b', r)"
  shows "spend b' = spend b + 1"
  using assms by (auto simp: fetch_record_def spend_def Let_def dest!: void_check_frame split: option.splits prod.splits bool.splits)

lemma host_matches_cost:
  assumes "host_matches c name p4 p6 b = (b', r)"
  shows "length (b_asked b') = length (b_asked b) + 1 \<and> b_remaining b' = b_remaining b"
  using assms by (auto simp: host_matches_def Let_def dest!: void_check_frame split: option.splits prod.splits bool.splits)

lemma any_exchanger_cost:
  "any_exchanger c xs p4 p6 b = (b', r) \<Longrightarrow> length (b_asked b') \<le> length (b_asked b) + length xs \<and> b_remaining b' = b_remaining b"
proof (induction xs arbitrary: b)
  case (Cons x xs)
  obtain b1 q where h: "host_matches c x p4 p6 b = (b1, q)"
    by force
  show ?case
    using Cons.prems Cons.IH [of b1] host_matches_cost [OF h] h by (auto split: sum.splits prod.splits if_splits)
qed simp

lemma mx_matches_cost:
  assumes "mx_matches c name p4 p6 b = (b', r)"
  shows "length (b_asked b') \<le> length (b_asked b) + 11 \<and> b_remaining b' = b_remaining b"
proof (cases "dns_mx (cc_dns c) name")
  case (Some xs)
  obtain b1 v where v: "void_check xs (ask (AskMx name) b) = (b1, v)"
    by force
  have b1: "length (b_asked b1) = length (b_asked b) + 1" "b_remaining b1 = b_remaining b"
    using void_check_frame [OF v] by simp_all
  show ?thesis
    using assms Some v b1 any_exchanger_cost [of c "take 10 xs" p4 p6 b1 b' r]
    by (cases v) (auto simp: mx_matches_def Let_def)
qed (use assms in \<open>auto simp: mx_matches_def Let_def\<close>)

lemma consume_spend: "consume b = Some b1 \<Longrightarrow> spend b1 + 11 = spend b \<and> length (b_asked b1) = length (b_asked b)"
  by (auto simp: spend_def consume_def split: if_splits)

lemma host_matches_spend: "host_matches c name p4 p6 b = (b', r) \<Longrightarrow> spend b' \<le> spend b + 11"
  by (drule host_matches_cost) (simp add: spend_def)

lemma mx_matches_spend: "mx_matches c name p4 p6 b = (b', r) \<Longrightarrow> spend b' \<le> spend b + 11"
  by (drule mx_matches_cost) (simp add: spend_def)

lemma plain_matches_spend:
  assumes "plain_matches c domain m b = (b', r)"
  shows "spend b' \<le> spend b"
proof (cases m)
  case (MA t p4 p6)
  then show ?thesis
    using assms by (auto simp: plain_matches_def dest!: host_matches_spend consume_spend split: option.splits prod.splits sum.splits)
next
  case (MMx t p4 p6)
  then show ?thesis
    using assms by (auto simp: plain_matches_def dest!: mx_matches_spend consume_spend split: option.splits)
next
  case (MExists name)
  then show ?thesis
    using assms by (auto simp: plain_matches_def dest!: host_matches_spend consume_spend split: option.splits prod.splits sum.splits)
qed (use assms in \<open>auto simp: plain_matches_def dest!: consume_spend split: option.splits\<close>)

lemma unnested_spend [simp]: "spend (unnested b n) = spend n"
  by (simp add: spend_def unnested_def)

lemma nested_spend [simp]: "spend (nested b) = spend b"
  by (simp add: spend_def nested_def)

lemma evaluation_spend:
  "spend (fst (check_host_inner c domain b)) \<le> spend b + 1"
  "spend (fst (run_directives c domain redirect ds b)) \<le> spend b"
proof (induction c domain b and c domain redirect ds b rule: check_host_inner_run_directives.induct)
  case (1 c domain b)
  obtain b1 r where f: "fetch_record (cc_dns c) domain b = (b1, r)"
    by force
  show ?case
    using 1 [OF _ f [symmetric]] fetch_record_spend [OF f]
    by (subst check_host_inner.simps) (auto simp: f split: sum.splits option.splits)
next
  case (2 c domain redirect b)
  have "spend (unnested b1 n) \<le> spend b"
    if "redirect = Some spec" "consume b = Some b1" "expand_for c domain spec = Some d'"
      "check_host_inner c d' (nested b1) = (n, r)" for spec b1 d' n r
    using 2 [OF that(1-3)] that(4) consume_spend [OF that(2)] by simp
  then show ?case
    by (subst run_directives.simps) (auto dest: consume_spend split: option.splits prod.splits)
next
  case (3 c domain redirect q m ds b)
  show ?case
  proof (cases "include_of m")
    case None
    obtain b1 r where p: "plain_matches c domain m b = (b1, r)"
      by force
    show ?thesis
      using 3(1) [OF None p [symmetric]] plain_matches_spend [OF p]
      by (subst run_directives.simps) (auto simp: None p split: sum.splits intro: order_trans)
  next
    case (Some spec)
    have "spend n \<le> spend b \<and> (r \<noteq> SpfPass \<longrightarrow> r = SpfFail \<or> r = SpfSoftFail \<or> r = SpfNeutral \<longrightarrow>
        spend (fst (run_directives c domain redirect ds (unnested b1 n))) \<le> spend b)"
      if "consume b = Some b1" "expand_for c domain spec = Some d'" "check_host_inner c d' (nested b1) = (n, r)" for b1 d' n r
      using 3(2) [OF Some that(1,2)] 3(3) [OF Some that(1,2) that(3) [symmetric]] that(3) consume_spend [OF that(1)]
      by force
    then show ?thesis
      by (subst run_directives.simps) (auto simp: Some dest: consume_spend split: option.splits prod.splits)
  qed
qed

text \<open>C32: Whatever records a domain and the domains it names publish, and however they refer to each other,
  evaluating SPF ends and asks the resolver at most 111 questions.\<close>

theorem spf_questions_bounded: "length (b_asked (fst (check_host d ip domain sender helo))) \<le> 111"
proof -
  have "spend budget_default = 110"
    by (simp add: spend_def budget_default_def MAX_DNS_MECHANISMS_def)
  then show ?thesis
    using evaluation_spend(1) [of "\<lparr>cc_dns = d, cc_ip = ip, cc_sender = sender, cc_helo = helo\<rparr>" domain budget_default]
    by (simp add: check_host_def spend_def)
qed

subsection \<open>A verdict is what the domain publishes\<close>

text \<open>A domain's own record, and a mechanism that covers the client, without budgets or order.\<close>

definition published :: "dns \<Rightarrow> rstr \<Rightarrow> spf_record \<Rightarrow> bool" where
  "published d domain r \<longleftrightarrow> (\<exists>texts text. dns_txt d domain = Some texts \<and> text \<in> set texts \<and> spf_parse text = Some r)"

definition listed_host :: "check_context \<Rightarrow> rstr \<Rightarrow> nat \<Rightarrow> nat \<Rightarrow> bool" where
  "listed_host c name p4 p6 \<longleftrightarrow> (\<exists>addresses a. dns_addresses (cc_dns c) name = Some addresses \<and> a \<in> set addresses
     \<and> address_matches (cc_ip c) a p4 p6)"

fun covers :: "check_context \<Rightarrow> rstr \<Rightarrow> spf_mechanism \<Rightarrow> bool" where
  "covers c domain MAll = True"
| "covers c domain (MIp4 network p) = (\<exists>a. cc_ip c = V4 a \<and> v4_in_network a network p)"
| "covers c domain (MIp6 network p) = (\<exists>a. cc_ip c = V6 a \<and> v6_in_network a network p)"
| "covers c domain (MA target p4 p6) =
     (\<exists>name. expand_for c domain (case target of Some t \<Rightarrow> t | None \<Rightarrow> domain) = Some name \<and> listed_host c name p4 p6)"
| "covers c domain (MMx target p4 p6) =
     (\<exists>name hosts x. expand_for c domain (case target of Some t \<Rightarrow> t | None \<Rightarrow> domain) = Some name
        \<and> dns_mx (cc_dns c) name = Some hosts \<and> x \<in> set hosts \<and> listed_host c x p4 p6)"
| "covers c domain (MExists name) = (\<exists>addresses. dns_addresses (cc_dns c) name = Some addresses \<and> addresses \<noteq> [])"
| "covers c domain _ = False"

inductive states :: "check_context \<Rightarrow> rstr \<Rightarrow> qualifier \<Rightarrow> bool" for c where
  by_directive: "published (cc_dns c) domain r \<Longrightarrow> (q, m) \<in> set (sr_directives r) \<Longrightarrow> covers c domain m \<Longrightarrow> states c domain q"
| by_include: "published (cc_dns c) domain r \<Longrightarrow> (q, MInclude spec) \<in> set (sr_directives r) \<Longrightarrow>
    expand_for c domain spec = Some other \<Longrightarrow> states c other QPass \<Longrightarrow> states c domain q"
| by_redirect: "published (cc_dns c) domain r \<Longrightarrow> sr_redirect r = Some spec \<Longrightarrow>
    expand_for c domain spec = Some other \<Longrightarrow> states c other q \<Longrightarrow> states c domain q"

lemma fetch_record_published:
  assumes "fetch_record d domain b = (b', Inr (Some r))"
  shows "published d domain r"
proof -
  obtain texts where t: "dns_txt d domain = Some texts"
    using assms by (auto simp: fetch_record_def Let_def split: option.splits)
  let ?f = "filter (\<lambda>t. t = lit ''v=spf1'' \<or> starts_with (lit ''v=spf1 '') t) texts"
  obtain x where "?f = [x]" "spf_parse x = Some r"
    using assms t by (auto simp: fetch_record_def Let_def split: prod.splits bool.splits list.splits option.splits)
  moreover from this(1) have "x \<in> set texts"
    by (metis (no_types, lifting) Cons_eq_filterD in_set_conv_decomp)
  ultimately show ?thesis
    using t by (auto simp: published_def)
qed

lemma host_matches_listed:
  assumes "host_matches c name p4 p6 b = (b', Inr (hit, found))"
  shows "hit \<Longrightarrow> listed_host c name p4 p6" "found \<Longrightarrow> covers c domain (MExists name)"
  using assms by (auto simp: host_matches_def listed_host_def Let_def list_ex_iff split: option.splits prod.splits bool.splits)

lemma any_exchanger_listed:
  "any_exchanger c xs p4 p6 b = (b', Inr True) \<Longrightarrow> \<exists>x\<in>set xs. listed_host c x p4 p6"
proof (induction xs arbitrary: b)
  case (Cons x xs)
  obtain b1 q where h: "host_matches c x p4 p6 b = (b1, q)"
    by force
  then show ?case
    using Cons by (auto dest: host_matches_listed split: sum.splits prod.splits if_splits)
qed simp

lemma plain_matches_covers:
  assumes "plain_matches c domain m b = (b', Inr True)"
  shows "covers c domain m"
proof (cases m)
  case (MMx t p4 p6)
  then show ?thesis
    using assms by (auto simp: plain_matches_def mx_matches_def Let_def dest!: any_exchanger_listed in_set_takeD
        split: option.splits prod.splits bool.splits)
next
  case (MA t p4 p6)
  then show ?thesis
    using assms by (auto simp: plain_matches_def dest: host_matches_listed split: option.splits prod.splits sum.splits)
next
  case (MExists name)
  then show ?thesis
    using assms host_matches_listed(2) by (fastforce simp: plain_matches_def split: option.splits prod.splits sum.splits)
qed (use assms in \<open>auto simp: plain_matches_def split: option.splits ipaddr.splits\<close>)

lemma plain_matches_error:
  assumes "plain_matches c domain m b = (b', Inl r)"
  shows "r \<in> {SpfTempError, SpfPermError}"
proof -
  have host: "r \<in> {SpfTempError, SpfPermError}" if "host_matches c name p4 p6 b = (b', Inl r)" for name p4 p6 b b' r
    using that by (auto simp: host_matches_def Let_def split: option.splits prod.splits bool.splits)
  have hosts: "any_exchanger c xs p4 p6 b = (b', Inl r) \<Longrightarrow> r \<in> {SpfTempError, SpfPermError}" for xs p4 p6 b b' r
    by (induction xs arbitrary: b) (auto dest: host split: prod.splits sum.splits if_splits)
  have "r \<in> {SpfTempError, SpfPermError}" if "mx_matches c name p4 p6 b = (b', Inl r)" for name p4 p6 b b' r
    using that hosts by (auto simp: mx_matches_def Let_def split: option.splits prod.splits bool.splits)
  then show ?thesis
    using assms host
    by (cases m) (fastforce simp: plain_matches_def split: option.splits prod.splits sum.splits)+
qed

lemma outcome_of_inject: "outcome_of q = outcome_of q' \<longleftrightarrow> q = q'"
  by (cases q; cases q') (simp_all add: outcome_of_def)

lemma outcome_of_definite: "outcome_of q \<noteq> SpfNone" "outcome_of q \<noteq> SpfPermError" "outcome_of q \<noteq> SpfTempError"
  by (cases q; simp add: outcome_of_def)+

lemma outcome_of_Pass: "outcome_of QPass = SpfPass"
  by (simp add: outcome_of_def)

lemma include_of_Some: "include_of m = Some spec \<longleftrightarrow> m = MInclude spec"
  by (auto simp: include_of_def split: spf_mechanism.splits)

text \<open>A neutral verdict is also the default, so only the other three say something of the records.\<close>

lemma evaluation_states:
  "snd (check_host_inner c domain b) = outcome_of q \<Longrightarrow> q \<noteq> QNeutral \<Longrightarrow> states c domain q"
  "snd (run_directives c domain rd ds b) = outcome_of q \<Longrightarrow> q \<noteq> QNeutral \<Longrightarrow>
     published (cc_dns c) domain r \<Longrightarrow> sr_redirect r = rd \<Longrightarrow> set ds \<subseteq> set (sr_directives r) \<Longrightarrow> states c domain q"
proof (induction c domain b and c domain rd ds b arbitrary: q and q r rule: check_host_inner_run_directives.induct)
  case (1 c domain b)
  note no = outcome_of_definite [of q]
  have "\<exists>b1 r. fetch_record (cc_dns c) domain b = (b1, Inr (Some r)) \<and> \<not> MAX_DEPTH \<le> b_depth b
      \<and> snd (run_directives c domain (sr_redirect r) (sr_directives r) (unnested b b1)) = outcome_of q"
  proof -
    have fails: "r \<in> {SpfTempError, SpfPermError}" if "fetch_record (cc_dns c) domain b = (b1, Inl r)" for b1 r
      using that by (auto simp: fetch_record_def Let_def split: option.splits prod.splits bool.splits list.splits)
    show ?thesis
      using 1(2) no fails by (subst (asm) check_host_inner.simps) (auto split: if_splits prod.splits sum.splits option.splits)
  qed
  then obtain b1 r where f: "fetch_record (cc_dns c) domain b = (b1, Inr (Some r))" "\<not> MAX_DEPTH \<le> b_depth b"
    "snd (run_directives c domain (sr_redirect r) (sr_directives r) (unnested b b1)) = outcome_of q"
    by blast
  show ?case
    using 1(1) [OF f(2) f(1) [symmetric] refl refl f(3) 1(3) fetch_record_published [OF f(1)] refl] by simp
next
  case (2 c domain rd b)
  have "q \<noteq> QNeutral \<Longrightarrow> SpfNeutral \<noteq> outcome_of q"
    by (cases q) (simp_all add: outcome_of_def)
  then obtain spec b1 other where o: "rd = Some spec" "consume b = Some b1" "expand_for c domain spec = Some other"
    "snd (check_host_inner c other (nested b1)) = outcome_of q"
    using 2(2,3) outcome_of_definite [of q]
    by (subst (asm) run_directives.simps) (auto split: option.splits prod.splits if_splits)
  have "states c other q"
    using 2(1) [OF o(1-3)] o(4) 2(3) by blast
  then show ?case
    using by_redirect [OF 2(4) _ o(3)] 2(5) o(1) by simp
next
  case (3 c domain rd q' m ds b)
  have in_r: "(q', m) \<in> set (sr_directives r)" "set ds \<subseteq> set (sr_directives r)"
    using 3(8) by auto
  show ?case
  proof (cases "include_of m")
    case None
    obtain b1 res where p: "plain_matches c domain m b = (b1, res)"
      by force
    have fails: "x \<in> {SpfTempError, SpfPermError}" if "res = Inl x" for x
      using p that plain_matches_error by blast
    have eq: "run_directives c domain rd ((q', m) # ds) b = (case res of Inl x \<Rightarrow> (b1, x)
        | Inr hit \<Rightarrow> if hit then (b1, outcome_of q') else run_directives c domain rd ds (unnested b b1))"
      by (subst run_directives.simps) (simp add: None p)
    show ?thesis
    proof (cases "res = Inr True")
      case True
      then have "covers c domain m"
        using p plain_matches_covers by blast
      moreover have "q' = q"
        using 3(4) eq True by (simp add: outcome_of_inject)
      ultimately show ?thesis
        using by_directive [OF 3(6)] in_r(1) by blast
    next
      case False
      then have "res = Inr False" "snd (run_directives c domain rd ds (unnested b b1)) = outcome_of q"
        using 3(4) eq fails outcome_of_definite [of q] by (cases res; auto)+
      then show ?thesis
        using 3(1) [OF None p [symmetric]] 3(5-7) in_r(2) by blast
    qed
  next
    case (Some spec)
    then have m: "m = MInclude spec"
      by (simp add: include_of_Some)
    obtain b1 other n res where o: "consume b = Some b1" "expand_for c domain spec = Some other"
      "check_host_inner c other (nested b1) = (n, res)"
      using 3(4) Some outcome_of_definite [of q]
      by (subst (asm) run_directives.simps) (auto split: option.splits prod.splits if_splits)
    have eq: "run_directives c domain rd ((q', m) # ds) b = (if res = SpfPass then (unnested b1 n, outcome_of q')
        else if res = SpfFail \<or> res = SpfSoftFail \<or> res = SpfNeutral
        then run_directives c domain rd ds (unnested b1 n)
        else (unnested b1 n, if res = SpfNone then SpfPermError else res))"
      by (subst run_directives.simps) (simp add: Some o)
    show ?thesis
    proof (cases "res = SpfPass")
      case True
      then have "q' = q" "states c other QPass"
        using 3(4) eq o(3) 3(2) [OF Some o(1,2), of QPass] by (simp_all add: outcome_of_inject outcome_of_Pass)
      then show ?thesis
        using by_include [OF 3(6) _ o(2)] in_r(1) m by blast
    next
      case False
      then have "res = SpfFail \<or> res = SpfSoftFail \<or> res = SpfNeutral"
        "snd (run_directives c domain rd ds (unnested b1 n)) = outcome_of q"
        using 3(4) eq outcome_of_definite [of q] by (cases res; simp)+
      then show ?thesis
        using 3(3) [OF Some o(1,2) o(3) [symmetric] False] 3(5-7) in_r(2) by blast
    qed
  qed
qed

text \<open>C33: SPF passes a client, fails it or softly fails it only when the domain says so: its own record has a
  directive with that qualifier that covers the client, or includes with that qualifier a domain that
  passes the client, or redirects to a domain that says the same.\<close>

theorem spf_verdict_published:
  assumes "snd (check_host d ip domain sender helo) = outcome_of q" "q \<noteq> QNeutral"
  shows "states \<lparr>cc_dns = d, cc_ip = ip, cc_sender = sender, cc_helo = helo\<rparr> domain q"
  using evaluation_states(1) assms by (simp add: check_host_def)

definition demo_dns :: dns where
  "demo_dns = \<lparr>dns_txt = (\<lambda>n. if n = lit ''a.org'' then Some [lit ''v=spf1 include:b.org -all'']
       else if n = lit ''b.org'' then Some [lit ''v=spf1 ip4:192.0.2.0/24''] else Some []),
     dns_mx = (\<lambda>_. Some []), dns_addresses = (\<lambda>_. Some [])\<rparr>"

lemmas spf_eval = check_host_inner.simps run_directives.simps fetch_record_def void_check_def ask_def consume_def
  budget_default_def nested_def unnested_def include_of_def plain_matches_def expand_for_def expand_macro_def
  outcome_of_def MAX_DEPTH_def MAX_DNS_MECHANISMS_def

lemma demo_parse:
  "spf_parse (lit ''v=spf1 include:b.org -all'') = Some \<lparr>sr_directives = [(QPass, MInclude (lit ''b.org'')), (QFail, MAll)], sr_redirect = None\<rparr>"
  "spf_parse (lit ''v=spf1 ip4:192.0.2.0/24'') = Some \<lparr>sr_directives = [(QPass, MIp4 0xC0000200 24)], sr_redirect = None\<rparr>"
  by (simp_all add: spf_parse_def lit_def split_ascii_whitespace_def is_ascii_whitespace_def parse_directive_def
      parse_mechanism_def ascii_lower_def to_lower_def is_upper_def starts_with_def parse_ip4_def split_cidr_def
      parse_prefix_def parse_uint_def is_digit_def digits_value_def u8_max_def ip_parse_defs slen_def utf8_len_def Let_def)

lemma demo_match:
  "starts_with (lit ''v=spf1 '') (lit ''v=spf1 include:b.org -all'')"
  "starts_with (lit ''v=spf1 '') (lit ''v=spf1 ip4:192.0.2.0/24'')"
  "v4_in_network 0xC0000207 0xC0000200 24"
  by (simp add: starts_with_def lit_def, simp add: starts_with_def lit_def, code_simp)

theorem spf_verdict_published_witness:
  "snd (check_host demo_dns (V4 0xC0000207) (lit ''a.org'') (lit ''x@a.org'') (lit ''h'')) = outcome_of QPass
   \<and> states \<lparr>cc_dns = demo_dns, cc_ip = V4 0xC0000207, cc_sender = lit ''x@a.org'', cc_helo = lit ''h''\<rparr> (lit ''a.org'') QPass"
proof -
  have "snd (check_host demo_dns (V4 0xC0000207) (lit ''a.org'') (lit ''x@a.org'') (lit ''h'')) = outcome_of QPass"
    by (simp add: check_host_def spf_eval demo_dns_def demo_parse demo_match lit_def [of "''a.org''"] lit_def [of "''b.org''"])
  then show ?thesis
    using spf_verdict_published by blast
qed

end
