(* ===== verification/Dmarc_Author.thy ===== *)
theory Dmarc_Author
  imports Header_Block
begin

section \<open>The author of a message\<close>

text \<open>
  \<^verbatim>\<open>src/src/dmarc/author/mod.rs\<close>: the \<^verbatim>\<open>From\<close> fields of a raw message, its author and its author domain, read
  once for the send-as check of a submission and for DMARC. The address parser of the \<^verbatim>\<open>mail_parser\<close> crate
  is the parameter \<open>mailboxes\<close>: the addresses it finds in one field value.
\<close>

subsection \<open>The code\<close>

datatype Author = AuthorMissing | AuthorMultipleFields | AuthorAddresses "rstr list"

datatype AuthorDomain = NoAuthorDomain | SeveralAuthorDomains | OneAuthorDomain rstr

definition from_line :: "rstr \<Rightarrow> rstr" where
  "from_line l =
     (if l \<noteq> [] \<and> last l = 10
      then (let line = butlast l in if line \<noteq> [] \<and> last line = 13 then butlast line else line)
      else l)"

definition folds :: "rstr \<Rightarrow> bool" where
  "folds line \<longleftrightarrow> line \<noteq> [] \<and> (hd line = 32 \<or> hd line = 9)"

definition from_value :: "rstr \<Rightarrow> rstr option" where
  "from_value line = (case split_once 58 line of
       None \<Rightarrow> None
     | Some (name, value) \<Rightarrow>
         if eq_ignore_case (rev (dropWhile (\<lambda>c. c = 32 \<or> c = 9) (rev name))) (lit ''from'') then Some value else None)"

fun from_loop :: "rstr option \<Rightarrow> rstr list \<Rightarrow> rstr list" where
  "from_loop current [] = (case current of Some value \<Rightarrow> [value] | None \<Rightarrow> [])"
| "from_loop current (l # ls) =
     (let line = from_line l
      in if folds line then from_loop (map_option (\<lambda>value. value @ line) current) ls
         else (case current of Some value \<Rightarrow> [value] | None \<Rightarrow> []) @ from_loop (from_value line) ls)"

definition header_text :: "octets \<Rightarrow> rstr option" where
  "header_text raw = from_utf8 (fst (split_at_blank_line raw))"

definition from_fields :: "octets \<Rightarrow> rstr list option" where
  "from_fields raw = map_option (\<lambda>block. from_loop None (split_inclusive (\<lambda>c. c = 10) block)) (header_text raw)"

definition addresses :: "(octets \<Rightarrow> rstr list) \<Rightarrow> rstr \<Rightarrow> rstr list" where
  "addresses mailboxes value =
     filter (\<lambda>a. a \<noteq> []) (map trim (mailboxes (utf8_encode (trim value @ [13, 10]))))"

definition author :: "(octets \<Rightarrow> rstr list) \<Rightarrow> octets \<Rightarrow> Author" where
  "author mailboxes raw = (case from_fields raw of
       None \<Rightarrow> AuthorMissing
     | Some [] \<Rightarrow> AuthorMissing
     | Some [value] \<Rightarrow>
         (let as = addresses mailboxes value in if as = [] then AuthorMissing else AuthorAddresses as)
     | Some _ \<Rightarrow> AuthorMultipleFields)"

definition domain_of :: "rstr \<Rightarrow> rstr option" where
  "domain_of address = (case rsplit_once 64 address of
       None \<Rightarrow> None
     | Some (local, domain) \<Rightarrow>
         let domain = ascii_lower (trim domain)
         in if local \<noteq> [] \<and> domain \<noteq> []
               \<and> list_all (\<lambda>c. \<not> is_whitespace c \<and> \<not> is_control c \<and> c \<notin> set (lit ''()<>,;:[]@'') \<and> c \<noteq> 92 \<and> c \<noteq> 34) domain
            then Some domain else None)"

fun collect_domains :: "rstr list \<Rightarrow> rstr list \<Rightarrow> rstr list option" where
  "collect_domains domains [] = Some domains"
| "collect_domains domains (a # as) = (case domain_of a of
       None \<Rightarrow> None
     | Some d \<Rightarrow> collect_domains (if d \<in> set domains then domains else domains @ [d]) as)"

definition author_domain :: "(octets \<Rightarrow> rstr list) \<Rightarrow> octets \<Rightarrow> AuthorDomain" where
  "author_domain mailboxes raw = (case author mailboxes raw of
       AuthorMissing \<Rightarrow> NoAuthorDomain
     | AuthorMultipleFields \<Rightarrow> SeveralAuthorDomains
     | AuthorAddresses as \<Rightarrow>
         (case collect_domains [] as of
            None \<Rightarrow> NoAuthorDomain
          | Some [one] \<Rightarrow> OneAuthorDomain one
          | Some _ \<Rightarrow> SeveralAuthorDomains))"

subsection \<open>One author\<close>

text \<open>The lines of a header that begin a \<^verbatim>\<open>From\<close> field.\<close>

definition begins_from :: "rstr \<Rightarrow> bool" where
  "begins_from l \<longleftrightarrow> \<not> folds (from_line l) \<and> from_value (from_line l) \<noteq> None"

lemma from_loop_count:
  "length (from_loop current ls) = (if current = None then 0 else 1) + length (filter begins_from ls)"
proof (induction ls arbitrary: current)
  case (Cons l ls)
  then show ?case
    by (auto simp: begins_from_def Let_def split: option.splits)
qed (auto split: option.splits)

lemma collect_domains_all:
  "collect_domains ds as = Some es \<Longrightarrow> set es = set ds \<union> (the \<circ> domain_of) ` set as \<and> (\<forall>a\<in>set as. domain_of a \<noteq> None)"
  by (induction as arbitrary: ds) (auto split: option.splits if_splits)

text \<open>C34: A message speaks for a domain only if its header has exactly one line that begins a \<^verbatim>\<open>From\<close> field,
  whatever the case of the name and the blanks before the colon, and every address in that field is of
  that domain; with two such lines it has no author, however the rest of the header looks.\<close>

theorem one_from_field:
  "(author_domain mailboxes raw = OneAuthorDomain d \<longrightarrow>
      (\<exists>block value. header_text raw = Some block \<and> from_fields raw = Some [value]
        \<and> length (filter begins_from (split_inclusive (\<lambda>c. c = 10) block)) = 1
        \<and> addresses mailboxes value \<noteq> [] \<and> (\<forall>a\<in>set (addresses mailboxes value). domain_of a = Some d)))
   \<and> (\<forall>block. header_text raw = Some block \<and> 2 \<le> length (filter begins_from (split_inclusive (\<lambda>c. c = 10) block)) \<longrightarrow>
        author mailboxes raw = AuthorMultipleFields)"
proof (intro conjI impI allI)
  assume one: "author_domain mailboxes raw = OneAuthorDomain d"
  then obtain as where as: "author mailboxes raw = AuthorAddresses as" "collect_domains [] as = Some [d]"
    by (auto simp: author_domain_def split: Author.splits option.splits list.splits)
  then obtain block val where v: "header_text raw = Some block" "from_fields raw = Some [val]"
    "as = addresses mailboxes val" "as \<noteq> []"
    by (auto simp: author_def from_fields_def Let_def split: option.splits list.splits if_splits)
  moreover have "length (filter begins_from (split_inclusive (\<lambda>c. c = 10) block)) = 1"
    using v(1,2) from_loop_count [of None "split_inclusive (\<lambda>c. c = 10) block"] by (simp add: from_fields_def)
  moreover have "\<forall>a\<in>set as. domain_of a = Some d"
    using collect_domains_all [OF as(2)] by force
  ultimately show "\<exists>block value. header_text raw = Some block \<and> from_fields raw = Some [value]
      \<and> length (filter begins_from (split_inclusive (\<lambda>c. c = 10) block)) = 1
      \<and> addresses mailboxes value \<noteq> [] \<and> (\<forall>a\<in>set (addresses mailboxes value). domain_of a = Some d)"
    by blast
next
  fix block
  assume two: "header_text raw = Some block \<and> 2 \<le> length (filter begins_from (split_inclusive (\<lambda>c. c = 10) block))"
  define fs where "fs = from_loop None (split_inclusive (\<lambda>c. c = 10) block)"
  have "2 \<le> length fs"
    using two from_loop_count [of None "split_inclusive (\<lambda>c. c = 10) block"] by (simp add: fs_def)
  then obtain x y zs where "fs = x # y # zs"
    by (cases fs; cases "tl fs") auto
  then show "author mailboxes raw = AuthorMultipleFields"
    using two by (simp add: author_def from_fields_def fs_def [symmetric])
qed

definition demo_from :: octets where
  "demo_from = map of_char ''FROM : a@b.org'' @ [13, 10, 13, 10]"

definition demo_mailboxes :: "octets \<Rightarrow> rstr list" where
  "demo_mailboxes bs = [map unat (takeWhile (\<lambda>b. b \<noteq> 13) bs)]"

lemmas author_eval = author_domain_def author_def from_fields_def header_text_def split_at_blank_line_def
  unterminated_def strip_last_def from_line_def folds_def from_value_def addresses_def domain_of_def

theorem one_from_field_witness:
  "author_domain demo_mailboxes demo_from = OneAuthorDomain (lit ''b.org'')
   \<and> (\<exists>block. header_text demo_from = Some block \<and> length (filter begins_from (split_inclusive (\<lambda>c. c = 10) block)) = 1)"
proof -
  have "author_domain demo_mailboxes demo_from = OneAuthorDomain (lit ''b.org'')"
    by (simp add: author_eval demo_from_def demo_mailboxes_def utf8_eval utf8_encode_def encode_char_def oct_def
        eq_ignore_case_def ascii_lower_def to_lower_def is_upper_def lit_def trim_def trim_start_def trim_end_def
        is_whitespace_def is_control_def rsplit_once_def Let_def)
  then show ?thesis
    using one_from_field [of demo_mailboxes demo_from "lit ''b.org''"] by blast
qed

end
