(* ===== verification/Header_Check.thy ===== *)
theory Header_Check
  imports Dmarc_Author Smtp_Reply
begin

section \<open>Unambiguous headers\<close>

text \<open>
  \<^verbatim>\<open>reject_ambiguous_headers\<close> of \<^verbatim>\<open>src/src/smtp/identification/mod.rs\<close> with the refusals of
  \<^verbatim>\<open>src/src/evidence/marketing/mod.rs\<close>: the check every submission passes before its author is read. The header
  reader of the \<^verbatim>\<open>mail_parser\<close> crate is the parameter \<open>reader\<close>: how many \<^verbatim>\<open>From\<close> fields, \<^verbatim>\<open>Sender\<close> fields and
  fields in all it finds.
\<close>

subsection \<open>The code\<close>

datatype marketing_refusal =
  NoUnsubscribeUri | NoOneClick | AmbiguousHeaderName | AmbiguousHeaderFraming | MalformedHeaderLine
| InvalidHeaderEncoding | HeaderReaderMismatch | HeaderReaderFramingMismatch | TooManyHeaderFields
| AmbiguousLineFraming

fun refusal_message :: "marketing_refusal \<Rightarrow> rstr" where
  "refusal_message HeaderReaderFramingMismatch =
     lit ''I cannot accept headers whose field boundaries disagree between readers''"
| "refusal_message TooManyHeaderFields = lit ''submission headers hold more fields than I accept''"
| "refusal_message InvalidHeaderEncoding = lit ''I cannot accept submission headers that are not UTF-8''"
| "refusal_message HeaderReaderMismatch =
     lit ''I cannot accept headers whose From or Sender field counts disagree between readers''"
| "refusal_message NoUnsubscribeUri = lit ''marketing mail needs a List-Unsubscribe field with an https URI (RFC 8058)''"
| "refusal_message NoOneClick = lit ''marketing mail needs List-Unsubscribe-Post: List-Unsubscribe=One-Click (RFC 8058)''"
| "refusal_message AmbiguousHeaderName =
     lit ''submission header field names must use printable ASCII without embedded whitespace''"
| "refusal_message AmbiguousHeaderFraming =
     lit ''submission headers must use one line-ending style without a bare carriage return''"
| "refusal_message AmbiguousLineFraming = lit ''a submitted message must not contain a NUL or a bare carriage return''"
| "refusal_message MalformedHeaderLine = lit ''submission header lines must follow RFC 5322 field and folding syntax''"

definition refusal_reply :: "marketing_refusal \<Rightarrow> reply" where
  "refusal_reply r = reply_single 550 (lit ''5.7.1 '' @ refusal_message r)"

definition is_field_name_byte :: "8 word \<Rightarrow> bool" where
  "is_field_name_byte b \<longleftrightarrow> 33 \<le> b \<and> b \<le> 126 \<and> b \<noteq> 58"

definition wsp :: "8 word \<Rightarrow> bool" where
  "wsp b \<longleftrightarrow> b = 32 \<or> b = 9"

text \<open>The state is whether a field has begun, the number of fields and the number of \<^verbatim>\<open>Sender\<close> fields.\<close>

definition check_header_line :: "octets \<Rightarrow> bool \<times> nat \<times> nat \<Rightarrow> marketing_refusal + (bool \<times> nat \<times> nat)" where
  "check_header_line line st =
     (case st of (has_field, n_fields, senders) \<Rightarrow>
        if line \<noteq> [] \<and> wsp (hd line) then (if has_field then Inr st else Inl MalformedHeaderLine)
        else case split_once 58 line of
          None \<Rightarrow> Inl MalformedHeaderLine
        | Some (raw_name, _) \<Rightarrow>
            let name = rev (dropWhile wsp (rev raw_name))
            in if name = [] then Inl MalformedHeaderLine
               else if \<not> list_all is_field_name_byte name then Inl AmbiguousHeaderName
               else Inr (True, n_fields + 1,
                         if list_all2 oct_eq_ignore_case name (map of_char ''sender'') then senders + 1 else senders))"

datatype line_end_style = Crlf | Lf

fun check_header_lines :: "line_end_style option \<Rightarrow> bool \<times> nat \<times> nat \<Rightarrow> octets list
    \<Rightarrow> marketing_refusal + (bool \<times> nat \<times> nat)" where
  "check_header_lines known st [] = Inr st"
| "check_header_lines known st (l # ls) =
     (if last l \<noteq> 10 then (if 13 \<in> set l then Inl AmbiguousHeaderFraming else check_header_line l st)
      else let raw = butlast l;
               ending = (if raw \<noteq> [] \<and> last raw = 13 then Crlf else Lf);
               line = (if ending = Crlf then butlast raw else raw)
           in if 13 \<in> set line then Inl AmbiguousHeaderFraming
              else if known \<noteq> None \<and> known \<noteq> Some ending then Inl AmbiguousHeaderFraming
              else if line = [] then Inr st
              else case check_header_line line st of
                Inl e \<Rightarrow> Inl e
              | Inr st \<Rightarrow> check_header_lines (Some ending) st ls)"

definition compare_header_readers :: "nat \<times> nat \<times> nat \<Rightarrow> nat \<times> nat \<times> nat \<Rightarrow> marketing_refusal + unit" where
  "compare_header_readers reader own =
     (if reader \<noteq> own
      then Inl (if (fst reader, fst (snd reader)) \<noteq> (fst own, fst (snd own)) then HeaderReaderMismatch
                else HeaderReaderFramingMismatch)
      else Inr ())"

definition reject_ambiguous_headers :: "(octets \<Rightarrow> nat \<times> nat \<times> nat) \<Rightarrow> octets \<Rightarrow> marketing_refusal + unit" where
  "reject_ambiguous_headers reader d =
     (case check_header_lines None (False, 0, 0) (lf_lines d) of
        Inl e \<Rightarrow> Inl e
      | Inr (_, n_fields, senders) \<Rightarrow>
          if n_fields > MAX_HEADER_FIELDS then Inl TooManyHeaderFields
          else case from_fields d of
            None \<Rightarrow> Inl InvalidHeaderEncoding
          | Some from_list \<Rightarrow> compare_header_readers (reader d) (length from_list, senders, n_fields))"

subsection \<open>What passes\<close>

text \<open>A line that begins a field: a name of printable characters, blanks, a colon.\<close>

definition line_name :: "octets \<Rightarrow> octets" where
  "line_name l = rev (dropWhile wsp (rev (takeWhile (\<lambda>b. b \<noteq> 58) (unterminated l))))"

definition field_line :: "octets \<Rightarrow> bool" where
  "field_line l \<longleftrightarrow> 58 \<in> set (unterminated l) \<and> line_name l \<noteq> [] \<and> list_all is_field_name_byte (line_name l)"

definition sender_line :: "octets \<Rightarrow> bool" where
  "sender_line l \<longleftrightarrow> field_line l \<and> list_all2 oct_eq_ignore_case (line_name l) (map of_char ''sender'')"

definition fold_line :: "octets \<Rightarrow> bool" where
  "fold_line l \<longleftrightarrow> unterminated l \<noteq> [] \<and> wsp (hd (unterminated l))"

definition style_octets :: "line_end_style \<Rightarrow> octets" where
  "style_octets s = (case s of Crlf \<Rightarrow> [13, 10] | Lf \<Rightarrow> [10])"

fun lines_ok :: "octets list \<Rightarrow> bool" where
  "lines_ok [] = True"
| "lines_ok (l # ls) = (l \<noteq> [] \<and> (last l = 10 \<or> ls = [] \<and> 10 \<notin> set l) \<and> lines_ok ls)"

lemma lf_lines_ok: "lines_ok (lf_lines d)"
  by (induction d) (auto split: list.splits)

lemma split_once_eq:
  "split_once c xs = (if c \<in> set xs then Some (takeWhile (\<lambda>b. b \<noteq> c) xs, tl (dropWhile (\<lambda>b. b \<noteq> c) xs)) else None)"
  by (induction xs) auto

lemma check_header_line_Inr:
  assumes "check_header_line (unterminated l) (has, n, m) = Inr (has', n', m')" "unterminated l \<noteq> []"
  shows "(fold_line l \<and> \<not> field_line l \<and> has \<and> has' \<and> n' = n \<and> m' = m)
    \<or> (field_line l \<and> \<not> fold_line l \<and> has' \<and> n' = n + 1 \<and> m' = m + (if sender_line l then 1 else 0))"
proof (cases "fold_line l")
  case fold: True
  then obtain c cs where u: "unterminated l = c # cs" "wsp c" by (cases "unterminated l") (auto simp: fold_line_def)
  have "\<not> field_line l"
  proof
    assume f: "field_line l"
    have c: "c \<noteq> 58" using u(2) by (auto simp: wsp_def)
    have "line_name l = [] \<or> hd (line_name l) = c"
    proof (cases "\<forall>x\<in>set (takeWhile (\<lambda>b. b \<noteq> 58) (unterminated l)). wsp x")
      case False
      then have "rev (dropWhile wsp (rev (c # takeWhile (\<lambda>b. b \<noteq> 58) cs))) = c # rev (dropWhile wsp (rev (takeWhile (\<lambda>b. b \<noteq> 58) cs)))"
        using u c by (subst rev.simps) (auto simp: dropWhile_append)
      then show ?thesis using u c by (simp add: line_name_def)
    qed (simp add: line_name_def dropWhile_eq_Nil_conv)
    then have "is_field_name_byte c"
      using f by (cases "line_name l") (auto simp: field_line_def)
    then show False using u(2) by (auto simp: is_field_name_byte_def wsp_def)
  qed
  then show ?thesis
    using assms fold by (auto simp: check_header_line_def fold_line_def split: if_splits)
next
  case False
  then show ?thesis
    using assms
    by (auto simp: check_header_line_def fold_line_def split_once_eq Let_def field_line_def line_name_def sender_line_def
        split: if_splits)
qed

lemma unterminated_cases:
  "l \<noteq> [] \<Longrightarrow> last l = 10 \<Longrightarrow> unterminated l =
     (if butlast l \<noteq> [] \<and> last (butlast l) = 13 then butlast (butlast l) else butlast l)"
  "last l \<noteq> 10 \<Longrightarrow> 13 \<notin> set l \<Longrightarrow> unterminated l = l"
  by (auto simp: unterminated_def strip_last_def dest: last_in_set)

definition line_style :: "octets \<Rightarrow> line_end_style" where
  "line_style l = (if butlast l \<noteq> [] \<and> last (butlast l) = 13 then Crlf else Lf)"

lemma check_header_lines_step:
  "l \<noteq> [] \<Longrightarrow> last l = 10 \<Longrightarrow> check_header_lines known st (l # ls) =
     (if 13 \<in> set (unterminated l) then Inl AmbiguousHeaderFraming
      else if known \<noteq> None \<and> known \<noteq> Some (line_style l) then Inl AmbiguousHeaderFraming
      else if unterminated l = [] then Inr st
      else case check_header_line (unterminated l) st of
        Inl e \<Rightarrow> Inl e | Inr st \<Rightarrow> check_header_lines (Some (line_style l)) st ls)"
  by (cases "butlast l \<noteq> [] \<and> last (butlast l) = 13")
    (simp_all only: check_header_lines.simps Let_def unterminated_cases(1) line_style_def simp_thms if_True if_False
      line_end_style.distinct)

definition passed_line :: "line_end_style \<Rightarrow> octets \<Rightarrow> bool" where
  "passed_line style l \<longleftrightarrow> 13 \<notin> set (unterminated l) \<and> (field_line l \<or> fold_line l)
     \<and> (l = unterminated l @ style_octets style \<or> 10 \<notin> set l)"

abbreviation before_blank :: "octets list \<Rightarrow> octets list" where
  "before_blank \<equiv> takeWhile (\<lambda>l. unterminated l \<noteq> [])"

lemma terminated:
  assumes "l \<noteq> []" "last l = 10"
  shows "l = unterminated l @ style_octets (line_style l)"
proof -
  obtain ys where l: "l = ys @ [10]" using assms by (metis append_butlast_last_id)
  show ?thesis
    unfolding l by (cases ys rule: rev_cases) (simp_all add: unterminated_def strip_last_def style_octets_def line_style_def butlast_append)
qed

lemma check_header_lines_Inr:
  "check_header_lines known (has, n, m) ls = Inr (has', n', m') \<Longrightarrow> lines_ok ls \<Longrightarrow>
   \<exists>style. (known \<noteq> None \<longrightarrow> known = Some style) \<and> (\<forall>l\<in>set (before_blank ls). passed_line style l)
     \<and> (has \<or> before_blank ls = [] \<or> field_line (hd (before_blank ls)))
     \<and> n' = n + length (filter field_line (before_blank ls)) \<and> m' = m + length (filter sender_line (before_blank ls))"
proof (induction ls arbitrary: known has n m)
  case (Cons l ls)
  show ?case
  proof (cases "last l = 10")
    case False
    then have no: "13 \<notin> set l" "check_header_line l (has, n, m) = Inr (has', n', m')" "ls = []" "l \<noteq> []" "10 \<notin> set l"
      using Cons.prems by (auto split: if_splits)
    then have u: "unterminated l = l" using False by (simp add: unterminated_cases)
    have "(fold_line l \<and> \<not> field_line l \<and> has \<and> has' \<and> n' = n \<and> m' = m)
      \<or> (field_line l \<and> \<not> fold_line l \<and> has' \<and> n' = n + 1 \<and> m' = m + (if sender_line l then 1 else 0))"
      using check_header_line_Inr [of l has n m has' n' m'] no u by simp
    then show ?thesis
      using no u by (intro exI [of _ "if known = None then Lf else the known"]) (auto simp: passed_line_def sender_line_def)
  next
    case True
    define style where "style = line_style l"
    have l: "l \<noteq> []" "lines_ok ls" using Cons.prems by auto
    have step: "13 \<notin> set (unterminated l)" "known = None \<or> known = Some style"
      "if unterminated l = [] then (has, n, m) = (has', n', m')
       else \<exists>st. check_header_line (unterminated l) (has, n, m) = Inr st \<and> check_header_lines (Some style) st ls = Inr (has', n', m')"
      using Cons.prems(1) unfolding check_header_lines_step [OF l(1) True] style_def
      by (auto split: if_splits sum.splits)
    show ?thesis
    proof (cases "unterminated l = []")
      case True
      then show ?thesis using step by (intro exI [of _ style]) auto
    next
      case False
      then obtain has1 n1 m1 where one: "check_header_line (unterminated l) (has, n, m) = Inr (has1, n1, m1)"
        and rest: "check_header_lines (Some style) (has1, n1, m1) ls = Inr (has', n', m')"
        using step(3) by (metis prod_cases3)
      note first = check_header_line_Inr [OF one False]
      have "passed_line style l"
        using first step(1) terminated [OF l(1) True] by (auto simp: passed_line_def style_def)
      moreover have "has1" using first by blast
      ultimately show ?thesis
        using Cons.IH [OF rest l(2)] step(2) first False
        by (intro exI [of _ style]) (auto simp: sender_line_def)
    qed
  qed
qed auto

text \<open>C35: A submission that passes the header check has one reading: every line before the first blank one is
  a field with a printable name or the continuation of one, the first is a field, no carriage return stands
  alone, all line ends are of one kind, there are at most 9900 fields, and the second header reader counts the
  same \<^verbatim>\<open>From\<close> fields, \<^verbatim>\<open>Sender\<close> fields and fields in all.\<close>

theorem accepted_header_unambiguous:
  assumes "reject_ambiguous_headers reader d = Inr ()"
  shows "(\<exists>style. \<forall>l\<in>set (block_lines d). passed_line style l)
    \<and> (block_lines d \<noteq> [] \<longrightarrow> field_line (hd (block_lines d)))
    \<and> length (filter field_line (block_lines d)) \<le> MAX_HEADER_FIELDS
    \<and> (\<exists>froms. from_fields d = Some froms
         \<and> reader d = (length froms, length (filter sender_line (block_lines d)), length (filter field_line (block_lines d))))"
proof -
  obtain has n m froms where "check_header_lines None (False, 0, 0) (lf_lines d) = Inr (has, n, m)"
    "n \<le> MAX_HEADER_FIELDS" "from_fields d = Some froms" "reader d = (length froms, m, n)"
    using assms
    by (auto simp: reject_ambiguous_headers_def compare_header_readers_def split: sum.splits option.splits if_splits prod.splits)
  then show ?thesis
    using check_header_lines_Inr [of None False 0 0 "lf_lines d" has n m] lf_lines_ok [of d]
    by (auto simp: block_lines_def)
qed

theorem accepted_header_unambiguous_witness:
  "reject_ambiguous_headers (\<lambda>_. (1, 0, 1)) demo_from = Inr ()
   \<and> length (filter field_line (block_lines demo_from)) = 1"
proof -
  have "reject_ambiguous_headers (\<lambda>_. (1, 0, 1)) demo_from = Inr ()"
    by (simp add: reject_ambiguous_headers_def author_eval demo_from_def utf8_eval eq_ignore_case_def ascii_lower_def
        to_lower_def is_upper_def lit_def check_header_line_def wsp_def is_field_name_byte_def compare_header_readers_def
        MAX_HEADER_FIELDS_def oct_eq_ignore_case_def Let_def)
  then show ?thesis
    using accepted_header_unambiguous [of "\<lambda>_. (1, 0, 1)" demo_from] by auto
qed

end
