(* ===== verification/Dmarc.thy ===== *)
theory Dmarc
  imports Spf Dmarc_Author
begin

section \<open>DMARC\<close>

text \<open>
  The policy record of \<^verbatim>\<open>src/src/dmarc/record/mod.rs\<close> and its evaluation in \<^verbatim>\<open>src/src/dmarc/evaluate/mod.rs\<close>, with the
  result type of \<^verbatim>\<open>src/src/dkim/verify/mod.rs\<close> that the evaluation reads. The public suffix list of the \<^verbatim>\<open>psl\<close>
  crate is the parameter \<open>psl\<close>: the registrable domain it finds, if any; the resolver is the record of \<^verbatim>\<open>Spf\<close>.
\<close>

subsection \<open>The record\<close>

datatype policy = PolicyNone | PolicyQuarantine | PolicyReject

datatype alignment = Relaxed | Strict

record dmarc_record =
  dr_policy :: policy
  dr_subdomain_policy :: policy
  dr_dkim_alignment :: alignment
  dr_spf_alignment :: alignment
  dr_pct :: nat
  dr_rua :: "rstr list"

definition parse_policy :: "rstr \<Rightarrow> policy option" where
  "parse_policy v =
     (let v = ascii_lower v
      in if v = lit ''none'' then Some PolicyNone
         else if v = lit ''quarantine'' then Some PolicyQuarantine
         else if v = lit ''reject'' then Some PolicyReject else None)"

definition parse_alignment :: "rstr \<Rightarrow> alignment option" where
  "parse_alignment v =
     (let v = ascii_lower v
      in if v = lit ''r'' then Some Relaxed else if v = lit ''s'' then Some Strict else None)"

definition parse_duri :: "rstr \<Rightarrow> rstr option" where
  "parse_duri uri =
     (let uri = trim uri
      in if uri = [] then None
         else let uri = (case rsplit_once 33 uri of Some (before, _) \<Rightarrow> trim_end before | None \<Rightarrow> uri)
              in if uri = [] then None else Some (ascii_lower uri))"

definition parse_duri_list :: "rstr \<Rightarrow> rstr list" where
  "parse_duri_list v = List.map_filter parse_duri (split_on 44 v)"

text \<open>The tags read so far; the policy is missing until its tag is met.\<close>

record dmarc_tags =
  dt_policy :: "policy option"
  dt_subdomain_policy :: "policy option"
  dt_dkim_alignment :: alignment
  dt_spf_alignment :: alignment
  dt_pct :: nat
  dt_rua :: "rstr list"

definition apply_tag :: "rstr \<Rightarrow> rstr \<Rightarrow> dmarc_tags \<Rightarrow> dmarc_tags option" where
  "apply_tag name v t =
     (if name = lit ''p'' then map_option (\<lambda>p. t\<lparr>dt_policy := Some p\<rparr>) (parse_policy v)
      else if name = lit ''sp'' then map_option (\<lambda>p. t\<lparr>dt_subdomain_policy := Some p\<rparr>) (parse_policy v)
      else if name = lit ''adkim'' then map_option (\<lambda>a. t\<lparr>dt_dkim_alignment := a\<rparr>) (parse_alignment v)
      else if name = lit ''aspf'' then map_option (\<lambda>a. t\<lparr>dt_spf_alignment := a\<rparr>) (parse_alignment v)
      else if name = lit ''pct'' then map_option (\<lambda>n. t\<lparr>dt_pct := min n 100\<rparr>) (parse_uint u8_max v)
      else if name = lit ''rua'' then Some (t\<lparr>dt_rua := parse_duri_list v\<rparr>)
      else Some t)"

fun apply_tags :: "rstr list \<Rightarrow> dmarc_tags \<Rightarrow> dmarc_tags option" where
  "apply_tags [] t = Some t"
| "apply_tags (tag # tags) t =
     (if tag = [] then apply_tags tags t
      else case split_once 61 tag of
        None \<Rightarrow> None
      | Some (name, v) \<Rightarrow>
          (case apply_tag (trim name) (trim v) t of None \<Rightarrow> None | Some t \<Rightarrow> apply_tags tags t))"

definition dmarc_tags_default :: dmarc_tags where
  "dmarc_tags_default = \<lparr>dt_policy = None, dt_subdomain_policy = None, dt_dkim_alignment = Relaxed,
     dt_spf_alignment = Relaxed, dt_pct = 100, dt_rua = []\<rparr>"

text \<open>\<open>None\<close> when the text is no DMARC record at all, \<open>Some None\<close> when it is a malformed one.\<close>

definition dmarc_parse :: "rstr \<Rightarrow> dmarc_record option option" where
  "dmarc_parse txt =
     (case map trim (split_on 59 txt) of
        [] \<Rightarrow> None
      | version # tags \<Rightarrow>
          if version \<noteq> lit ''v=DMARC1'' then None
          else Some (case apply_tags tags dmarc_tags_default of
              None \<Rightarrow> None
            | Some t \<Rightarrow>
                (case dt_policy t of
                   None \<Rightarrow> None
                 | Some p \<Rightarrow>
                     Some \<lparr>dr_policy = p,
                           dr_subdomain_policy = (case dt_subdomain_policy t of None \<Rightarrow> p | Some sp \<Rightarrow> sp),
                           dr_dkim_alignment = dt_dkim_alignment t, dr_spf_alignment = dt_spf_alignment t,
                           dr_pct = dt_pct t, dr_rua = dt_rua t\<rparr>)))"

subsection \<open>The evaluation\<close>

datatype dkim_outcome = DkimPass | DkimFail | DkimPermError | DkimTempError | DkimNone

record dkim_result =
  dk_outcome :: dkim_outcome
  dk_domain :: "rstr option"

fun dkim_str :: "dkim_outcome \<Rightarrow> rstr" where
  "dkim_str DkimPass = lit ''pass''"
| "dkim_str DkimFail = lit ''fail''"
| "dkim_str DkimPermError = lit ''permerror''"
| "dkim_str DkimTempError = lit ''temperror''"
| "dkim_str DkimNone = lit ''none''"

datatype dmarc_outcome = DmarcPass | DmarcReject | DmarcFail | DmarcNone | DmarcTempError | DmarcPermError

fun dmarc_str :: "dmarc_outcome \<Rightarrow> rstr" where
  "dmarc_str DmarcPass = lit ''pass''"
| "dmarc_str DmarcReject = lit ''fail''"
| "dmarc_str DmarcFail = lit ''fail''"
| "dmarc_str DmarcNone = lit ''none''"
| "dmarc_str DmarcTempError = lit ''temperror''"
| "dmarc_str DmarcPermError = lit ''permerror''"

definition from_domain :: "(octets \<Rightarrow> rstr list) \<Rightarrow> octets \<Rightarrow> rstr option" where
  "from_domain mailboxes raw = (case author_domain mailboxes raw of OneAuthorDomain d \<Rightarrow> Some d | _ \<Rightarrow> None)"

definition organizational_domain :: "(rstr \<Rightarrow> rstr option) \<Rightarrow> rstr \<Rightarrow> rstr" where
  "organizational_domain psl domain = (case psl domain of
       Some d \<Rightarrow> ascii_lower d
     | None \<Rightarrow>
         let labels = split_on 46 domain
         in if length labels \<le> 2 then domain else join_with (lit ''.'') (drop (length labels - 2) labels))"

definition aligned :: "(rstr \<Rightarrow> rstr option) \<Rightarrow> alignment \<Rightarrow> rstr \<Rightarrow> rstr \<Rightarrow> bool" where
  "aligned psl align_mode identifier domain =
     (let identifier = ascii_lower identifier; domain = ascii_lower domain
      in case align_mode of
           Strict \<Rightarrow> identifier = domain
         | Relaxed \<Rightarrow> organizational_domain psl identifier = organizational_domain psl domain)"

definition dmarc_lookup :: "dns \<Rightarrow> rstr \<Rightarrow> dmarc_outcome + dmarc_record option" where
  "dmarc_lookup D domain = (case dns_txt D (lit ''_dmarc.'' @ domain) of
       None \<Rightarrow> Inl DmarcTempError
     | Some texts \<Rightarrow>
         (case List.map_filter dmarc_parse texts of
            [] \<Rightarrow> Inr None
          | [None] \<Rightarrow> Inl DmarcPermError
          | [Some r] \<Rightarrow> Inr (Some r)
          | _ \<Rightarrow> Inr None))"

definition dmarc_fetch :: "dns \<Rightarrow> (rstr \<Rightarrow> rstr option) \<Rightarrow> rstr \<Rightarrow> dmarc_outcome + (dmarc_record \<times> policy) option" where
  "dmarc_fetch D psl domain = (case dmarc_lookup D domain of
       Inl e \<Rightarrow> Inl e
     | Inr (Some r) \<Rightarrow> Inr (Some (r, dr_policy r))
     | Inr None \<Rightarrow>
         let organizational = organizational_domain psl domain
         in if organizational = domain then Inr None
            else case dmarc_lookup D organizational of
              Inl e \<Rightarrow> Inl e
            | Inr (Some r) \<Rightarrow> Inr (Some (r, dr_subdomain_policy r))
            | Inr None \<Rightarrow> Inr None)"

definition dkim_aligned :: "(rstr \<Rightarrow> rstr option) \<Rightarrow> dmarc_record \<Rightarrow> rstr \<Rightarrow> dkim_result list \<Rightarrow> bool" where
  "dkim_aligned psl r domain dkim =
     list_ex (\<lambda>k. dk_outcome k = DkimPass
       \<and> (case dk_domain k of None \<Rightarrow> False | Some d \<Rightarrow> aligned psl (dr_dkim_alignment r) d domain)) dkim"

definition spf_aligned :: "(rstr \<Rightarrow> rstr option) \<Rightarrow> dmarc_record \<Rightarrow> rstr \<Rightarrow> spf_outcome \<times> rstr option \<Rightarrow> bool" where
  "spf_aligned psl r domain spf \<longleftrightarrow>
     fst spf = SpfPass \<and> (case snd spf of None \<Rightarrow> False | Some d \<Rightarrow> aligned psl (dr_spf_alignment r) d domain)"

definition evaluate_inner :: "dns \<Rightarrow> (rstr \<Rightarrow> rstr option) \<Rightarrow> rstr \<Rightarrow> spf_outcome \<times> rstr option \<Rightarrow> dkim_result list
    \<Rightarrow> nat \<Rightarrow> dmarc_outcome" where
  "evaluate_inner D psl domain spf dkim pct_roll = (case dmarc_fetch D psl domain of
       Inl e \<Rightarrow> e
     | Inr None \<Rightarrow> DmarcNone
     | Inr (Some (r, applied)) \<Rightarrow>
         if dkim_aligned psl r domain dkim \<or> spf_aligned psl r domain spf then DmarcPass
         else if applied = PolicyNone then DmarcFail
         else if dr_pct r < 100 \<and> pct_roll > dr_pct r then DmarcFail else DmarcReject)"

text \<open>The random octet of the sampling is an argument.\<close>

definition sample_pct :: "nat \<Rightarrow> nat" where
  "sample_pct b = b mod 100 + 1"

definition dmarc_evaluate :: "dns \<Rightarrow> (rstr \<Rightarrow> rstr option) \<Rightarrow> nat \<Rightarrow> rstr \<Rightarrow> spf_outcome \<times> rstr option \<Rightarrow> dkim_result list
    \<Rightarrow> dmarc_outcome" where
  "dmarc_evaluate D psl b domain spf dkim = evaluate_inner D psl domain spf dkim (sample_pct b)"

subsection \<open>What a verdict needs\<close>

definition published_dmarc :: "dns \<Rightarrow> rstr \<Rightarrow> dmarc_record \<Rightarrow> bool" where
  "published_dmarc D name r \<longleftrightarrow>
     (\<exists>texts. dns_txt D (lit ''_dmarc.'' @ name) = Some texts \<and> List.map_filter dmarc_parse texts = [Some r])"

lemma dmarc_lookup_Some: "dmarc_lookup D name = Inr (Some r) \<longleftrightarrow> published_dmarc D name r"
  by (auto simp: dmarc_lookup_def published_dmarc_def split: option.splits list.splits)

lemma apply_tags_pct: "apply_tags tags t = Some t' \<Longrightarrow> dt_pct t \<le> 100 \<Longrightarrow> dt_pct t' \<le> 100"
proof (induction tags arbitrary: t)
  case (Cons tag tags)
  have "dt_pct u \<le> 100" if "apply_tag name v t = Some u" for name v u
    using that Cons.prems(2) by (auto simp: apply_tag_def split: if_splits)
  then show ?case
    using Cons by (auto split: if_splits option.splits)
qed simp

lemma published_pct: "published_dmarc D name r \<Longrightarrow> dr_pct r \<le> 100"
proof -
  assume "published_dmarc D name r"
  then obtain texts where "List.map_filter dmarc_parse texts = [Some r]" by (auto simp: published_dmarc_def)
  then have "Some r \<in> set (List.map_filter dmarc_parse texts)" by simp
  then obtain t where "dmarc_parse t = Some (Some r)"
    by (auto simp: List.map_filter_def)
  then show ?thesis
    by (auto simp: dmarc_parse_def dmarc_tags_default_def split: list.splits if_splits option.splits dest: apply_tags_pct)
qed

definition applies :: "dns \<Rightarrow> (rstr \<Rightarrow> rstr option) \<Rightarrow> rstr \<Rightarrow> dmarc_record \<Rightarrow> policy \<Rightarrow> bool" where
  "applies D psl domain r p \<longleftrightarrow>
     published_dmarc D domain r \<and> p = dr_policy r
     \<or> organizational_domain psl domain \<noteq> domain \<and> published_dmarc D (organizational_domain psl domain) r
       \<and> p = dr_subdomain_policy r \<and> (\<nexists>r'. published_dmarc D domain r')"

lemma dmarc_fetch_applies: "dmarc_fetch D psl domain = Inr (Some (r, p)) \<Longrightarrow> applies D psl domain r p"
  by (auto simp: dmarc_fetch_def applies_def Let_def dmarc_lookup_Some [symmetric] split: sum.splits option.splits if_splits)

lemma lookup_not_error: "dmarc_lookup D name \<noteq> Inl DmarcPass" "dmarc_lookup D name \<noteq> Inl DmarcReject"
  by (auto simp: dmarc_lookup_def split: option.splits list.splits)

lemma fetch_not_verdict: "dmarc_fetch D psl domain \<noteq> Inl DmarcPass" "dmarc_fetch D psl domain \<noteq> Inl DmarcReject"
  using lookup_not_error by (auto simp: dmarc_fetch_def Let_def split: sum.splits option.splits if_splits)

text \<open>C36: DMARC passes a message only under a record published alone at the author domain or, when that
  publishes none, at its organizational domain, and only on a DKIM signature that verified or an SPF pass whose
  domain is aligned the way the record asks. It rejects only under such a record whose policy (the
  subdomain policy when the record is the organizational one) asks for it, when neither is aligned, and when
  the message falls within the record's percentage.\<close>

theorem dmarc_verdicts:
  "(dmarc_evaluate D psl b domain spf dkim = DmarcPass \<longrightarrow>
      (\<exists>r p. applies D psl domain r p
        \<and> ((\<exists>k\<in>set dkim. \<exists>d. dk_outcome k = DkimPass \<and> dk_domain k = Some d \<and> aligned psl (dr_dkim_alignment r) d domain)
           \<or> (\<exists>d. spf = (SpfPass, Some d) \<and> aligned psl (dr_spf_alignment r) d domain))))
   \<and> (dmarc_evaluate D psl b domain spf dkim = DmarcReject \<longrightarrow>
      (\<exists>r p. applies D psl domain r p \<and> p \<noteq> PolicyNone \<and> sample_pct b \<le> dr_pct r
        \<and> \<not> (\<exists>k\<in>set dkim. \<exists>d. dk_outcome k = DkimPass \<and> dk_domain k = Some d \<and> aligned psl (dr_dkim_alignment r) d domain)
        \<and> \<not> (\<exists>d. spf = (SpfPass, Some d) \<and> aligned psl (dr_spf_alignment r) d domain)))"
proof (cases "dmarc_fetch D psl domain")
  case (Inl e)
  then show ?thesis
    using fetch_not_verdict [of D psl domain] by (auto simp: dmarc_evaluate_def evaluate_inner_def)
next
  case (Inr found)
  show ?thesis
  proof (cases found)
    case None
    with Inr show ?thesis by (simp add: dmarc_evaluate_def evaluate_inner_def)
  next
    case (Some rp)
    obtain r p where rp: "rp = (r, p)" by (cases rp)
    with Inr Some have fetch: "dmarc_fetch D psl domain = Inr (Some (r, p))" by simp
    note ap = dmarc_fetch_applies [OF fetch]
    then have pct: "dr_pct r \<le> 100" by (auto simp: applies_def dest: published_pct)
    have roll: "sample_pct b \<le> dr_pct r" if "\<not> (dr_pct r < 100 \<and> sample_pct b > dr_pct r)"
      using that pct mod_less_divisor [of 100 b] by (auto simp: sample_pct_def)
    have dk: "dkim_aligned psl r domain dkim \<longleftrightarrow>
        (\<exists>k\<in>set dkim. \<exists>d. dk_outcome k = DkimPass \<and> dk_domain k = Some d \<and> aligned psl (dr_dkim_alignment r) d domain)"
      by (auto simp: dkim_aligned_def list_ex_iff split: option.splits)
    have sp: "spf_aligned psl r domain spf \<longleftrightarrow> (\<exists>d. spf = (SpfPass, Some d) \<and> aligned psl (dr_spf_alignment r) d domain)"
      by (cases spf) (auto simp: spf_aligned_def split: option.splits)
    have ev: "dmarc_evaluate D psl b domain spf dkim =
        (if dkim_aligned psl r domain dkim \<or> spf_aligned psl r domain spf then DmarcPass
         else if p = PolicyNone then DmarcFail
         else if dr_pct r < 100 \<and> sample_pct b > dr_pct r then DmarcFail else DmarcReject)"
      by (simp add: dmarc_evaluate_def evaluate_inner_def fetch)
    show ?thesis
      by (intro conjI impI exI [of _ r] exI [of _ p] ap; (use ev dk sp roll in \<open>auto split: if_splits\<close>)?)
  qed
qed

definition demo_dmarc :: dns where
  "demo_dmarc = \<lparr>dns_txt = (\<lambda>n. Some (if n = lit ''_dmarc.b.org'' then [lit ''v=DMARC1; p=reject; pct=50''] else [])),
     dns_mx = (\<lambda>_. Some []), dns_addresses = (\<lambda>_. Some [])\<rparr>"

definition demo_record :: dmarc_record where
  "demo_record = \<lparr>dr_policy = PolicyReject, dr_subdomain_policy = PolicyReject, dr_dkim_alignment = Relaxed,
     dr_spf_alignment = Relaxed, dr_pct = 50, dr_rua = []\<rparr>"

lemma demo_record_parsed: "dmarc_parse (lit ''v=DMARC1; p=reject; pct=50'') = Some (Some demo_record)"
  by (simp add: dmarc_parse_def split_on_def lit_def trim_def trim_start_def trim_end_def is_whitespace_def
      dmarc_tags_default_def apply_tag_def parse_policy_def ascii_lower_def to_lower_def is_upper_def parse_uint_def
      is_digit_def digits_value_def u8_max_def demo_record_def)

lemma demo_fetch: "dmarc_fetch demo_dmarc (\<lambda>_. None) (lit ''b.org'') = Inr (Some (demo_record, PolicyReject))"
  using demo_record_parsed
  by (simp add: dmarc_fetch_def dmarc_lookup_def demo_dmarc_def lit_def List.map_filter_def demo_record_def)

lemma demo_aligned: "aligned (\<lambda>_. None) Relaxed (lit ''mail.B.org'') (lit ''b.org'')"
  by (simp add: aligned_def organizational_domain_def lit_def ascii_lower_def to_lower_def is_upper_def split_on_def)

theorem dmarc_verdicts_witness:
  "dmarc_evaluate demo_dmarc (\<lambda>_. None) 7 (lit ''b.org'') (SpfPass, Some (lit ''mail.B.org'')) [] = DmarcPass
   \<and> (\<exists>r p. applies demo_dmarc (\<lambda>_. None) (lit ''b.org'') r p)"
proof -
  have "dmarc_evaluate demo_dmarc (\<lambda>_. None) 7 (lit ''b.org'') (SpfPass, Some (lit ''mail.B.org'')) [] = DmarcPass"
    using demo_aligned
    by (simp add: dmarc_evaluate_def evaluate_inner_def demo_fetch spf_aligned_def demo_record_def)
  then show ?thesis
    using dmarc_verdicts [of demo_dmarc "\<lambda>_. None" 7 "lit ''b.org''" "(SpfPass, Some (lit ''mail.B.org''))" "[]"]
    by blast
qed

lemma sampled_octets: "p \<le> 100 \<Longrightarrow> card {b. b < (256 :: nat) \<and> b mod 100 < p} = 2 * p + min p 56"
proof -
  assume p: "p \<le> 100"
  have m: "b mod 100 = (if b < 100 then b else if b < 200 then b - 100 else b - 200)" if "b < 256" for b :: nat
    using that by (auto simp: mod_if)
  have "{b. b < 256 \<and> b mod 100 < p} = {0..<p} \<union> {100..<100 + p} \<union> {200..<200 + min p 56}"
    using p by (auto simp: m split: if_splits)
  moreover have "card ({0..<p} \<union> {100..<100 + p} \<union> {200..<200 + min p 56}) = p + p + min p 56"
    using p by (subst card_Un_disjoint; (subst card_Un_disjoint)?) auto
  ultimately show ?thesis by simp
qed

text \<open>C37: Of the 256 values of the random octet, a policy that applies to \<open>p\<close> percent of the failing messages
  rejects exactly \<open>2 p + min p 56\<close>: none at 0 and all at 100, but 150 of 256 at 50, since the octet is
  reduced modulo 100.\<close>

theorem dmarc_sampled_share:
  assumes "dmarc_fetch D psl domain = Inr (Some (r, p))" "p \<noteq> PolicyNone"
    "\<not> dkim_aligned psl r domain dkim" "\<not> spf_aligned psl r domain spf"
  shows "card {b. b < 256 \<and> dmarc_evaluate D psl b domain spf dkim = DmarcReject} = 2 * dr_pct r + min (dr_pct r) 56"
proof -
  have pct: "dr_pct r \<le> 100" using dmarc_fetch_applies [OF assms(1)] by (auto simp: applies_def dest: published_pct)
  have "dmarc_evaluate D psl b domain spf dkim = DmarcReject \<longleftrightarrow> b mod 100 < dr_pct r" for b
    using assms pct mod_less_divisor [of 100 b] by (auto simp: dmarc_evaluate_def evaluate_inner_def sample_pct_def)
  then show ?thesis using sampled_octets [OF pct] by simp
qed

theorem dmarc_sampled_share_witness:
  "card {b. b < 256 \<and> dmarc_evaluate demo_dmarc (\<lambda>_. None) b (lit ''b.org'') (SpfNone, None) [] = DmarcReject} = 150"
  using dmarc_sampled_share [OF demo_fetch, of "[]" "(SpfNone, None)"]
  by (simp add: dkim_aligned_def spf_aligned_def demo_record_def)

end
