(* ===== verification/Smtp_Session.thy ===== *)
theory Smtp_Session
  imports Smtp_Line Smtp_Command Memory_Budget Submission_Budget Auth_Gate Header_Check
begin

section \<open>The mail transaction of an SMTP session\<close>

text \<open>
  \<^verbatim>\<open>Session\<close> of \<^verbatim>\<open>src/src/smtp/session/\<close>: its state, the commands that carry a mail transaction
  (\<^verbatim>\<open>mod.rs\<close>), chunked data (\<^verbatim>\<open>bdat.rs\<close>) and the checks at the end of the data (\<^verbatim>\<open>finalise.rs\<close>,
  \<^verbatim>\<open>cap.rs\<close>, \<^verbatim>\<open>author.rs\<close>, \<^verbatim>\<open>transaction_policy.rs\<close>, and \<^verbatim>\<open>src/src/smtp/quota.rs\<close>). The session is
  threaded with the \<open>world\<close> it shares with other sessions: the memory budget, the limiters and the ban
  store. A claim on the memory budget is dropped where the code drops the state that holds it. What
  the handlers read from outside is the record \<open>senv\<close>: the clock, the disk, mailbox usage, the
  correspondent store, the header readers, the bounce builder and the crates.
\<close>

subsection \<open>Data\<close>

record accepted_message =
  am_reverse_path :: rstr
  am_recipients :: "rstr list"
  am_data :: octets
  am_require_tls :: bool
  am_mailbox :: "rstr option"
  am_tlsrpt_verified :: bool
  am_sender_verified :: bool
  am_no_dsn :: "rstr list"

datatype action =
  Continue reply
| CollectData reply
| CollectChunk nat bool
| DiscardChunk nat reply
| Deliver reply accepted_message
| UpgradeTls reply
| CollectAuthResponse reply
| Close reply

record receiving_data =
  rd_reverse_path :: rstr
  rd_recipients :: "rstr list"
  rd_no_dsn :: "rstr list"
  rd_size :: nat
  rd_body :: octets
  rd_require_tls :: bool
  rd_chunking :: bool
  rd_line_check :: line_check
  rd_reserved :: reservation
  rd_budget_exhausted :: bool

datatype state =
  Connected
| Greeted
| ReceivingRecipients rstr bool
| ReceivingData receiving_data

datatype scram_refusal = ScramBanned | ScramDenied "rstr option"

datatype pending_scram =
  ClientFirst channel_binding
| ClientFinal scram_server scram_credentials rstr directory "scram_refusal option"
| ServerFinal rstr directory

record transaction_policy =
  tp_submission_limiter :: bool
  tp_submission_default :: "nat option"
  tp_inbound_ip :: "nat option"
  tp_inbound_sender :: "nat option"
  tp_tenant_limits :: "tenant_limits option"
  tp_disk_guard :: bool
  tp_quota :: "nat option"
  tp_quota_reports :: "accepted_message list"
  tp_pending_charge :: "charge option"

record cap =
  cap_correspondents :: bool
  cap_daily_new_recipients :: "nat option"

record junk_count =
  jc_limit :: nat
  jc_junk :: nat
  jc_refused :: nat

record session =
  s_hostname :: rstr
  s_max_message_size :: nat
  s_max_recipients :: nat
  s_state :: state
  s_tls_available :: bool
  s_tls_active :: bool
  s_authenticated :: "rstr option"
  s_auth_label :: "rstr option"
  s_auth_failures :: nat
  s_helo_domain :: "rstr option"
  s_esmtp :: bool
  s_directory :: directory
  s_pending_scram :: "pending_scram option"
  s_pending_login :: "rstr option option"
  s_oauth :: "bool option"
  s_cbind_data :: "octets option"
  s_policy :: transaction_policy
  s_client_identity :: "rstr option"
  s_pending_external :: bool
  s_peer_ip :: "ipaddr option"
  s_cap :: cap
  s_auth_protocol :: protocol
  s_scram_enabled :: bool
  s_chunk_reservation :: reservation
  s_delivery_reservation :: reservation
  s_junk :: junk_count

record world =
  w_memory :: "memory_budget option"
  w_limiters :: limiter_store
  w_inbound_ip :: window_limiter
  w_inbound_sender :: window_limiter
  w_bans :: "ban_store option"

record senv =
  e_auth :: auth_env
  e_scram :: scram_ops
  e_decoy_salt :: "rstr \<Rightarrow> octets"
  e_clock :: auth_clock
  e_gate_full :: bool
  e_nonce :: "rstr option"
  e_now :: nat
  e_has_room :: "nat \<Rightarrow> bool"
  e_usage :: "rstr \<Rightarrow> nat"
  e_cap_limited :: "rstr \<Rightarrow> rstr list \<Rightarrow> nat option \<Rightarrow> bool"
  e_reader :: "octets \<Rightarrow> nat \<times> nat \<times> nat"
  e_mailboxes :: "octets \<Rightarrow> rstr list"
  e_bounce :: "rstr \<Rightarrow> rstr \<Rightarrow> rstr list \<Rightarrow> octets \<Rightarrow> accepted_message option"
  e_token :: "rstr \<Rightarrow> nat \<Rightarrow> directory \<Rightarrow> rstr option"

type_synonym outcome = "session \<times> world \<times> action"

subsection \<open>A fresh session\<close>

definition MAX_MESSAGE_SIZE :: nat where
  "MAX_MESSAGE_SIZE = 25 * 1024 * 1024"

definition DEFAULT_MAX_RECIPIENTS :: nat where
  "DEFAULT_MAX_RECIPIENTS = 100"

definition DEFAULT_JUNK_COMMAND_LIMIT :: nat where
  "DEFAULT_JUNK_COMMAND_LIMIT = 100"

definition junk_default :: junk_count where
  "junk_default = \<lparr>jc_limit = DEFAULT_JUNK_COMMAND_LIMIT, jc_junk = 0, jc_refused = 0\<rparr>"

definition cap_empty :: cap where
  "cap_empty = \<lparr>cap_correspondents = False, cap_daily_new_recipients = None\<rparr>"

definition policy_default :: transaction_policy where
  "policy_default = \<lparr>tp_submission_limiter = False, tp_submission_default = None, tp_inbound_ip = None,
     tp_inbound_sender = None, tp_tenant_limits = None, tp_disk_guard = False, tp_quota = None,
     tp_quota_reports = [], tp_pending_charge = None\<rparr>"

text \<open>\<^verbatim>\<open>Directory::default\<close> is a directory with every table empty.\<close>

definition session_new :: "unicode_ops \<Rightarrow> rstr \<Rightarrow> session" where
  "session_new U hostname =
     \<lparr>s_hostname = hostname, s_max_message_size = MAX_MESSAGE_SIZE,
      s_max_recipients = DEFAULT_MAX_RECIPIENTS, s_state = Connected, s_tls_available = False,
      s_tls_active = False, s_authenticated = None, s_auth_label = None, s_auth_failures = 0,
      s_helo_domain = None, s_esmtp = False,
      s_directory = (directory_new U [] [])\<lparr>d_subaddress_separators := []\<rparr>,
      s_pending_scram = None, s_pending_login = None, s_oauth = None, s_cbind_data = None,
      s_policy = policy_default, s_client_identity = None, s_pending_external = False,
      s_peer_ip = None, s_cap = cap_empty, s_auth_protocol = Submission, s_scram_enabled = True,
      s_chunk_reservation = res_none, s_delivery_reservation = res_none, s_junk = junk_default\<rparr>"

definition with_directory :: "directory \<Rightarrow> session \<Rightarrow> session" where
  "with_directory d s = s\<lparr>s_directory := d\<rparr>"

definition in_transaction :: "session \<Rightarrow> bool" where
  "in_transaction s = (case s_state s of
       ReceivingRecipients _ _ \<Rightarrow> True | ReceivingData _ \<Rightarrow> True | _ \<Rightarrow> False)"

subsection \<open>Replacing the state\<close>

definition release :: "reservation \<Rightarrow> world \<Rightarrow> world" where
  "release r w = w\<lparr>w_memory := map_option (res_drop r) (w_memory w)\<rparr>"

definition state_reserved :: "state \<Rightarrow> reservation" where
  "state_reserved st = (case st of ReceivingData t \<Rightarrow> rd_reserved t | _ \<Rightarrow> res_none)"

definition set_state :: "state \<Rightarrow> session \<Rightarrow> world \<Rightarrow> session \<times> world" where
  "set_state st s w = (s\<lparr>s_state := st\<rparr>, release (state_reserved (s_state s)) w)"

definition reset :: "session \<Rightarrow> world \<Rightarrow> session \<times> world" where
  "reset s w =
     (let w = release (s_chunk_reservation s) w; s = s\<lparr>s_chunk_reservation := res_none\<rparr>
      in if s_state s \<noteq> Connected then set_state Greeted s w else (s, w))"

definition take_delivery_reservation :: "session \<Rightarrow> session \<times> reservation" where
  "take_delivery_reservation s = (s\<lparr>s_delivery_reservation := res_none\<rparr>, s_delivery_reservation s)"

definition tls_started :: "session \<Rightarrow> world \<Rightarrow> session \<times> world" where
  "tls_started s w =
     (let (s, w) = set_state Connected s w
      in (s\<lparr>s_tls_available := False, s_tls_active := True, s_helo_domain := None, s_esmtp := False\<rparr>, w))"

definition greeting :: "session \<Rightarrow> reply" where
  "greeting s = reply_single 220 (s_hostname s @ lit '' ESMTP ready'')"

subsection \<open>Greeting and TLS\<close>

definition auth_capability :: "session \<Rightarrow> rstr" where
  "auth_capability s =
     lit ''AUTH'' @ concat (map (\<lambda>m. 32 # mechanism_name m)
       (sasl_available (s_client_identity s \<noteq> None) (s_cbind_data s \<noteq> None) (s_scram_enabled s)
          (s_oauth s \<noteq> None)))"

definition ehlo_lines :: "session \<Rightarrow> rstr list" where
  "ehlo_lines s =
     [s_hostname s, lit ''PIPELINING'', lit ''ENHANCEDSTATUSCODES'', lit ''8BITMIME'', lit ''SMTPUTF8'',
      lit ''CHUNKING'', lit ''DSN'', lit ''SIZE '' @ show_nat (s_max_message_size s),
      lit ''LIMITS RCPTMAX='' @ show_nat (s_max_recipients s)]
     @ (if s_tls_available s then [lit ''STARTTLS''] else [])
     @ (if s_tls_active s \<and> s_authenticated s = None then [auth_capability s] else [])
     @ (if s_tls_active s then [lit ''REQUIRETLS''] else [])"

definition greet :: "rstr \<Rightarrow> bool \<Rightarrow> session \<Rightarrow> world \<Rightarrow> outcome" where
  "greet domain esmtp s w =
     (let (s, w) = set_state Greeted s w;
          s = s\<lparr>s_helo_domain := Some domain, s_esmtp := esmtp\<rparr>
      in (s, w, Continue (if esmtp then reply_new 250 (ehlo_lines s)
                          else reply_single 250 (s_hostname s))))"

definition start_tls :: "session \<Rightarrow> world \<Rightarrow> outcome" where
  "start_tls s w =
     (s, w,
      if \<not> s_tls_available s then Continue (reply_single 454 (lit ''4.7.0 TLS not available''))
      else if s_state s = Greeted then UpgradeTls (reply_single 220 (lit ''ready to start TLS''))
      else Continue bad_sequence)"

subsection \<open>Policy\<close>

definition submission_budget :: "transaction_policy \<Rightarrow> rstr \<Rightarrow> directory \<Rightarrow> limit list" where
  "submission_budget p account d =
     for_account account
       (if tp_submission_limiter p
        then (case submission_limit_for d account of Some n \<Rightarrow> Some n | None \<Rightarrow> tp_submission_default p)
        else None)
       (tp_tenant_limits p) (addresses_for d account)"

definition RATE_LIMITED :: rstr where
  "RATE_LIMITED = lit ''sending rate limit exceeded; retry later''"

definition rate_limited :: reply where
  "rate_limited = reply_single 450 (lit ''4.7.1 '' @ RATE_LIMITED)"

definition check_inbound :: "transaction_policy \<Rightarrow> rstr \<Rightarrow> ipaddr option \<Rightarrow> nat \<Rightarrow> world
    \<Rightarrow> world \<times> reply option" where
  "check_inbound p rpath peer_ip now w =
     (let (w1, ip_ok) = (case (tp_inbound_ip p, peer_ip) of
            (Some per_min, Some ip) \<Rightarrow>
              let (l, ok) = wl_check (show_ip ip) per_min now (w_inbound_ip w)
              in (w\<lparr>w_inbound_ip := l\<rparr>, ok)
          | _ \<Rightarrow> (w, True))
      in if \<not> ip_ok
         then (w1, Some (reply_single 450 (lit ''4.7.1 too many messages from this client; retry later'')))
         else case tp_inbound_sender p of
           None \<Rightarrow> (w1, None)
         | Some per_min \<Rightarrow>
             if rpath = [] then (w1, None)
             else let (l, ok) = wl_check (ascii_lower rpath) per_min now (w_inbound_sender w1);
                      w2 = w1\<lparr>w_inbound_sender := l\<rparr>
               in if ok then (w2, None)
                  else (w2, Some (reply_single 450
                         (lit ''4.7.1 too many messages from this sender; retry later''))))"

definition spool_has_room :: "senv \<Rightarrow> transaction_policy \<Rightarrow> nat \<Rightarrow> bool" where
  "spool_has_room e p sz = (\<not> tp_disk_guard p \<or> e_has_room e sz)"

definition quota_limit_for :: "directory \<Rightarrow> rstr \<Rightarrow> nat \<Rightarrow> nat option" where
  "quota_limit_for d account default_bytes =
     (let bytes = (case quota_for d account of Some b \<Rightarrow> b | None \<Rightarrow> default_bytes)
      in if bytes = 0 then None else Some bytes)"

definition quota_is_full :: "senv \<Rightarrow> directory \<Rightarrow> nat \<Rightarrow> rstr \<Rightarrow> bool" where
  "quota_is_full e d default_bytes account =
     (case quota_limit_for d account default_bytes of
        None \<Rightarrow> False | Some limit \<Rightarrow> limit \<le> e_usage e account)"

definition would_overflow :: "senv \<Rightarrow> directory \<Rightarrow> nat \<Rightarrow> rstr \<Rightarrow> nat \<Rightarrow> bool" where
  "would_overflow e d default_bytes account sz =
     (case quota_limit_for d account default_bytes of
        None \<Rightarrow> False | Some limit \<Rightarrow> limit < sat_add u64_max (e_usage e account) sz)"

definition overflowing :: "senv \<Rightarrow> directory \<Rightarrow> nat \<Rightarrow> rstr list \<Rightarrow> nat \<Rightarrow> rstr list" where
  "overflowing e d default_bytes recipients sz =
     filter (\<lambda>r. case address_parse (ae_unicode (e_auth e)) r of
         Inl _ \<Rightarrow> False
       | Inr a \<Rightarrow>
           (case resolve (ae_unicode (e_auth e)) d a of
              Account name \<Rightarrow> would_overflow e d default_bytes name sz
            | _ \<Rightarrow> False)) recipients"

subsection \<open>MAIL and RCPT\<close>

definition sender_refusal :: "senv \<Rightarrow> session \<Rightarrow> rstr \<Rightarrow> reply option" where
  "sender_refusal e s rpath =
     (case (s_authenticated s, address_parse (ae_unicode (e_auth e)) rpath) of
        (Some account, Inr a) \<Rightarrow>
          if owns_address (ae_unicode (e_auth e)) (s_directory s) account a then None
          else Some (reply_single 553 (lit ''5.7.1 sender address not owned by authenticated user''))
      | (Some _, Inl _) \<Rightarrow> Some (reply_single 553 (lit ''5.1.7 invalid reverse-path''))
      | (None, Inl _) \<Rightarrow>
          if rpath \<noteq> [] then Some (reply_single 553 (lit ''5.1.7 invalid reverse-path'')) else None
      | (None, Inr _) \<Rightarrow> None)"

definition too_large :: reply where
  "too_large = reply_single 552 (lit ''5.3.4 message exceeds maximum size'')"

definition mail_from :: "senv \<Rightarrow> rstr \<Rightarrow> nat option \<Rightarrow> bool \<Rightarrow> session \<Rightarrow> world \<Rightarrow> outcome" where
  "mail_from e rpath sz require_tls s w =
     (if s_state s \<noteq> Greeted then (s, w, Continue bad_sequence)
      else if require_tls \<and> \<not> s_tls_active s
      then (s, w, Continue (reply_single 530 (lit ''5.7.4 REQUIRETLS requires the session to use TLS'')))
      else case sender_refusal e s rpath of
        Some r \<Rightarrow> (s, w, Continue r)
      | None \<Rightarrow>
          if (case s_authenticated s of
                None \<Rightarrow> False
              | Some account \<Rightarrow>
                  \<not> budget_has_room (submission_budget (s_policy s) account (s_directory s)) (e_now e)
                      (w_limiters w))
          then (s, w, Continue rate_limited)
          else let (w, inbound) = (if s_authenticated s = None
                    then check_inbound (s_policy s) rpath (s_peer_ip s) (e_now e) w
                    else (w, None))
            in case inbound of
              Some r \<Rightarrow> (s, w, Continue r)
            | None \<Rightarrow>
                if (case sz of None \<Rightarrow> False | Some n \<Rightarrow> n > s_max_message_size s)
                then (s, w, Continue too_large)
                else if \<not> spool_has_room e (s_policy s) (s_max_message_size s)
                then (s, w, Continue (reply_single 452 (lit ''4.3.1 insufficient system storage; retry later'')))
                else let (s, w) = set_state (ReceivingRecipients rpath require_tls) s w
                  in (s, w, Continue reply_ok_250))"

definition data_open :: "receiving_data \<Rightarrow> bool" where
  "data_open t \<longleftrightarrow> rd_body t = [] \<and> \<not> rd_chunking t"

definition rcpt_refusal :: "senv \<Rightarrow> session \<Rightarrow> address \<Rightarrow> reply option" where
  "rcpt_refusal e s a =
     (case resolve (ae_unicode (e_auth e)) (s_directory s) a of
        NotLocal \<Rightarrow>
          if s_authenticated s = None then Some (reply_single 550 (lit ''5.7.1 relaying denied'')) else None
      | UnknownUser \<Rightarrow> Some (reply_single 550 (lit ''5.1.1 no such user''))
      | Account account \<Rightarrow>
          (case tp_quota (s_policy s) of
             None \<Rightarrow> None
           | Some default_bytes \<Rightarrow>
               if quota_is_full e (s_directory s) default_bytes account
               then Some (reply_single 452 (lit ''4.2.2 mailbox full'')) else None)
      | Alias _ \<Rightarrow> None)"

definition suppresses_dsn :: "notify option \<Rightarrow> bool" where
  "suppresses_dsn n = (case n of
       None \<Rightarrow> False | Some NotifyNever \<Rightarrow> True | Some (NotifyOn _ failure _) \<Rightarrow> \<not> failure)"

definition rcpt_to :: "senv \<Rightarrow> rstr \<Rightarrow> notify option \<Rightarrow> session \<Rightarrow> world \<Rightarrow> outcome" where
  "rcpt_to e fpath n s w =
     (if \<not> (case s_state s of ReceivingRecipients _ _ \<Rightarrow> True | ReceivingData t \<Rightarrow> data_open t | _ \<Rightarrow> False)
      then (s, w, Continue bad_sequence)
      else case address_parse (ae_unicode (e_auth e)) fpath of
        Inl _ \<Rightarrow> (s, w, Continue (reply_single 553 (lit ''5.1.3 invalid recipient address'')))
      | Inr a \<Rightarrow>
     (case rcpt_refusal e s a of
        Some r \<Rightarrow> (s, w, Continue r)
      | None \<Rightarrow>
          let fpath = address_show a
          in case s_state s of
            ReceivingRecipients rpath require_tls \<Rightarrow>
              (s\<lparr>s_state := ReceivingData
                   \<lparr>rd_reverse_path = rpath, rd_recipients = [fpath],
                    rd_no_dsn = (if suppresses_dsn n then [fpath] else []), rd_size = 0,
                    rd_body = [], rd_require_tls = require_tls, rd_chunking = False,
                    rd_line_check = lc_stored, rd_reserved = res_none,
                    rd_budget_exhausted = False\<rparr>\<rparr>, w, Continue reply_ok_250)
          | ReceivingData t \<Rightarrow>
              if s_max_recipients s \<le> length (rd_recipients t)
              then (s, w, Continue (reply_single 452 (lit ''4.5.3 too many recipients'')))
              else (s\<lparr>s_state := ReceivingData (t
                       \<lparr>rd_no_dsn := rd_no_dsn t @ (if suppresses_dsn n then [fpath] else []),
                        rd_recipients := rd_recipients t @ [fpath]\<rparr>)\<rparr>, w, Continue reply_ok_250)
          | _ \<Rightarrow> (s, w, Continue bad_sequence)))"

subsection \<open>The end of the data\<close>

definition author_check :: "senv \<Rightarrow> session \<Rightarrow> octets \<Rightarrow> reply option" where
  "author_check e s data =
     (case s_authenticated s of
        None \<Rightarrow> None
      | Some account \<Rightarrow>
     (case reject_ambiguous_headers (e_reader e) data of
        Inl refusal \<Rightarrow> Some (refusal_reply refusal)
      | Inr _ \<Rightarrow>
          let owned = (case author (e_mailboxes e) data of
              AuthorAddresses [address] \<Rightarrow>
                (case address_parse (ae_unicode (e_auth e)) address of
                   Inl _ \<Rightarrow> False
                 | Inr a \<Rightarrow> owns_address (ae_unicode (e_auth e)) (s_directory s) account a)
            | _ \<Rightarrow> False)
          in if owned then None
             else Some (reply_single 550 (lit ''5.7.1 From header not owned by the authenticated account''))))"

definition cap_enforce :: "senv \<Rightarrow> rstr option \<Rightarrow> rstr list \<Rightarrow> cap \<Rightarrow> bool" where
  "cap_enforce e account recipients c =
     (case account of
        None \<Rightarrow> True
      | Some a \<Rightarrow> \<not> (cap_correspondents c \<and> e_cap_limited e a recipients (cap_daily_new_recipients c)))"

definition limited_reply :: reply where
  "limited_reply = reply_single 450 (lit ''4.7.1 too many new recipients today; retry tomorrow'')"

definition cap_check_or_reply :: "senv \<Rightarrow> rstr option \<Rightarrow> rstr list \<Rightarrow> cap \<Rightarrow> reply option" where
  "cap_check_or_reply e account recipients c =
     (if cap_enforce e account recipients c then None else Some limited_reply)"

definition push_quota_report :: "accepted_message \<Rightarrow> session \<Rightarrow> session" where
  "push_quota_report m s = s\<lparr>s_policy := (s_policy s)\<lparr>tp_quota_reports := tp_quota_reports (s_policy s) @ [m]\<rparr>\<rparr>"

definition take_quota_reports :: "session \<Rightarrow> session \<times> accepted_message list" where
  "take_quota_reports s =
     (s\<lparr>s_policy := (s_policy s)\<lparr>tp_quota_reports := []\<rparr>\<rparr>, tp_quota_reports (s_policy s))"

definition hold_charge :: "charge option \<Rightarrow> session \<Rightarrow> session" where
  "hold_charge c s = s\<lparr>s_policy := (s_policy s)\<lparr>tp_pending_charge := c\<rparr>\<rparr>"

definition take_charge :: "session \<Rightarrow> session \<times> charge option" where
  "take_charge s =
     (s\<lparr>s_policy := (s_policy s)\<lparr>tp_pending_charge := None\<rparr>\<rparr>, tp_pending_charge (s_policy s))"

definition exclude_over_quota :: "senv \<Rightarrow> session \<Rightarrow> accepted_message \<Rightarrow> rstr list
    \<Rightarrow> session \<times> accepted_message option" where
  "exclude_over_quota e s m full =
     (if full = [] then (s, Some m)
      else if length full = length (am_recipients m) then (s, None)
      else let m = m\<lparr>am_recipients := filter (\<lambda>r. r \<notin> set full) (am_recipients m)\<rparr>;
               notify = filter (\<lambda>r. r \<notin> set (am_no_dsn m)) full
        in case (if notify = [] then None
                 else e_bounce e (s_hostname s) (am_reverse_path m) notify (am_data m)) of
             None \<Rightarrow> (s, Some m)
           | Some report \<Rightarrow> (push_quota_report report s, Some m))"

definition split_over_quota :: "senv \<Rightarrow> session \<Rightarrow> accepted_message \<Rightarrow> nat
    \<Rightarrow> session \<times> accepted_message option" where
  "split_over_quota e s m sz =
     (case tp_quota (s_policy s) of
        None \<Rightarrow> (s, Some m)
      | Some default_bytes \<Rightarrow>
          exclude_over_quota e s m (overflowing e (s_directory s) default_bytes (am_recipients m) sz))"

text \<open>The body's claim \<open>reserved\<close> is dropped by every refusal and moves to the session when the
  message is accepted.\<close>

definition budget_refusal :: reply where
  "budget_refusal = reply_single 452 (lit ''4.3.1 insufficient system resources; try again later'')"

definition take_charge_of :: "senv \<Rightarrow> session \<Rightarrow> world \<Rightarrow> nat \<Rightarrow> world \<times> (unit, charge option) result" where
  "take_charge_of e s w recipients =
     (case s_authenticated s of
        None \<Rightarrow> (w, Inr None)
      | Some account \<Rightarrow>
          (case budget_charge (submission_budget (s_policy s) account (s_directory s))
                  (min recipients u32_max) (e_now e) (w_limiters w) of
             (l, Inl u) \<Rightarrow> (w\<lparr>w_limiters := l\<rparr>, Inl u)
           | (l, Inr c) \<Rightarrow> (w\<lparr>w_limiters := l\<rparr>, Inr (Some c))))"

definition inner_finalise :: "senv \<Rightarrow> session \<Rightarrow> world \<Rightarrow> accepted_message \<Rightarrow> nat \<Rightarrow> bool \<Rightarrow> reservation
    \<Rightarrow> outcome" where
  "inner_finalise e s w m running_size budget_exhausted reserved =
     (if budget_exhausted then (s, release reserved w, Continue budget_refusal)
      else if running_size > s_max_message_size s then (s, release reserved w, Continue too_large)
      else case author_check e s (am_data m) of
        Some r \<Rightarrow> (s, release reserved w, Continue r)
      | None \<Rightarrow>
     (case cap_check_or_reply e (s_authenticated s) (am_recipients m) (s_cap s) of
        Some r \<Rightarrow> (s, release reserved w, Continue r)
      | None \<Rightarrow>
     (case take_charge_of e s w (length (am_recipients m)) of
        (w, Inl _) \<Rightarrow> (s, release reserved w, Continue rate_limited)
      | (w, Inr charge) \<Rightarrow>
     (case split_over_quota e s m running_size of
        (s, Some m) \<Rightarrow>
          (let s = hold_charge charge s;
               w = release (s_delivery_reservation s) w;
               s = s\<lparr>s_delivery_reservation := reserved\<rparr>
           in (s, w, Deliver reply_ok_250 m))
      | (s, None) \<Rightarrow>
          (s, release reserved (w\<lparr>w_limiters := pending_drop charge (w_limiters w)\<rparr>),
           Continue (reply_single 552 (lit ''5.2.2 mailbox full'')))))))"

definition message_of :: "receiving_data \<Rightarrow> accepted_message" where
  "message_of t = \<lparr>am_reverse_path = rd_reverse_path t, am_recipients = rd_recipients t,
     am_data = rd_body t, am_require_tls = rd_require_tls t, am_mailbox = None,
     am_tlsrpt_verified = False, am_sender_verified = False, am_no_dsn = rd_no_dsn t\<rparr>"

text \<open>Both entry points take the claim out of the state before the state goes, so leaving the state
  releases nothing: \<open>finalise\<close> after a last chunk, \<open>finalise_from_state\<close> after the final dot.\<close>

definition finalise :: "senv \<Rightarrow> session \<Rightarrow> world \<Rightarrow> accepted_message \<Rightarrow> nat \<Rightarrow> outcome" where
  "finalise e s w m running_size =
     (let (budget_exhausted, reserved) = (case s_state s of
            ReceivingData t \<Rightarrow> (rd_budget_exhausted t, rd_reserved t)
          | _ \<Rightarrow> (False, res_none))
      in inner_finalise e (s\<lparr>s_state := Greeted\<rparr>) w m running_size budget_exhausted reserved)"

definition finalise_from_state :: "senv \<Rightarrow> session \<Rightarrow> world \<Rightarrow> outcome" where
  "finalise_from_state e s w =
     (case s_state s of
        ReceivingData t \<Rightarrow>
          inner_finalise e (s\<lparr>s_state := Greeted\<rparr>) w (message_of t) (rd_size t) (rd_budget_exhausted t)
            (rd_reserved t)
      | _ \<Rightarrow> (s\<lparr>s_state := Greeted\<rparr>, w, Continue bad_sequence))"

definition data :: "session \<Rightarrow> world \<Rightarrow> outcome" where
  "data s w = (s, w, case s_state s of
       ReceivingData t \<Rightarrow> if data_open t then CollectData start_mail_input else Continue bad_sequence
     | _ \<Rightarrow> Continue bad_sequence)"

definition grow_claim :: "session \<Rightarrow> nat \<Rightarrow> reservation \<Rightarrow> world \<Rightarrow> reservation \<times> world \<times> bool" where
  "grow_claim s bytes r w =
     (case w_memory w of
        None \<Rightarrow> (r, w, True)
      | Some mb \<Rightarrow>
          let (r', mb', ok) = try_grow (s_peer_ip s) bytes r mb in (r', w\<lparr>w_memory := Some mb'\<rparr>, ok))"

definition data_line :: "senv \<Rightarrow> octets \<Rightarrow> session \<Rightarrow> world \<Rightarrow> session \<times> world \<times> action option" where
  "data_line e line s w =
     (if line = [46] then (case finalise_from_state e s w of (s, w, a) \<Rightarrow> (s, w, Some a))
      else case s_state s of
        ReceivingData t \<Rightarrow>
          (let content = (case strip_prefix [46] line of Some c \<Rightarrow> c | None \<Rightarrow> line);
               delta = length content + 2;
               t = t\<lparr>rd_size := rd_size t + delta\<rparr>
           in if rd_size t > s_max_message_size s then (s\<lparr>s_state := ReceivingData t\<rparr>, w, None)
              else let (r, w, ok) = grow_claim s delta (rd_reserved t) w;
                       t = t\<lparr>rd_reserved := r\<rparr>
                in if \<not> ok then (s\<lparr>s_state := ReceivingData (t\<lparr>rd_budget_exhausted := True\<rparr>)\<rparr>, w, None)
                   else (s\<lparr>s_state := ReceivingData (t\<lparr>rd_body := rd_body t @ content @ [13, 10]\<rparr>)\<rparr>, w, None))
      | _ \<Rightarrow> (let (s, w) = reset s w in (s, w, Some (Continue bad_sequence))))"

subsection \<open>Chunks\<close>

definition bdat :: "nat \<Rightarrow> bool \<Rightarrow> session \<Rightarrow> world \<Rightarrow> outcome" where
  "bdat sz is_last s w =
     (if sz > s_max_message_size s then (let (s, w) = reset s w in (s, w, Close too_large))
      else case s_state s of
        ReceivingData _ \<Rightarrow>
          (s\<lparr>s_chunk_reservation := res_none\<rparr>, release (s_chunk_reservation s) w, CollectChunk sz is_last)
      | _ \<Rightarrow> (let (s, w) = reset s w in (s, w, DiscardChunk sz bad_sequence)))"

definition reserve_chunk :: "nat \<Rightarrow> session \<Rightarrow> world \<Rightarrow> session \<times> world \<times> bool" where
  "reserve_chunk bytes s w =
     (let (r, w, ok) = grow_claim s bytes (s_chunk_reservation s) w
      in (s\<lparr>s_chunk_reservation := r\<rparr>, w, ok))"

definition refuse_chunk :: "session \<Rightarrow> world \<Rightarrow> outcome" where
  "refuse_chunk s w = (let (s, w) = reset s w in (s, w, Continue budget_refusal))"

definition line_error_reply :: "line_error \<Rightarrow> reply" where
  "line_error_reply err = (case err of
       BareControlCharacter \<Rightarrow> reply_single 554 (lit ''5.5.2 bare CR or LF is not allowed, closing connection'')
     | TooLong \<Rightarrow> reply_single 500 (lit ''5.5.2 line too long, closing connection'')
     | NulByte \<Rightarrow> reply_single 554 (lit ''5.5.2 NUL byte received, closing connection''))"

definition is_receiving_data :: "state \<Rightarrow> bool" where
  "is_receiving_data st = (case st of ReceivingData _ \<Rightarrow> True | _ \<Rightarrow> False)"

definition chunk_body :: "senv \<Rightarrow> octets \<Rightarrow> bool \<Rightarrow> receiving_data \<Rightarrow> session \<Rightarrow> world \<Rightarrow> outcome" where
  "chunk_body e bytes is_last t s w =
     (let chunk = s_chunk_reservation s;
          s = s\<lparr>s_chunk_reservation := res_none\<rparr>;
          (lc, framing) = (case lc_feed MAX_LINE_LENGTH bytes (rd_line_check t) of
              (lc, Inl err) \<Rightarrow> (lc, Inl err)
            | (lc, Inr u) \<Rightarrow> (lc, if is_last then lc_finish MAX_LINE_LENGTH lc else Inr u));
          t = t\<lparr>rd_chunking := True, rd_line_check := lc\<rparr>
      in case framing of
        Inl err \<Rightarrow>
          (let (s, w) = reset (s\<lparr>s_state := ReceivingData t\<rparr>) w
           in (s, release chunk w, Close (line_error_reply err)))
      | Inr _ \<Rightarrow>
          let t = t\<lparr>rd_size := rd_size t + length bytes\<rparr>
          in if rd_size t > s_max_message_size s
             then (let (s, w) = reset (s\<lparr>s_state := ReceivingData t\<rparr>) w
                   in (s, release chunk w, Continue too_large))
             else let (r, w) = (case w_memory w of
                        None \<Rightarrow> (fst (absorb (rd_reserved t) chunk (mb_with_cap 0)), w)
                      | Some mb \<Rightarrow> let (r, mb) = absorb (rd_reserved t) chunk mb in (r, w\<lparr>w_memory := Some mb\<rparr>));
                      t = t\<lparr>rd_body := rd_body t @ bytes, rd_reserved := r\<rparr>
               in if \<not> is_last
                  then (s\<lparr>s_state := ReceivingData t\<rparr>, w, Continue (reply_single 250 (lit ''2.0.0 chunk received'')))
                  else finalise e (s\<lparr>s_state := ReceivingData t\<rparr>) w (message_of t) (rd_size t))"

definition bdat_chunk :: "senv \<Rightarrow> octets \<Rightarrow> bool \<Rightarrow> session \<Rightarrow> world \<Rightarrow> outcome" where
  "bdat_chunk e bytes is_last s w =
     (let uncharged = length bytes - r_bytes (s_chunk_reservation s);
          (s, w, charged) = (if uncharged > 0 \<and> is_receiving_data (s_state s)
                             then reserve_chunk uncharged s w else (s, w, True))
      in if \<not> charged then refuse_chunk s w
         else case s_state s of
           ReceivingData t \<Rightarrow> chunk_body e bytes is_last t s w
         | _ \<Rightarrow> (let w = release (s_chunk_reservation s) w;
                     (s, w) = reset (s\<lparr>s_chunk_reservation := res_none\<rparr>) w
                 in (s, w, Continue bad_sequence)))"

end
