(* ===== verification/Session_Auth.thy ===== *)
theory Session_Auth
  imports Smtp_Session
begin

section \<open>Authentication and command dispatch of an SMTP session\<close>

text \<open>
  The AUTH mechanisms of a session (\<^verbatim>\<open>src/src/smtp/session/auth_dispatch.rs\<close>, \<^verbatim>\<open>login.rs\<close>, \<^verbatim>\<open>scram.rs\<close>,
  \<^verbatim>\<open>oauth.rs\<close>), the directory's side of SCRAM (\<^verbatim>\<open>src/src/smtp/directory/gate.rs\<close> and \<^verbatim>\<open>scram/mod.rs\<close>),
  SASL PLAIN (\<^verbatim>\<open>src/src/smtp/auth/mod.rs\<close>), the count of commands without progress (\<^verbatim>\<open>junk.rs\<close>), and
  the two entry points \<open>command_line\<close> and \<open>auth_line\<close> that the connection loop calls. Logging and
  metrics are left out.
\<close>

subsection \<open>SASL PLAIN\<close>

record plain_credentials =
  pc_authcid :: rstr
  pc_password :: rstr

datatype plain_error = BadEncoding | BadFormat | AuthzidMismatch

definition parse_plain :: "scram_ops \<Rightarrow> rstr \<Rightarrow> (plain_error, plain_credentials) result" where
  "parse_plain K encoded =
     (case so_decode K (trim encoded) of
        None \<Rightarrow> Inl BadEncoding
      | Some bytes \<Rightarrow>
     (case from_utf8 bytes of
        None \<Rightarrow> Inl BadFormat
      | Some text \<Rightarrow>
     (case split_on 0 text of
        [authzid, authcid, password] \<Rightarrow>
          if authcid = [] \<or> password = [] then Inl BadFormat
          else if authzid \<noteq> [] \<and> authzid \<noteq> authcid then Inl AuthzidMismatch
          else Inr \<lparr>pc_authcid = authcid, pc_password = password\<rparr>
      | _ \<Rightarrow> Inl BadFormat)))"

subsection \<open>Outcomes of an attempt\<close>

definition invalid_credentials :: reply where
  "invalid_credentials = reply_single 535 (lit ''5.7.8 authentication credentials invalid'')"

definition auth_fail_counted :: "session \<Rightarrow> world \<Rightarrow> outcome" where
  "auth_fail_counted s w =
     (s, w, if s_auth_failures s \<ge> 3 then Close invalid_credentials else Continue invalid_credentials)"

definition auth_fail :: "session \<Rightarrow> world \<Rightarrow> outcome" where
  "auth_fail s w = auth_fail_counted (s\<lparr>s_auth_failures := s_auth_failures s + 1\<rparr>) w"

definition auth_busy :: "session \<Rightarrow> world \<Rightarrow> outcome" where
  "auth_busy s w = (s, w, Continue (reply_single 454 (lit ''4.7.0 Temporary authentication failure'')))"

definition auth_successful :: reply where
  "auth_successful = reply_single 235 (lit ''2.7.0 authentication successful'')"

definition auth_success :: "rstr \<Rightarrow> rstr option \<Rightarrow> session \<Rightarrow> world \<Rightarrow> outcome" where
  "auth_success account label s w =
     (s\<lparr>s_authenticated := Some account, s_auth_label := label\<rparr>, w, Continue auth_successful)"

definition challenge :: "rstr \<Rightarrow> action" where
  "challenge text = CollectAuthResponse (reply_single 334 text)"

subsection \<open>PLAIN, LOGIN and EXTERNAL\<close>

definition check_password :: "senv \<Rightarrow> rstr \<Rightarrow> rstr \<Rightarrow> session \<Rightarrow> world \<Rightarrow> outcome" where
  "check_password e login password s w =
     (case authenticate_verdict (e_auth e) (s_directory s) (w_bans w) login password (s_peer_ip s)
             (s_auth_protocol s) (e_clock e) (e_gate_full e) of
        (v, bans) \<Rightarrow>
          let w = w\<lparr>w_bans := bans\<rparr>
          in case v of
               Admitted account label \<Rightarrow> auth_success account label s w
             | Refused \<Rightarrow> auth_fail s w
             | Busy \<Rightarrow> auth_busy s w)"

definition verify_plain :: "senv \<Rightarrow> rstr \<Rightarrow> session \<Rightarrow> world \<Rightarrow> outcome" where
  "verify_plain e encoded s w =
     (case parse_plain (e_scram e) encoded of
        Inl _ \<Rightarrow> auth_fail s w
      | Inr c \<Rightarrow> check_password e (pc_authcid c) (pc_password c) s w)"

definition login_username :: "senv \<Rightarrow> rstr \<Rightarrow> session \<Rightarrow> world \<Rightarrow> outcome" where
  "login_username e encoded s w =
     (case so_decode (e_scram e) (trim encoded) of
        None \<Rightarrow> auth_fail s w
      | Some bytes \<Rightarrow>
          (s\<lparr>s_pending_login := Some (Some (from_utf8_lossy bytes))\<rparr>, w, challenge (lit ''UGFzc3dvcmQ6'')))"

definition login_password :: "senv \<Rightarrow> rstr \<Rightarrow> rstr \<Rightarrow> session \<Rightarrow> world \<Rightarrow> outcome" where
  "login_password e user encoded s w =
     (case so_decode (e_scram e) (trim encoded) of
        None \<Rightarrow> auth_fail s w
      | Some bytes \<Rightarrow> check_password e user (from_utf8_lossy bytes) s w)"

definition external_authzid :: "senv \<Rightarrow> rstr \<Rightarrow> rstr option" where
  "external_authzid e encoded =
     (let trimmed = trim encoded
      in if trimmed = [] \<or> trimmed = lit ''='' then Some []
         else map_option from_utf8_lossy (so_decode (e_scram e) trimmed))"

definition external_account :: "senv \<Rightarrow> rstr \<Rightarrow> session \<Rightarrow> rstr option" where
  "external_account e encoded s =
     (case s_client_identity s of
        None \<Rightarrow> None
      | Some identity \<Rightarrow>
     (case external_authzid e encoded of
        None \<Rightarrow> None
      | Some authzid \<Rightarrow>
          if authzid \<noteq> [] \<and> authzid \<noteq> identity then None
          else case address_parse (ae_unicode (e_auth e)) identity of
            Inl _ \<Rightarrow> None
          | Inr a \<Rightarrow>
              (case resolve_exact (ae_unicode (e_auth e)) (s_directory s) a of
                 None \<Rightarrow> None
               | Some account \<Rightarrow>
                   if admit_login (s_directory s) account (s_auth_protocol s) ProofFederated
                   then Some account else None)))"

definition verify_external :: "senv \<Rightarrow> rstr \<Rightarrow> session \<Rightarrow> world \<Rightarrow> outcome" where
  "verify_external e encoded s w =
     (case external_account e encoded s of
        None \<Rightarrow> auth_fail s w
      | Some account \<Rightarrow> auth_success account None s w)"

subsection \<open>SCRAM\<close>

definition scram_credentials_for :: "senv \<Rightarrow> directory \<Rightarrow> rstr \<Rightarrow> scram_credentials option" where
  "scram_credentials_for e d login =
     (let account = (if 64 \<in> set login
            then (case address_parse (ae_unicode (e_auth e)) login of
                    Inl _ \<Rightarrow> None
                  | Inr a \<Rightarrow> (case resolve (ae_unicode (e_auth e)) d a of Account account \<Rightarrow> Some account | _ \<Rightarrow> None))
            else Some (ascii_lower login))
      in case account of
           None \<Rightarrow> None
         | Some account \<Rightarrow> Option.bind (map_of (d_scram d) account) (to_credentials (e_scram e)))"

definition scram_credentials_current :: "senv \<Rightarrow> directory \<Rightarrow> rstr \<Rightarrow> directory \<Rightarrow> protocol \<Rightarrow> bool" where
  "scram_credentials_current e d account original p =
     (case (credentials (ae_unicode (e_auth e)) original account, credentials (ae_unicode (e_auth e)) d account,
            Option.bind (map_of (d_scram original) account) (to_credentials (e_scram e)),
            Option.bind (map_of (d_scram d) account) (to_credentials (e_scram e))) of
        (Some (_, original_hash), Some (_, current_hash), Some original_keys, Some current_keys) \<Rightarrow>
          original_hash = current_hash
          \<and> sc_stored_key original_keys = sc_stored_key current_keys
          \<and> sc_server_key original_keys = sc_server_key current_keys
          \<and> sc_salt original_keys = sc_salt current_keys
          \<and> sc_iterations original_keys = sc_iterations current_keys
          \<and> admit_login d account p ProofScram
      | _ \<Rightarrow> False)"

definition decoy_scram_credentials :: "senv \<Rightarrow> rstr \<Rightarrow> scram_credentials" where
  "decoy_scram_credentials e username =
     \<lparr>sc_salt = take 16 (e_decoy_salt e (ascii_lower username)), sc_iterations = SCRAM_ITERATIONS,
      sc_stored_key = replicate 32 0, sc_server_key = replicate 32 0\<rparr>"

record scram_plan =
  pl_credentials :: scram_credentials
  pl_account :: rstr
  pl_refusal :: "scram_refusal option"

definition session_ban :: "senv \<Rightarrow> rstr \<Rightarrow> session \<Rightarrow> world \<Rightarrow> ban_outcome" where
  "session_ban e login s w =
     check_ban (e_auth e) (s_directory s) (w_bans w) login (s_peer_ip s) (ck_check (e_clock e))"

definition plan_scram :: "senv \<Rightarrow> rstr \<Rightarrow> session \<Rightarrow> world \<Rightarrow> scram_plan" where
  "plan_scram e username s w =
     (case session_ban e username s w of
        Banned \<Rightarrow> \<lparr>pl_credentials = decoy_scram_credentials e username, pl_account = username,
                   pl_refusal = Some ScramBanned\<rparr>
      | outcome \<Rightarrow>
          let resolved = (case outcome of BannedButKnown a \<Rightarrow> Some a | Clear a \<Rightarrow> a | Banned \<Rightarrow> None);
              denied = \<lparr>pl_credentials = decoy_scram_credentials e username, pl_account = username,
                        pl_refusal = Some (ScramDenied resolved)\<rparr>
          in case (scram_credentials_for e (s_directory s) username,
                   credentials (ae_unicode (e_auth e)) (s_directory s) username) of
               (Some c, Some (account, _)) \<Rightarrow>
                 if admit_login (s_directory s) account (s_auth_protocol s) ProofScram
                 then \<lparr>pl_credentials = c, pl_account = account, pl_refusal = None\<rparr> else denied
             | _ \<Rightarrow> denied)"

definition scram_binding :: "session \<Rightarrow> bool \<Rightarrow> channel_binding" where
  "scram_binding s is_plus = (case s_cbind_data s of
       None \<Rightarrow> CbUnsupported
     | Some hash \<Rightarrow> if is_plus then CbRequired hash else CbSupported)"

definition record_scram_outcome :: "senv \<Rightarrow> rstr \<Rightarrow> rstr option \<Rightarrow> bool \<Rightarrow> bool \<Rightarrow> session \<Rightarrow> world \<Rightarrow> world" where
  "record_scram_outcome e login account success bypassed s w =
     w\<lparr>w_bans := record_ban_outcome (e_auth e) (w_bans w) login account success bypassed (s_peer_ip s)
                   (protocol_str (s_auth_protocol s)) (ck_record (e_clock e))\<rparr>"

definition scram_failure :: "session \<Rightarrow> world \<Rightarrow> outcome" where
  "scram_failure s w = auth_fail (s\<lparr>s_pending_scram := None\<rparr>) w"

definition session_ip_banned :: "senv \<Rightarrow> session \<Rightarrow> world \<Rightarrow> bool" where
  "session_ip_banned e s w = (session_ban e [] s w = Banned)"

definition count_scram_failure :: "senv \<Rightarrow> rstr \<Rightarrow> scram_plan \<Rightarrow> session \<Rightarrow> world \<Rightarrow> world" where
  "count_scram_failure e username plan s w =
     (case pl_refusal plan of
        Some ScramBanned \<Rightarrow> w
      | Some (ScramDenied account) \<Rightarrow> record_scram_outcome e username account False False s w
      | None \<Rightarrow> record_scram_outcome e username (Some (pl_account plan)) False False s w)"

definition decode_text :: "senv \<Rightarrow> rstr \<Rightarrow> rstr option" where
  "decode_text e encoded = Option.bind (so_decode (e_scram e) encoded) from_utf8"

definition scram_client_first :: "senv \<Rightarrow> rstr \<Rightarrow> channel_binding \<Rightarrow> session \<Rightarrow> world \<Rightarrow> outcome" where
  "scram_client_first e encoded binding s w =
     (case Option.bind (decode_text e encoded) (\<lambda>m. map_option (\<lambda>u. (m, u)) (username_of m)) of
        None \<Rightarrow>
          if session_ip_banned e s w then scram_failure s w
          else scram_failure s (record_scram_outcome e [] None False False s w)
      | Some (client_first, username) \<Rightarrow>
          let plan = plan_scram e username s w
          in case e_nonce e of
            None \<Rightarrow> scram_failure s (count_scram_failure e username plan s w)
          | Some nonce \<Rightarrow>
              (case scram_first (e_scram e) (with_channel_binding binding (scram_new nonce)) client_first
                      (pl_credentials plan) of
                 (_, Inl _) \<Rightarrow> scram_failure s (count_scram_failure e username plan s w)
               | (server, Inr (_, server_first)) \<Rightarrow>
                   (s\<lparr>s_pending_scram := Some (ClientFinal server (pl_credentials plan) (pl_account plan)
                        (s_directory s) (pl_refusal plan))\<rparr>, w,
                    challenge (so_encode (e_scram e) (utf8_encode server_first)))))"

definition scram_begin :: "senv \<Rightarrow> rstr option \<Rightarrow> bool \<Rightarrow> session \<Rightarrow> world \<Rightarrow> outcome" where
  "scram_begin e initial is_plus s w =
     (let binding = scram_binding s is_plus
      in case initial of
           Some client_first \<Rightarrow> scram_client_first e client_first binding s w
         | None \<Rightarrow> (s\<lparr>s_pending_scram := Some (ClientFirst binding)\<rparr>, w, challenge []))"

definition scram_client_final :: "senv \<Rightarrow> rstr \<Rightarrow> scram_server \<Rightarrow> scram_credentials \<Rightarrow> rstr
    \<Rightarrow> scram_refusal option \<Rightarrow> directory \<Rightarrow> session \<Rightarrow> world \<Rightarrow> outcome" where
  "scram_client_final e encoded server keys account refusal original s w =
     (case refusal of
        Some ScramBanned \<Rightarrow> scram_failure s w
      | Some (ScramDenied counted) \<Rightarrow>
          scram_failure s (record_scram_outcome e account counted False False s w)
      | None \<Rightarrow>
          if session_ban e account s w = Banned then scram_failure s w
          else case decode_text e encoded of
            None \<Rightarrow> scram_failure s (record_scram_outcome e account (Some account) False False s w)
          | Some client_final \<Rightarrow>
              (case scram_finish (e_scram e) server client_final keys of
                 Inr server_final \<Rightarrow>
                   if scram_credentials_current e (s_directory s) account original (s_auth_protocol s)
                   then (s\<lparr>s_pending_scram := Some (ServerFinal account original)\<rparr>, w,
                         challenge (so_encode (e_scram e) (utf8_encode server_final)))
                   else scram_failure s (record_scram_outcome e account (Some account) False False s w)
               | Inl _ \<Rightarrow> scram_failure s (record_scram_outcome e account (Some account) False False s w)))"

definition scram_server_final :: "senv \<Rightarrow> rstr \<Rightarrow> rstr \<Rightarrow> directory \<Rightarrow> session \<Rightarrow> world \<Rightarrow> outcome" where
  "scram_server_final e line account original s w =
     (if line \<noteq> [] then (s, w, Continue (reply_single 501 (lit ''5.5.2 invalid authentication response'')))
      else case session_ban e account s w of
        Banned \<Rightarrow> scram_failure s w
      | outcome \<Rightarrow>
          let bypassed = (case outcome of BannedButKnown _ \<Rightarrow> True | _ \<Rightarrow> False)
          in if \<not> scram_credentials_current e (s_directory s) account original (s_auth_protocol s)
             then scram_failure s (record_scram_outcome e account (Some account) False False s w)
             else (s\<lparr>s_authenticated := Some account\<rparr>,
                   record_scram_outcome e account (Some account) True bypassed s w,
                   Continue auth_successful))"

subsection \<open>Bearer tokens\<close>

fun split_str :: "rstr \<Rightarrow> rstr \<Rightarrow> rstr option" where
  "split_str p [] = None"
| "split_str p (c # cs) =
     (case strip_prefix p (c # cs) of Some rest \<Rightarrow> Some rest | None \<Rightarrow> split_str p cs)"

text \<open>\<^verbatim>\<open>text.split(p).nth(1)\<close>: what lies between the first and the second \<open>p\<close>.\<close>

fun before_str :: "rstr \<Rightarrow> rstr \<Rightarrow> rstr" where
  "before_str p [] = []"
| "before_str p (c # cs) = (if starts_with p (c # cs) then [] else c # before_str p cs)"

definition parse_bearer :: "senv \<Rightarrow> rstr \<Rightarrow> rstr option" where
  "parse_bearer e encoded =
     (case decode_text e encoded of
        None \<Rightarrow> None
      | Some text \<Rightarrow>
     (case split_str (lit ''auth=Bearer '') text of
        None \<Rightarrow> None
      | Some rest \<Rightarrow>
          let token = trim (hd (split_on 1 (before_str (lit ''auth=Bearer '') rest)))
          in if token = [] then None else Some token))"

definition oauth_account :: "senv \<Rightarrow> bool \<Rightarrow> rstr option \<Rightarrow> session \<Rightarrow> rstr option" where
  "oauth_account e attested initial s =
     (case Option.bind (Option.bind initial (parse_bearer e)) (\<lambda>t. e_token e t (e_now e) (s_directory s)) of
        None \<Rightarrow> None
      | Some account \<Rightarrow>
          if admit_login (s_directory s) account (s_auth_protocol s) (bearer_proof (Some attested))
          then Some account else None)"

definition oauth_bearer :: "senv \<Rightarrow> rstr option \<Rightarrow> session \<Rightarrow> world \<Rightarrow> outcome" where
  "oauth_bearer e initial s w =
     (case s_oauth s of
        None \<Rightarrow> (s, w, Continue (reply_single 504 (lit ''5.5.4 mechanism not supported'')))
      | Some attested \<Rightarrow>
     (case oauth_account e attested initial s of
        Some account \<Rightarrow> (s\<lparr>s_authenticated := Some account\<rparr>, w, Continue auth_successful)
      | None \<Rightarrow> auth_fail s w))"

subsection \<open>AUTH\<close>

definition session_offers :: "session \<Rightarrow> mechanism \<Rightarrow> bool" where
  "session_offers s m = is_available m (s_client_identity s \<noteq> None) (s_cbind_data s \<noteq> None)
     (s_scram_enabled s) (s_oauth s \<noteq> None)"

definition auth :: "senv \<Rightarrow> rstr \<Rightarrow> rstr option \<Rightarrow> session \<Rightarrow> world \<Rightarrow> outcome" where
  "auth e name initial s w =
     (if \<not> s_tls_active s
      then (s, w, Continue (reply_single 538 (lit ''5.7.11 encryption required for auth'')))
      else if s_authenticated s \<noteq> None then (s, w, Continue bad_sequence)
      else if s_state s \<noteq> Greeted then (s, w, Continue bad_sequence)
      else case mechanism_parse name of
        None \<Rightarrow> (s, w, Continue (reply_single 504 (lit ''5.5.4 mechanism not supported'')))
      | Some m \<Rightarrow>
          if \<not> session_offers s m
          then (s, w, Continue (reply_single 504 (lit ''5.5.4 mechanism not supported'')))
          else (case m of
            External \<Rightarrow>
              (case initial of
                 Some response \<Rightarrow> verify_external e response s w
               | None \<Rightarrow> (s\<lparr>s_pending_external := True\<rparr>, w, challenge []))
          | Plain \<Rightarrow>
              (case initial of
                 Some response \<Rightarrow> verify_plain e response s w
               | None \<Rightarrow> (s, w, challenge []))
          | ScramSha256 \<Rightarrow> scram_begin e initial False s w
          | ScramSha256Plus \<Rightarrow> scram_begin e initial True s w
          | OauthBearer \<Rightarrow> oauth_bearer e initial s w
          | Xoauth2 \<Rightarrow> oauth_bearer e initial s w
          | Login \<Rightarrow>
              (case initial of
                 Some user \<Rightarrow> login_username e user s w
               | None \<Rightarrow> (s\<lparr>s_pending_login := Some None\<rparr>, w, challenge (lit ''VXNlcm5hbWU6'')))))"

definition auth_response :: "senv \<Rightarrow> rstr \<Rightarrow> session \<Rightarrow> world \<Rightarrow> outcome" where
  "auth_response e line s w =
     (if line = lit ''*''
      then (s\<lparr>s_pending_scram := None, s_pending_login := None, s_pending_external := False\<rparr>, w,
            Continue (reply_single 501 (lit ''5.7.0 authentication cancelled'')))
      else if s_pending_external s then verify_external e line (s\<lparr>s_pending_external := False\<rparr>) w
      else case s_pending_login s of
        Some st \<Rightarrow>
          let s = s\<lparr>s_pending_login := None\<rparr>
          in (case st of
                None \<Rightarrow> login_username e line s w
              | Some user \<Rightarrow> login_password e user line s w)
      | None \<Rightarrow>
          let pending = s_pending_scram s; s = s\<lparr>s_pending_scram := None\<rparr>
          in (case pending of
                Some (ClientFirst binding) \<Rightarrow> scram_client_first e line binding s w
              | Some (ClientFinal server keys account original refusal) \<Rightarrow>
                  scram_client_final e line server keys account refusal original s w
              | Some (ServerFinal account original) \<Rightarrow> scram_server_final e line account original s w
              | None \<Rightarrow> verify_plain e line s w))"

subsection \<open>Commands without progress\<close>

definition jc_count :: "bool \<Rightarrow> bool \<Rightarrow> junk_count \<Rightarrow> junk_count \<times> bool" where
  "jc_count junk refused j =
     (if jc_limit j = 0 then (j, False)
      else if \<not> junk \<and> \<not> refused then (j, False)
      else let j = (if junk then j\<lparr>jc_junk := sat_add u32_max (jc_junk j) 1\<rparr>
                    else j\<lparr>jc_refused := sat_add u32_max (jc_refused j) 1\<rparr>)
        in (j, jc_junk j > jc_limit j \<or> jc_refused j > jc_limit j))"

definition message_delivered :: "session \<Rightarrow> session" where
  "message_delivered s = s\<lparr>s_junk := (s_junk s)\<lparr>jc_refused := 0\<rparr>\<rparr>"

definition is_junk :: "session \<Rightarrow> (parse_error, command) result \<Rightarrow> bool" where
  "is_junk s parsed = (case parsed of
       Inr Noop \<Rightarrow> True | Inr Rset \<Rightarrow> True | Inr Vrfy \<Rightarrow> True
     | Inr (Helo _) \<Rightarrow> s_state s \<noteq> Connected
     | Inr (Ehlo _) \<Rightarrow> s_state s \<noteq> Connected
     | Inr (Bdat n is_last) \<Rightarrow> n = 0 \<and> \<not> is_last
     | Inl UnknownCommand \<Rightarrow> True
     | _ \<Rightarrow> False)"

definition refuses :: "action \<Rightarrow> bool" where
  "refuses a = (case a of Continue r \<Rightarrow> r_code r \<ge> 400 | DiscardChunk _ r \<Rightarrow> r_code r \<ge> 400 | _ \<Rightarrow> False)"

definition too_much_junk :: reply where
  "too_much_junk = reply_single 421 (lit ''4.7.0 too many commands without progress, closing connection'')"

definition count_junk :: "bool \<Rightarrow> outcome \<Rightarrow> outcome" where
  "count_junk junk out =
     (case out of
        (s, w, a) \<Rightarrow>
          let (j, over) = jc_count junk (refuses a) (s_junk s); s = s\<lparr>s_junk := j\<rparr>
          in if \<not> over then (s, w, a)
             else let (s, w) = reset s w in (s, w, Close too_much_junk))"

definition unreadable_command :: "session \<Rightarrow> world \<Rightarrow> outcome" where
  "unreadable_command s w = count_junk False (s, w, Continue syntax_error)"

subsection \<open>Dispatch\<close>

definition apply_command :: "senv \<Rightarrow> command \<Rightarrow> session \<Rightarrow> world \<Rightarrow> outcome" where
  "apply_command e c s w = (case c of
       Helo domain \<Rightarrow> greet domain False s w
     | Ehlo domain \<Rightarrow> greet domain True s w
     | MailFrom rpath sz _ require_tls _ _ \<Rightarrow> mail_from e rpath sz require_tls s w
     | RcptTo fpath n _ \<Rightarrow> rcpt_to e fpath n s w
     | Data \<Rightarrow> data s w
     | Bdat sz is_last \<Rightarrow> bdat sz is_last s w
     | Rset \<Rightarrow> (let (s, w) = reset s w in (s, w, Continue reply_ok_250))
     | Noop \<Rightarrow> (s, w, Continue reply_ok_250)
     | Quit \<Rightarrow> (s, w, Close reply_closing)
     | Vrfy \<Rightarrow> (s, w, Continue vrfy_not_disclosed)
     | StartTls \<Rightarrow> start_tls s w
     | Auth name initial \<Rightarrow> auth e name initial s w)"

definition parse_refusal :: "parse_error \<Rightarrow> reply" where
  "parse_refusal err = (case err of
       UnknownCommand \<Rightarrow> syntax_error
     | LineTooLong \<Rightarrow> reply_single 500 (lit ''5.5.2 line too long'')
     | InvalidCharacters \<Rightarrow> syntax_error
     | InvalidArguments \<Rightarrow> invalid_arguments
     | UnsupportedParameter \<Rightarrow> reply_single 555 (lit ''5.5.4 parameter not implemented''))"

definition dispatch :: "senv \<Rightarrow> (parse_error, command) result \<Rightarrow> session \<Rightarrow> world \<Rightarrow> outcome" where
  "dispatch e parsed s w = (case parsed of
       Inr c \<Rightarrow> apply_command e c s w
     | Inl err \<Rightarrow> (s, w, Continue (parse_refusal err)))"

definition command_line :: "senv \<Rightarrow> rstr \<Rightarrow> session \<Rightarrow> world \<Rightarrow> outcome" where
  "command_line e line s w =
     (let parsed = parse_command line in count_junk (is_junk s parsed) (dispatch e parsed s w))"

definition auth_line :: "senv \<Rightarrow> rstr \<Rightarrow> session \<Rightarrow> world \<Rightarrow> outcome" where
  "auth_line e line s w = count_junk True (auth_response e line s w)"

end
