(* ===== verification/Submission_Headers.thy ===== *)
theory Submission_Headers
  imports Smtp_Session Inbound_Headers
begin

section \<open>The headers of a submission\<close>

text \<open>
  What the server writes on the mail its own accounts submit: \<^verbatim>\<open>Message-ID\<close> and \<^verbatim>\<open>Date\<close>
  (\<^verbatim>\<open>src/src/smtp/trace/mod.rs\<close>), the class (\<^verbatim>\<open>src/src/evidence/class/mod.rs\<close>), the identification headers
  (\<^verbatim>\<open>src/src/smtp/identification/mod.rs\<close>, \<^verbatim>\<open>src/src/smtp/directory/list_fields.rs\<close>, \<^verbatim>\<open>src/src/compose/header.rs\<close>), the rules of
  marketing mail (\<^verbatim>\<open>src/src/evidence/marketing/mod.rs\<close>), and \<^verbatim>\<open>prepare\<close> of \<^verbatim>\<open>src/src/evidence/submission/mod.rs\<close> that
  composes them. Printed dates and fresh identifiers are arguments, as are the percent encoding of the
  \<^verbatim>\<open>percent_encoding\<close> crate and the suppression list.
\<close>

subsection \<open>Stamping Message-ID and Date\<close>

definition strip_cr :: "octets \<Rightarrow> octets" where
  "strip_cr line = strip_last 13 line"

definition oct_name_is :: "octets \<Rightarrow> string \<Rightarrow> bool" where
  "oct_name_is name s = list_all2 oct_eq_ignore_case name (olit s)"

fun scan_lines :: "bool \<Rightarrow> bool \<Rightarrow> octets list \<Rightarrow> bool \<times> bool" where
  "scan_lines has_id has_date [] = (has_id, has_date)"
| "scan_lines has_id has_date (line # ls) =
     (if line = [] then (has_id, has_date)
      else if is_continuation line then scan_lines has_id has_date ls
      else case split_once 58 line of
        None \<Rightarrow> scan_lines has_id has_date ls
      | Some (name, _) \<Rightarrow>
          let found = oct_name_is name ''message-id'';
              has_id = (has_id \<or> found);
              has_date = (has_date \<or> \<not> found \<and> oct_name_is name ''date'')
          in if has_id \<and> has_date then (True, True) else scan_lines has_id has_date ls)"

definition scan_submission_headers :: "octets \<Rightarrow> bool \<times> bool" where
  "scan_submission_headers headers = scan_lines False False (map strip_cr (split_by (\<lambda>b. b = 10) headers))"

text \<open>\<open>uuid\<close> is the fresh identifier and \<open>date\<close> the printed time.\<close>

definition build_prepended_headers :: "rstr \<Rightarrow> rstr \<Rightarrow> rstr \<Rightarrow> bool \<times> bool \<Rightarrow> octets \<Rightarrow> octets" where
  "build_prepended_headers uuid date domain found ending =
     (if fst found then [] else utf8_encode (lit ''Message-ID: <'' @ uuid @ [64] @ domain @ lit ''>'') @ ending)
     @ (if snd found then [] else utf8_encode (lit ''Date: '' @ date) @ ending)"

definition ensure_submission_headers :: "rstr \<Rightarrow> rstr \<Rightarrow> rstr \<Rightarrow> octets \<Rightarrow> octets" where
  "ensure_submission_headers uuid date domain d =
     (let headers = take (header_block_end d) d;
          body = drop (header_block_end d) d;
          found = scan_submission_headers headers
      in if fst found \<and> snd found then d
         else build_prepended_headers uuid date domain found (line_ending d) @ headers @ body)"

text \<open>The in-place form grows the buffer, moves the message up and writes the new lines in front.\<close>

definition shift_in :: "octets \<Rightarrow> octets \<Rightarrow> octets" where
  "shift_in pre d =
     (let len = length d;
          grown = d @ replicate (length pre) 0;
          moved = copy_within 0 len (length pre) grown
      in pre @ drop (length pre) moved)"

definition ensure_submission_headers_in_place :: "rstr \<Rightarrow> rstr \<Rightarrow> rstr \<Rightarrow> octets \<Rightarrow> octets" where
  "ensure_submission_headers_in_place uuid date domain d =
     (let found = scan_submission_headers (take (header_block_end d) d)
      in if fst found \<and> snd found then d
         else shift_in (build_prepended_headers uuid date domain found (line_ending d)) d)"

subsection \<open>Reading and writing fields\<close>

fun header_values_loop :: "rstr \<Rightarrow> rstr list \<Rightarrow> bool \<Rightarrow> octets list \<Rightarrow> rstr list" where
  "header_values_loop name values collecting [] = values"
| "header_values_loop name values collecting (line # ls) =
     (if is_continuation line
      then header_values_loop name
             (if collecting \<and> values \<noteq> []
              then butlast values @ [last values @ [32] @ trim (from_utf8_lossy line)] else values) collecting ls
      else case split_field line of
        None \<Rightarrow> header_values_loop name values False ls
      | Some (field, v) \<Rightarrow>
          if same_name field (utf8_encode name)
          then header_values_loop name (values @ [trim (from_utf8_lossy v)]) True ls
          else header_values_loop name values False ls)"

definition header_values :: "octets \<Rightarrow> rstr \<Rightarrow> rstr list" where
  "header_values d name = map trim (header_values_loop name [] False (lf_lines (take (header_block_end d) d)))"

fun crlf_to_lf :: "rstr \<Rightarrow> rstr" where
  "crlf_to_lf (a # b # cs) = (if a = 13 \<and> b = 10 then 10 # crlf_to_lf cs else a # crlf_to_lf (b # cs))"
| "crlf_to_lf cs = cs"

definition prepend_header_block :: "rstr \<Rightarrow> octets \<Rightarrow> octets" where
  "prepend_header_block lines d =
     (if lines = [] then d
      else shift_in (utf8_encode (if line_ending d = [10] then crlf_to_lf lines else lines)) d)"

definition in_namespace :: "octets \<Rightarrow> octets \<Rightarrow> bool" where
  "in_namespace field namespace \<longleftrightarrow> name_matches field namespace \<or> name_starts_with field (namespace @ [45])"

definition strip_headers_with_namespace :: "octets \<Rightarrow> octets \<Rightarrow> octets" where
  "strip_headers_with_namespace d name = rewrite_header_block (\<lambda>_ field. ((), \<not> in_namespace field name)) () d"

text \<open>\<open>score\<close> is the printed score.\<close>

definition inject_spam_headers :: "rstr \<Rightarrow> octets \<Rightarrow> octets" where
  "inject_spam_headers score d =
     utf8_encode (lit ''X-Spam-Status: Yes'' @ [13, 10] @ lit ''X-Spam-Score: '' @ score @ [13, 10])
     @ take (header_block_end d) d @ drop (header_block_end d) d"

subsection \<open>The class\<close>

datatype mail_class = Transactional | Marketing | Personal

fun strictness :: "mail_class \<Rightarrow> nat" where
  "strictness Personal = 0"
| "strictness Marketing = 1"
| "strictness Transactional = 2"

fun class_str :: "mail_class \<Rightarrow> rstr" where
  "class_str Transactional = lit ''transactional''"
| "class_str Marketing = lit ''marketing''"
| "class_str Personal = lit ''personal''"

record class_sources =
  cs_explicit :: "mail_class option"
  cs_credential :: "mail_class option"
  cs_account :: "mail_class option"

definition granted :: "class_sources \<Rightarrow> mail_class" where
  "granted cs =
     (let floor = (if cs_credential cs \<noteq> None then cs_credential cs else cs_account cs)
      in case (cs_explicit cs, floor) of
           (Some asked, Some fl) \<Rightarrow> if strictness asked < strictness fl then fl else asked
         | (Some asked, None) \<Rightarrow> asked
         | (None, Some fl) \<Rightarrow> fl
         | (None, None) \<Rightarrow> Personal)"

definition class_resolve :: "class_sources \<Rightarrow> octets \<Rightarrow> mail_class \<times> octets" where
  "class_resolve cs d =
     (granted cs, if header_values d (lit ''Epistle-Class'') \<noteq> [] then strip_headers_in_place d [lit ''Epistle-Class''] else d)"

subsection \<open>Composed fields\<close>

definition breaks :: "rstr \<Rightarrow> bool" where
  "breaks v = list_ex (\<lambda>c. is_control c \<and> c \<noteq> 9) v"

fun fold_words :: "nat \<Rightarrow> nat \<Rightarrow> rstr list \<Rightarrow> rstr" where
  "fold_words start column [] = []"
| "fold_words start column (word # ws) =
     (let folded = (column + 1 + slen word > 78 \<and> column > start);
          column = (if folded then 0 else column)
      in (if folded then [13, 10] else []) @ [32] @ word @ fold_words start (column + 1 + slen word) ws)"

definition fold_field :: "rstr \<Rightarrow> rstr \<Rightarrow> rstr" where
  "fold_field name v = name @ lit '':'' @ fold_words (slen name + 1) (slen name + 1) (split_on 32 v) @ [13, 10]"

definition structured :: "rstr \<Rightarrow> rstr \<Rightarrow> rstr option" where
  "structured name v = (if breaks v \<or> \<not> list_all is_ascii v then None else Some (fold_field name v))"

definition push_field :: "rstr \<Rightarrow> rstr option \<Rightarrow> rstr" where
  "push_field lines header = (case header of Some h \<Rightarrow> lines @ h | None \<Rightarrow> lines)"

definition mailto_uri :: "(rstr \<Rightarrow> rstr) \<Rightarrow> rstr \<Rightarrow> rstr" where
  "mailto_uri pct address = lit ''<mailto:'' @ pct address @ lit ''>''"

definition mailto_unsubscribe :: "(rstr \<Rightarrow> rstr) \<Rightarrow> rstr \<Rightarrow> rstr" where
  "mailto_unsubscribe pct address = lit ''<mailto:'' @ pct address @ lit ''?subject=unsubscribe>''"

definition usable_list_id :: "rstr \<Rightarrow> bool" where
  "usable_list_id v \<longleftrightarrow> trim v \<noteq> []
     \<and> list_all (\<lambda>atom. atom \<noteq> [] \<and> list_all (\<lambda>c. is_alnum c \<or> c \<in> set ATEXT) atom) (split_on 46 v)"

definition list_of :: "unicode_ops \<Rightarrow> directory \<Rightarrow> rstr \<Rightarrow> (rstr \<times> rstr) option" where
  "list_of U d address =
     (let address = normalize_address U address
      in case map_of (d_aliases d) address of
           None \<Rightarrow> None
         | Some spec \<Rightarrow> map_option (\<lambda>list_id. (address, list_id)) (as_list_id spec))"

definition list_identity :: "unicode_ops \<Rightarrow> (rstr \<Rightarrow> rstr) \<Rightarrow> directory \<Rightarrow> rstr \<Rightarrow> rstr option" where
  "list_identity U pct d address = (case list_of U d address of
       None \<Rightarrow> None
     | Some (address, list_id) \<Rightarrow>
         if \<not> usable_list_id list_id then None
         else case structured (lit ''List-Id'') (lit ''<'' @ list_id @ lit ''>'') of
           None \<Rightarrow> None
         | Some identity \<Rightarrow>
             map_option (\<lambda>post. identity @ post) (structured (lit ''List-Post'') (mailto_uri pct address)))"

definition list_unsubscribe :: "unicode_ops \<Rightarrow> (rstr \<Rightarrow> rstr) \<Rightarrow> directory \<Rightarrow> rstr \<Rightarrow> rstr option" where
  "list_unsubscribe U pct d address = (case list_of U d address of
       None \<Rightarrow> None
     | Some (address, _) \<Rightarrow> structured (lit ''List-Unsubscribe'') (mailto_unsubscribe pct address))"

subsection \<open>Identification headers\<close>

record id_policy =
  ip_feedback_id :: bool
  ip_bulk_unsubscribe :: bool
  ip_bulk_recipients :: nat
  ip_list_id :: bool
  ip_system_auto_submitted :: bool
  ip_x_epistle :: bool
  ip_organization :: bool
  ip_domain_organization :: "(rstr \<times> rstr) list"

definition IDENTIFICATION_FIELDS :: "rstr list" where
  "IDENTIFICATION_FIELDS = [lit ''feedback-id'', lit ''list-id'', lit ''list-post'', lit ''list-unsubscribe'',
     lit ''list-unsubscribe-post'', lit ''organization'']"

definition is_bulk :: "mail_class \<Rightarrow> nat \<Rightarrow> nat \<Rightarrow> bool" where
  "is_bulk class recipients threshold \<longleftrightarrow> class = Transactional \<and> recipients > threshold"

definition sending_domain :: "(octets \<Rightarrow> rstr list) \<Rightarrow> octets \<Rightarrow> rstr \<Rightarrow> rstr" where
  "sending_domain mailboxes d sender = (case author_domain mailboxes d of
       OneAuthorDomain domain \<Rightarrow> domain
     | _ \<Rightarrow> (case rsplit_once 64 sender of Some (_, domain) \<Rightarrow> ascii_lower domain | None \<Rightarrow> []))"

definition carries :: "octets \<Rightarrow> rstr \<Rightarrow> bool" where
  "carries d name \<longleftrightarrow> header_values d name \<noteq> []"

text \<open>The readers and encoders of other crates that a submission goes through.\<close>

record readers =
  rd_unicode :: unicode_ops
  rd_reader :: "octets \<Rightarrow> nat \<times> nat \<times> nat"
  rd_mailboxes :: "octets \<Rightarrow> rstr list"
  rd_percent :: "rstr \<Rightarrow> rstr"

text \<open>The client's own claims go first; then the lines of the server, in the order of the code, while the
  message may lose fields they replace.\<close>

definition claims_stripped :: "octets \<Rightarrow> octets" where
  "claims_stripped d =
     keep_first_of_each_in_place
       (strip_headers_in_place (strip_headers_with_namespace d (olit ''X-Epistle'')) [lit ''authentication-results''])
       IDENTIFICATION_FIELDS"

definition organization_step :: "id_policy \<Rightarrow> rstr \<Rightarrow> rstr \<times> octets \<Rightarrow> rstr \<times> octets" where
  "organization_step P domain st = (case st of (lines, d) \<Rightarrow>
     (case (if ip_organization P then map_of (ip_domain_organization P) domain else None) of
        None \<Rightarrow> st
      | Some name \<Rightarrow>
          (push_field lines (structured (lit ''Organization'') name), strip_headers_in_place d [lit ''organization''])))"

definition feedback_step :: "id_policy \<Rightarrow> mail_class \<Rightarrow> rstr \<Rightarrow> rstr \<Rightarrow> rstr \<times> octets \<Rightarrow> rstr \<times> octets" where
  "feedback_step P class sender domain st = (case st of (lines, d) \<Rightarrow>
     if ip_feedback_id P \<and> sender \<noteq> [] \<and> \<not> carries d (lit ''feedback-id'')
     then (push_field lines (structured (lit ''Feedback-ID'') (lit ''epistle:'' @ class_str class @ lit '':'' @ domain)), d)
     else st)"

definition list_step :: "readers \<Rightarrow> id_policy \<Rightarrow> directory option \<Rightarrow> rstr \<Rightarrow> rstr \<times> octets \<Rightarrow> bool \<times> rstr \<times> octets" where
  "list_step R P dir sender st = (case st of (lines, d) \<Rightarrow>
     let unsubscribed = carries d (lit ''list-unsubscribe'')
     in case (if ip_list_id P then dir else None) of
          None \<Rightarrow> (unsubscribed, st)
        | Some D \<Rightarrow>
            (case list_identity (rd_unicode R) (rd_percent R) D sender of
               None \<Rightarrow> (unsubscribed, st)
             | Some identity \<Rightarrow>
                 let d = strip_headers_in_place d [lit ''list-id'', lit ''list-post''];
                     lines = lines @ identity
                 in case (if unsubscribed then None else list_unsubscribe (rd_unicode R) (rd_percent R) D sender) of
                      None \<Rightarrow> (unsubscribed, lines, d)
                    | Some unsubscribe \<Rightarrow>
                        (True, lines @ unsubscribe, strip_headers_in_place d [lit ''list-unsubscribe-post''])))"

definition bulk_step :: "readers \<Rightarrow> id_policy \<Rightarrow> mail_class \<Rightarrow> nat \<Rightarrow> rstr \<Rightarrow> bool \<times> rstr \<times> octets \<Rightarrow> rstr \<times> octets" where
  "bulk_step R P class recipients sender st = (case st of (unsubscribed, lines, d) \<Rightarrow>
     if ip_bulk_unsubscribe P \<and> \<not> unsubscribed \<and> is_bulk class recipients (ip_bulk_recipients P) \<and> sender \<noteq> []
     then (push_field lines (structured (lit ''List-Unsubscribe'') (mailto_unsubscribe (rd_percent R) sender)),
           strip_headers_in_place d [lit ''list-unsubscribe-post''])
     else (lines, d))"

definition id_apply :: "readers \<Rightarrow> mail_class \<Rightarrow> id_policy \<Rightarrow> directory option \<Rightarrow> accepted_message
    \<Rightarrow> marketing_refusal + accepted_message" where
  "id_apply R class P dir m =
     (case reject_ambiguous_headers (rd_reader R) (am_data m) of
        Inl refusal \<Rightarrow> Inl refusal
      | Inr _ \<Rightarrow>
          let sender = am_reverse_path m;
              domain = sending_domain (rd_mailboxes R) (am_data m) sender;
              lines = (if ip_x_epistle P then fold_field (lit ''X-Epistle'') (lit ''1'') else []);
              (lines, d) =
                bulk_step R P class (length (am_recipients m)) sender
                  (list_step R P dir sender
                    (feedback_step P class sender domain
                      (organization_step P domain (lines, claims_stripped (am_data m)))))
          in Inr (m\<lparr>am_data := prepend_header_block lines d\<rparr>))"

subsection \<open>Marketing mail\<close>

definition https_part :: "rstr \<Rightarrow> bool" where
  "https_part part = (case split_once 62 part of
       None \<Rightarrow> False
     | Some (uri, _) \<Rightarrow>
         slen uri > 8 \<and> (case split_at_octet 8 uri of None \<Rightarrow> False | Some (scheme, _) \<Rightarrow> eq_ignore_case scheme (lit ''https://'')))"

definition has_https_uri :: "rstr \<Rightarrow> bool" where
  "has_https_uri v = list_ex https_part (tl (split_on 60 v))"

definition marketing_check :: "octets \<Rightarrow> marketing_refusal + unit" where
  "marketing_check d =
     (if \<not> list_ex has_https_uri (header_values d (lit ''list-unsubscribe'')) then Inl NoUnsubscribeUri
      else if header_values d (lit ''list-unsubscribe-post'') = [lit ''List-Unsubscribe=One-Click''] then Inr ()
      else Inl NoOneClick)"

definition mark_bulk :: "octets \<Rightarrow> octets" where
  "mark_bulk d = olit ''Precedence: bulk'' @ [13, 10] @ strip_headers_in_place d [lit ''precedence'']"

subsection \<open>Preparing a submission\<close>

record prepared =
  pr_class :: mail_class
  pr_suppressed :: "rstr list"

text \<open>\<open>suppressed sender recipient\<close> is the suppression list, when it could be opened: on the global list or on
  the sender's.\<close>

definition normalised :: "(octets \<Rightarrow> nat \<times> nat \<times> nat) \<Rightarrow> octets \<Rightarrow> marketing_refusal + octets" where
  "normalised reader d =
     (case reject_ambiguous_headers reader d of
        Inl refusal \<Rightarrow> Inl refusal
      | Inr _ \<Rightarrow>
          if has_unframed_byte d then Inl AmbiguousLineFraming
          else if outbound_crlf d = d then Inr d
          else case reject_ambiguous_headers reader (outbound_crlf d) of
            Inl refusal \<Rightarrow> Inl refusal
          | Inr _ \<Rightarrow> Inr (outbound_crlf d))"

definition prepare :: "readers \<Rightarrow> class_sources \<Rightarrow> (rstr \<Rightarrow> rstr \<Rightarrow> bool) option \<Rightarrow> id_policy \<Rightarrow> directory option
    \<Rightarrow> accepted_message \<Rightarrow> marketing_refusal + (prepared \<times> accepted_message)" where
  "prepare R cs suppressed P dir m =
     (case normalised (rd_reader R) (am_data m) of
        Inl refusal \<Rightarrow> Inl refusal
      | Inr d \<Rightarrow>
          (case class_resolve cs d of
             (class, d) \<Rightarrow>
               (case id_apply R class P dir (m\<lparr>am_data := d\<rparr>) of
                  Inl refusal \<Rightarrow> Inl refusal
                | Inr m \<Rightarrow>
                    if class \<noteq> Marketing then Inr (\<lparr>pr_class = class, pr_suppressed = []\<rparr>, m)
                    else case marketing_check (am_data m) of
                      Inl refusal \<Rightarrow> Inl refusal
                    | Inr _ \<Rightarrow>
                        let blocked = (case suppressed of None \<Rightarrow> (\<lambda>_. False) | Some f \<Rightarrow> f (am_reverse_path m))
                        in Inr (\<lparr>pr_class = class, pr_suppressed = filter blocked (am_recipients m)\<rparr>,
                                m\<lparr>am_data := mark_bulk (am_data m),
                                  am_recipients := filter (\<lambda>r. \<not> blocked r) (am_recipients m)\<rparr>))))"

subsection \<open>What a stamp leaves\<close>

lemma shift_in_eq [simp]: "shift_in pre d = pre @ d"
proof -
  have "drop (length pre) (copy_within 0 (length d) (length pre) (d @ replicate (length pre) 0)) = d"
    by (rule nth_equalityI) (auto simp: copy_within_def nth_append)
  then show ?thesis by (simp add: shift_in_def Let_def)
qed

lemma stamp_in_place_eq: "ensure_submission_headers_in_place uuid date domain d = ensure_submission_headers uuid date domain d"
  by (simp add: ensure_submission_headers_in_place_def ensure_submission_headers_def Let_def)

definition line_clear :: "rstr \<Rightarrow> bool" where
  "line_clear s \<longleftrightarrow> list_all (\<lambda>c. is_scalar c \<and> c \<noteq> 10 \<and> c \<noteq> 13) s"

lemma line_clear_append [simp]: "line_clear (a @ b) \<longleftrightarrow> line_clear a \<and> line_clear b"
  by (simp add: line_clear_def)

lemma encode_char_line:
  assumes "is_scalar c" "c \<noteq> 10" "c \<noteq> 13" shows "10 \<notin> set (encode_char c) \<and> 13 \<notin> set (encode_char c)"
  using assms(1) by (cases rule: encode_char_cases) (use assms(2,3) in auto)

lemma utf8_line_clear:
  assumes "line_clear s" "b \<in> set (utf8_encode s)"
  shows "b \<noteq> 10 \<and> b \<noteq> 13"
proof -
  obtain c n where c: "c \<in> set s" "n \<in> set (encode_char c)" "b = oct n"
    using assms(2) by (auto simp: utf8_encode_def)
  have sc: "is_scalar c" "c \<noteq> 10" "c \<noteq> 13" using assms(1) c(1) by (auto simp: line_clear_def list_all_iff)
  have "unat b = n" using unat_oct [OF encode_char_octets [OF sc(1) c(2)]] c(3) by simp
  then show ?thesis using encode_char_line [OF sc] c(2) by auto
qed

lemma split_by_strip:
  "split_by (\<lambda>b. b = 10) h = map (strip_last 10) (lf_lines h) @ (if h = [] \<or> last h = (10 :: 8 word) then [[]] else [])"
proof (induction h)
  case (Cons b h)
  have "l \<noteq> []" if "lf_lines h = l # ls" for l ls
    using lf_lines_ok [of h] that by simp
  then show ?case
    using Cons by (cases "lf_lines h") (auto simp: strip_last_def split: list.splits)
qed simp

lemma split_by_lf:
  "map strip_cr (split_by (\<lambda>b. b = 10) h) = map unterminated (lf_lines h) @ (if h = [] \<or> last h = 10 then [[]] else [])"
  by (simp add: split_by_strip unterminated_def strip_cr_def) (simp add: strip_last_def)

lemma scan_lines_blank: "scan_lines a b (ls @ [[]]) = scan_lines a b ls"
  by (induction ls arbitrary: a b) (auto simp: Let_def split: option.splits)

definition names_field :: "string \<Rightarrow> octets \<Rightarrow> bool" where
  "names_field s line \<longleftrightarrow> \<not> is_continuation line
     \<and> (case split_once 58 line of None \<Rightarrow> False | Some (name, _) \<Rightarrow> oct_name_is name s)"

lemma oct_name_is_length: "oct_name_is name s \<Longrightarrow> length name = length s"
  by (auto simp: oct_name_is_def olit_def dest: list_all2_lengthD)

lemma scan_lines_eq:
  "\<forall>l\<in>set ls. l \<noteq> [] \<Longrightarrow> scan_lines a b ls =
     (a \<or> list_ex (names_field ''message-id'') ls, b \<or> list_ex (names_field ''date'') ls)"
proof (induction ls arbitrary: a b)
  case (Cons l ls)
  have l: "l \<noteq> []" and rest: "\<forall>l\<in>set ls. l \<noteq> []" using Cons.prems by auto
  have excl: "\<not> (oct_name_is name ''message-id'' \<and> oct_name_is name ''date'')" for name
    by (auto dest!: oct_name_is_length)
  show ?case
  proof (cases "is_continuation l \<or> split_once 58 l = None")
    case True
    then show ?thesis using l Cons.IH [OF rest] by (auto simp: names_field_def)
  next
    case False
    then obtain name v where "\<not> is_continuation l" "split_once 58 l = Some (name, v)" by auto
    then show ?thesis
      using l Cons.IH [OF rest] excl [of name]
      by (cases "oct_name_is name ''message-id''"; cases "oct_name_is name ''date''") (simp_all add: names_field_def)
  qed
qed simp

lemma scan_submission_eq:
  "\<forall>l\<in>set (lf_lines h). unterminated l \<noteq> [] \<Longrightarrow> scan_submission_headers h =
     (list_ex (names_field ''message-id'' \<circ> unterminated) (lf_lines h), list_ex (names_field ''date'' \<circ> unterminated) (lf_lines h))"
  using scan_lines_eq [of "map unterminated (lf_lines h)" False False]
  by (auto simp: scan_submission_headers_def split_by_lf scan_lines_blank list_ex_iff)

lemma block_lines_prepend:
  "\<forall>l\<in>set ps. full_line l \<and> unterminated l \<noteq> [] \<Longrightarrow> block_lines (concat ps @ d) = ps @ block_lines d"
  by (simp add: block_lines_def lf_lines_full_concat takeWhile_append2)

lemma scan_block:
  "scan_submission_headers (take (header_block_end d) d) =
     (list_ex (names_field ''message-id'' \<circ> unterminated) (block_lines d), list_ex (names_field ''date'' \<circ> unterminated) (block_lines d))"
proof -
  have "\<forall>l\<in>set (block_lines d). unterminated l \<noteq> []"
    by (auto simp: block_lines_def dest: set_takeWhileD)
  then show ?thesis
    using scan_submission_eq [of "concat (block_lines d)"] by (simp add: take_drop_block lf_lines_block(2))
qed

lemma line_ending_cases: "line_ending d = [10] \<or> line_ending d = [13, 10]"
  by (simp add: line_ending_def Let_def)

lemma terminated_line:
  assumes "\<forall>b\<in>set x. b \<noteq> 10 \<and> b \<noteq> 13" "e = [10] \<or> e = [13, 10]"
  shows "full_line (x @ e) \<and> unterminated (x @ e) = x"
proof -
  have x: "10 \<notin> set x" "x = [] \<or> last x \<noteq> 13" using assms(1) last_in_set by blast+
  from assms(2) show ?thesis
  proof
    assume "e = [10]"
    then show ?thesis using x by (auto simp: full_line_def unterminated_def strip_last_def)
  next
    assume "e = [13, 10]"
    then show ?thesis using x(1) by (simp add: full_line_def unterminated_def strip_last_def butlast_append)
  qed
qed

definition stamp_lines :: "rstr \<Rightarrow> rstr \<Rightarrow> rstr \<Rightarrow> bool \<times> bool \<Rightarrow> octets \<Rightarrow> octets list" where
  "stamp_lines uuid date domain found ending =
     (if fst found then [] else [utf8_encode (lit ''Message-ID: <'' @ uuid @ [64] @ domain @ lit ''>'') @ ending])
     @ (if snd found then [] else [utf8_encode (lit ''Date: '' @ date) @ ending])"

lemma prepended_lines: "build_prepended_headers uuid date domain found ending = concat (stamp_lines uuid date domain found ending)"
  by (simp add: build_prepended_headers_def stamp_lines_def)

lemmas utf8_literal = utf8_encode_def encode_char_def lit_def oct_def

lemma stamp_lines_good:
  assumes "line_clear uuid" "line_clear date" "line_clear domain" "e = [10] \<or> e = [13, 10]"
  shows "\<forall>l\<in>set (stamp_lines uuid date domain found e). full_line l \<and> unterminated l \<noteq> []"
    "\<not> fst found \<Longrightarrow> list_ex (names_field ''message-id'' \<circ> unterminated) (stamp_lines uuid date domain found e)"
    "\<not> snd found \<Longrightarrow> list_ex (names_field ''date'' \<circ> unterminated) (stamp_lines uuid date domain found e)"
proof -
  define x where "x = utf8_encode (lit ''Message-ID: <'' @ uuid @ [64] @ domain @ lit ''>'')"
  define y where "y = utf8_encode (lit ''Date: '' @ date)"
  have "line_clear (lit ''Message-ID: <'' @ uuid @ [64] @ domain @ lit ''>'')" "line_clear (lit ''Date: '' @ date)"
    using assms(1-3) by (simp_all add: line_clear_def lit_def is_scalar_def)
  then have clear: "\<forall>b\<in>set x. b \<noteq> 10 \<and> b \<noteq> 13" "\<forall>b\<in>set y. b \<noteq> 10 \<and> b \<noteq> 13"
    using utf8_line_clear unfolding x_def y_def by blast+
  note tx = terminated_line [OF clear(1) assms(4)] and ty = terminated_line [OF clear(2) assms(4)]
  have names: "names_field ''message-id'' x" "names_field ''date'' y"
    by (simp_all add: x_def y_def names_field_def is_continuation_def oct_name_is_def olit_def oct_eq_ignore_case_def
        to_lower_def is_upper_def utf8_literal)
  then have "x \<noteq> []" "y \<noteq> []" by (auto simp: names_field_def)
  with tx ty names
  show "\<forall>l\<in>set (stamp_lines uuid date domain found e). full_line l \<and> unterminated l \<noteq> []"
    "\<not> fst found \<Longrightarrow> list_ex (names_field ''message-id'' \<circ> unterminated) (stamp_lines uuid date domain found e)"
    "\<not> snd found \<Longrightarrow> list_ex (names_field ''date'' \<circ> unterminated) (stamp_lines uuid date domain found e)"
    unfolding stamp_lines_def x_def [symmetric] y_def [symmetric] by auto
qed

text \<open>C38: Stamping a submission inside its buffer gives what the copying version gives; the result carries both a
  \<^verbatim>\<open>Message-ID\<close> and a \<^verbatim>\<open>Date\<close> field, everything the client sent follows the new lines unchanged, a message that has
  both is left alone, and stamping again changes nothing.\<close>

theorem submission_stamped:
  assumes "line_clear uuid" "line_clear date" "line_clear domain"
  shows "ensure_submission_headers_in_place uuid date domain d = ensure_submission_headers uuid date domain d
    \<and> (let r = ensure_submission_headers_in_place uuid date domain d
       in scan_submission_headers (take (header_block_end r) r) = (True, True)
          \<and> (\<exists>new. r = new @ d \<and> (scan_submission_headers (take (header_block_end d) d) = (True, True) \<longleftrightarrow> new = []))
          \<and> ensure_submission_headers_in_place uuid' date' domain' r = r)"
proof -
  define found where "found = scan_submission_headers (take (header_block_end d) d)"
  define ps where "ps = stamp_lines uuid date domain found (line_ending d)"
  define r where "r = ensure_submission_headers_in_place uuid date domain d"
  have r: "r = (if found = (True, True) then d else concat ps @ d)"
    by (cases found) (auto simp: r_def ensure_submission_headers_in_place_def Let_def found_def [symmetric] prepended_lines ps_def)
  note good = stamp_lines_good [OF assms line_ending_cases [of d], of found, folded ps_def]
  have scan: "scan_submission_headers (take (header_block_end r) r) = (True, True)"
  proof (cases "found = (True, True)")
    case False
    then have "block_lines r = ps @ block_lines d"
      using r block_lines_prepend [OF good(1)] by simp
    moreover have "list_ex (names_field ''message-id'' \<circ> unterminated) (ps @ block_lines d)"
      "list_ex (names_field ''date'' \<circ> unterminated) (ps @ block_lines d)"
      using good(2,3) found_def scan_block [of d] by auto
    ultimately show ?thesis by (simp add: scan_block)
  qed (use r found_def in simp)
  have "ps = [] \<longleftrightarrow> found = (True, True)"
    by (cases found) (auto simp: ps_def stamp_lines_def)
  moreover have "concat ps \<noteq> []" if "ps \<noteq> []"
    using that good(1) by (cases ps) (auto simp: full_line_def)
  ultimately have "\<exists>new. r = new @ d \<and> (found = (True, True) \<longleftrightarrow> new = [])"
    using r by (intro exI [of _ "if found = (True, True) then [] else concat ps"]) auto
  moreover have "ensure_submission_headers_in_place uuid' date' domain' r = r"
    using scan by (simp add: ensure_submission_headers_in_place_def)
  ultimately show ?thesis
    using scan stamp_in_place_eq [of uuid date domain d] unfolding Let_def r_def [symmetric] found_def [symmetric] by blast
qed

theorem submission_stamped_witness:
  "scan_submission_headers (take (header_block_end (ensure_submission_headers_in_place (lit ''u'') (lit ''today'') (lit ''b.org'') demo_from))
      (ensure_submission_headers_in_place (lit ''u'') (lit ''today'') (lit ''b.org'') demo_from)) = (True, True)"
proof -
  have "line_clear (lit ''u'')" "line_clear (lit ''today'')" "line_clear (lit ''b.org'')"
    by (simp_all add: line_clear_def lit_def is_scalar_def)
  then show ?thesis using submission_stamped unfolding Let_def by blast
qed

text \<open>The stamp reads field names more strictly than the other readers: a client that writes a blank before
  the colon gets a second \<^verbatim>\<open>Message-ID\<close>.\<close>

definition spaced_id :: octets where
  "spaced_id = olit ''Message-ID : <a@b>'' @ [13, 10] @ olit ''Date: now'' @ [13, 10, 13, 10]"

lemma spaced_message_id_doubled:
  "header_values spaced_id (lit ''Message-ID'') = [lit ''<a@b>'']
   \<and> header_values (ensure_submission_headers_in_place (lit ''u'') (lit ''now'') (lit ''b'') spaced_id) (lit ''Message-ID'')
     = [lit ''<u@b>'', lit ''<a@b>'']"
  by (simp add: spaced_id_def ensure_submission_headers_in_place_def header_values_def header_block_end_def
      split_at_blank_line_def unterminated_def strip_last_def olit_def utf8_eval utf8_literal trim_def trim_start_def trim_end_def
      is_whitespace_def is_ascii_whitespace_def scan_submission_headers_def strip_cr_def is_continuation_def oct_name_is_def
      oct_eq_ignore_case_def to_lower_def is_upper_def build_prepended_headers_def line_ending_def split_field_def
      fold_trailing_space_def trim_ascii_end_def oct_whitespace_def same_name_def Let_def)

subsection \<open>Line feeds on a submission\<close>

lemma line_clear_join: "line_clear sep \<Longrightarrow> list_all line_clear ws \<Longrightarrow> line_clear (join_with sep ws)"
  by (induction sep ws rule: join_with.induct) (auto simp: line_clear_def)

lemma line_clear_show_nat: "line_clear (show_nat n)"
  using show_nat_digits [of n] by (auto simp: line_clear_def list_all_iff is_digit_def is_scalar_def)

lemma line_clear_show_hex: "line_clear (show_hex n)"
proof (induction n rule: show_hex.induct)
  case (1 n)
  have "line_clear [hex_digit (n mod 16)]" "n < 16 \<Longrightarrow> line_clear [hex_digit n]"
    by (auto simp: line_clear_def hex_digit_def is_scalar_def)
  then show ?case using 1 by (subst show_hex.simps) simp
qed

lemma line_clear_show_ip: "line_clear (show_ip ip)"
proof -
  have v4: "line_clear (show_ipv4 a)" for a
    unfolding show_ipv4_def by (rule line_clear_join) (auto simp: list_all_iff line_clear_show_nat line_clear_def [of "[46]"] is_scalar_def)
  have gs: "line_clear (show_groups g)" for g
    unfolding show_groups_def by (rule line_clear_join) (auto simp: list_all_iff line_clear_show_hex line_clear_def [of "[58]"] is_scalar_def)
  have lits: "line_clear (lit ''::ffff:'')" "line_clear (lit ''::'')" by (simp_all add: line_clear_def lit_def is_scalar_def)
  show ?thesis
    using v4 gs lits by (simp add: show_ip_def show_ipv6_def Let_def split: ipaddr.splits prod.splits)
qed

definition crlf_line :: "rstr \<Rightarrow> octets" where
  "crlf_line x = utf8_encode x @ [13, 10]"

definition received_texts :: "rstr option \<Rightarrow> ipaddr option \<Rightarrow> rstr \<Rightarrow> bool \<Rightarrow> bool \<Rightarrow> bool \<Rightarrow> rstr \<Rightarrow> rstr list" where
  "received_texts helo peer hostname esmtp tls auth date =
     [lit ''Received: from '' @ (case helo of Some h \<Rightarrow> h | None \<Rightarrow> lit ''unknown'') @ lit '' (''
        @ (case peer of Some ip \<Rightarrow> [91] @ show_ip ip @ [93] | None \<Rightarrow> lit ''[unknown]'') @ lit '')'',
      [9] @ lit ''by '' @ hostname @ lit '' with '' @ received_protocol esmtp tls auth @ lit '';'',
      [9] @ date]"

abbreviation received_lines :: "rstr option \<Rightarrow> ipaddr option \<Rightarrow> rstr \<Rightarrow> bool \<Rightarrow> bool \<Rightarrow> bool \<Rightarrow> rstr \<Rightarrow> octets list" where
  "received_lines helo peer hostname esmtp tls auth date \<equiv>
     map crlf_line (received_texts helo peer hostname esmtp tls auth date)"

lemma received_header_lines:
  "utf8_encode (received_header helo peer hostname esmtp tls auth date)
   = concat (received_lines helo peer hostname esmtp tls auth date)"
proof -
  have nl: "utf8_encode (13 # 10 # xs) = 13 # 10 # utf8_encode xs" "utf8_encode (9 # xs) = 9 # utf8_encode xs" for xs
    by (simp_all add: utf8_encode_def encode_char_def oct_def)
  show ?thesis
    by (simp add: received_header_def received_texts_def crlf_line_def Let_def nl)
qed

lemma crlf_line_good: "line_clear x \<Longrightarrow> full_line (crlf_line x) \<and> unterminated (crlf_line x) = utf8_encode x"
  unfolding crlf_line_def using utf8_line_clear by (intro terminated_line) auto

lemma mixed_line_ends_refused:
  assumes "\<forall>l\<in>set ps. full_line l \<and> unterminated l \<noteq> []" "p \<in> set ps" "p = unterminated p @ [13, 10]"
    "full_line q" "q = unterminated q @ [10]" "unterminated q \<noteq> []"
  shows "\<exists>e. reject_ambiguous_headers reader (concat ps @ q @ d) = Inl e"
proof (rule ccontr)
  assume "\<not> ?thesis"
  then have "reject_ambiguous_headers reader (concat ps @ q @ d) = Inr ()"
    by (cases "reject_ambiguous_headers reader (concat ps @ q @ d)") auto
  then obtain has n m where "check_header_lines None (False, 0, 0) (lf_lines (concat ps @ q @ d)) = Inr (has, n, m)"
    by (auto simp: reject_ambiguous_headers_def split: sum.splits)
  from check_header_lines_Inr [OF this lf_lines_ok]
  obtain style where style: "\<forall>l\<in>set (block_lines (concat ps @ q @ d)). passed_line style l"
    unfolding block_lines_def by blast
  have "block_lines (concat ps @ q @ d) = ps @ q # block_lines d"
    using block_lines_prepend [OF assms(1), of "q @ d"] block_lines_prepend [of "[q]" d] assms(4,6) by simp
  then have pq: "passed_line style p" "passed_line style q" using style assms(2) by auto
  have "last p = 10" "last q = 10" by (subst assms(3), simp) (subst assms(5), simp)
  moreover have "p \<noteq> []" "q \<noteq> []" using assms(1,2,4) by (auto simp: full_line_def)
  ultimately have "10 \<in> set p" "10 \<in> set q" by (metis last_in_set)+
  then have "unterminated p @ style_octets style = unterminated p @ [13, 10]"
    "unterminated q @ style_octets style = unterminated q @ [10]"
    using pq assms(3,5) unfolding passed_line_def by argo+
  then show False by simp
qed

text \<open>A message whose first header line ends in a bare LF.\<close>

definition starts_with_lf_line :: "octets \<Rightarrow> bool" where
  "starts_with_lf_line d \<longleftrightarrow>
     (let first = takeWhile (\<lambda>b. b \<noteq> 10) d in 10 \<in> set d \<and> first \<noteq> [] \<and> last first \<noteq> 13)"

lemma starts_with_lf_line_split:
  assumes "starts_with_lf_line d"
  obtains q rest where "d = q @ rest" "full_line q" "q = unterminated q @ [10]" "unterminated q \<noteq> []"
proof -
  define x where "x = takeWhile (\<lambda>b. b \<noteq> 10) d"
  have x: "x \<noteq> []" "last x \<noteq> 13" "10 \<notin> set x"
    using assms set_takeWhileD unfolding starts_with_lf_line_def x_def Let_def by metis+
  have "10 \<in> set d" using assms by (simp add: starts_with_lf_line_def Let_def)
  then have "dropWhile (\<lambda>b. b \<noteq> 10) d = 10 # tl (dropWhile (\<lambda>b. b \<noteq> 10) d)"
    by (induction d) auto
  then have "d = (x @ [10]) @ tl (dropWhile (\<lambda>b. b \<noteq> 10) d)"
    unfolding x_def by (metis append.assoc append_Cons append_Nil takeWhile_dropWhile_id)
  moreover have "full_line (x @ [10])" "unterminated (x @ [10]) = x"
    using x by (simp_all add: full_line_def unterminated_def strip_last_def)
  ultimately show ?thesis using that x(1) by metis
qed


definition demo_readers :: readers where
  "demo_readers = \<lparr>rd_unicode = ascii_ops, rd_reader = (\<lambda>_. (1, 0, 2)), rd_mailboxes = demo_mailboxes, rd_percent = (\<lambda>s. s)\<rparr>"

definition demo_policy :: id_policy where
  "demo_policy = \<lparr>ip_feedback_id = True, ip_bulk_unsubscribe = True, ip_bulk_recipients = 20, ip_list_id = True,
     ip_system_auto_submitted = True, ip_x_epistle = False, ip_organization = True, ip_domain_organization = []\<rparr>"

definition demo_sources :: class_sources where
  "demo_sources = \<lparr>cs_explicit = None, cs_credential = None, cs_account = None\<rparr>"

definition demo_accepted :: accepted_message where
  "demo_accepted = \<lparr>am_reverse_path = lit ''a@b.org'', am_recipients = [lit ''c@d.org''], am_data = [], am_require_tls = False,
     am_mailbox = None, am_tlsrpt_verified = False, am_sender_verified = False, am_no_dsn = []\<rparr>"


subsection \<open>What a preparation keeps\<close>

lemma id_apply_keeps:
  "id_apply R class P dir m = Inr m' \<Longrightarrow> \<exists>d. m' = m\<lparr>am_data := d\<rparr>"
  by (auto simp: id_apply_def Let_def split: sum.splits prod.splits)

lemma prepare_keeps:
  assumes "prepare R cs suppressed P dir m = Inr (p, m')"
  shows "pr_class p = granted cs"
    "\<exists>d. m' = m\<lparr>am_data := d, am_recipients := filter (\<lambda>r. r \<notin> set (pr_suppressed p)) (am_recipients m)\<rparr>"
    "\<exists>u. normalised (rd_reader R) (am_data m) = Inr u"
proof -
  obtain d where d: "normalised (rd_reader R) (am_data m) = Inr d"
    using assms by (auto simp: prepare_def split: sum.splits)
  obtain k d2 where c: "class_resolve cs d = (k, d2)" by (cases "class_resolve cs d")
  then have g: "k = granted cs" by (simp add: class_resolve_def)
  obtain m1 where m1: "id_apply R k P dir (m\<lparr>am_data := d2\<rparr>) = Inr m1"
    using assms d c by (auto simp: prepare_def split: sum.splits)
  obtain d3 where d3: "m1 = m\<lparr>am_data := d3\<rparr>" using id_apply_keeps [OF m1] by auto
  have shape: "if k \<noteq> Marketing then p = \<lparr>pr_class = k, pr_suppressed = []\<rparr> \<and> m' = m1
      else (\<exists>f. p = \<lparr>pr_class = k, pr_suppressed = filter f (am_recipients m1)\<rparr>
        \<and> m' = m1\<lparr>am_data := mark_bulk (am_data m1), am_recipients := filter (\<lambda>r. \<not> f r) (am_recipients m1)\<rparr>)"
    using assms d c m1 by (auto simp: prepare_def Let_def split: sum.splits if_splits)
  show "pr_class p = granted cs" using shape g by (auto split: if_splits)
  show "\<exists>u. normalised (rd_reader R) (am_data m) = Inr u" using d by blast
  show "\<exists>d. m' = m\<lparr>am_data := d, am_recipients := filter (\<lambda>r. r \<notin> set (pr_suppressed p)) (am_recipients m)\<rparr>"
  proof (cases "k = Marketing")
    case True
    then obtain f where f: "p = \<lparr>pr_class = k, pr_suppressed = filter f (am_recipients m)\<rparr>"
      "m' = m1\<lparr>am_data := mark_bulk (am_data m1), am_recipients := filter (\<lambda>r. \<not> f r) (am_recipients m)\<rparr>"
      using shape d3 by auto
    have "filter (\<lambda>r. \<not> f r) (am_recipients m) = filter (\<lambda>r. r \<notin> set (pr_suppressed p)) (am_recipients m)"
      using f(1) by (auto intro!: filter_cong)
    then show ?thesis using f(2) d3 by (intro exI [of _ "mark_bulk (am_data m1)"]) simp
  next
    case False
    then show ?thesis using shape d3 by (intro exI [of _ d3]) simp
  qed
qed

end
