(* ===== verification/Greylist.thy ===== *)
theory Greylist
  imports Ip_Show
begin

section \<open>Greylisting\<close>

text \<open>
  \<^verbatim>\<open>src/src/antispam/greylist/mod.rs\<close>: the first delivery attempt of an unseen triplet of client, sender and
  recipient is deferred, a retry after the delay accepted. The decision depends on the store only through
  its answer; \<open>None\<close> is a store that cannot answer. The in-memory store is an association list.
\<close>

subsection \<open>The code\<close>

record triplet =
  tr_client_ip :: ipaddr
  tr_sender :: rstr
  tr_recipient :: rstr

definition triplet_key :: "triplet \<Rightarrow> rstr" where
  "triplet_key t = show_ip (tr_client_ip t) @ lit ''|'' @ ascii_lower (tr_sender t) @ lit ''|'' @ ascii_lower (tr_recipient t)"

datatype decision = GreyDefer | GreyAccept

text \<open>With the decision, whether the sighting is recorded.\<close>

definition greylist_decide :: "nat option option \<Rightarrow> nat \<Rightarrow> nat \<Rightarrow> decision \<times> bool" where
  "greylist_decide answer now delay_secs = (case answer of
       None \<Rightarrow> (GreyAccept, False)
     | Some None \<Rightarrow> (GreyDefer, True)
     | Some (Some first_seen) \<Rightarrow> (if now - first_seen \<ge> delay_secs then GreyAccept else GreyDefer, False))"

type_synonym memory_greylist = "(rstr \<times> nat) list"

definition greylist_record :: "rstr \<Rightarrow> nat \<Rightarrow> memory_greylist \<Rightarrow> memory_greylist" where
  "greylist_record key now entries = (if map_of entries key = None then (key, now) # entries else entries)"

definition greylist_prune :: "nat \<Rightarrow> nat \<Rightarrow> memory_greylist \<Rightarrow> memory_greylist" where
  "greylist_prune now max_age entries = filter (\<lambda>(_, first_seen). now - first_seen < max_age) entries"

definition memory_decide :: "triplet \<Rightarrow> nat \<Rightarrow> nat \<Rightarrow> memory_greylist \<Rightarrow> memory_greylist \<times> decision" where
  "memory_decide t now delay_secs entries =
     (case greylist_decide (Some (map_of entries (triplet_key t))) now delay_secs of
        (d, seen) \<Rightarrow> (if seen then greylist_record (triplet_key t) now entries else entries, d))"

subsection \<open>A sender that retries gets through\<close>

text \<open>What happens to the store between two attempts: attempts of any client, and sweeps.\<close>

datatype greylist_step = Attempt triplet nat nat | Sweep nat nat

fun greylist_step_run :: "greylist_step \<Rightarrow> memory_greylist \<Rightarrow> memory_greylist" where
  "greylist_step_run (Attempt t now delay_secs) entries = fst (memory_decide t now delay_secs entries)"
| "greylist_step_run (Sweep now max_age) entries = greylist_prune now max_age entries"

definition spares :: "nat \<Rightarrow> greylist_step \<Rightarrow> bool" where
  "spares first step = (case step of Attempt _ _ _ \<Rightarrow> True | Sweep now max_age \<Rightarrow> now - first < max_age)"

lemma map_of_filter_keep: "map_of es k = Some v \<Longrightarrow> P (k, v) \<Longrightarrow> map_of (filter P es) k = Some v"
  by (induction es) (auto split: if_splits)

lemma step_keeps_first:
  assumes "map_of entries key = Some first" "spares first step"
  shows "map_of (greylist_step_run step entries) key = Some first"
  using assms
  by (cases step)
    (auto simp: memory_decide_def greylist_decide_def greylist_record_def greylist_prune_def spares_def
      intro!: map_of_filter_keep split: option.splits)

lemma steps_keep_first:
  "map_of entries key = Some first \<Longrightarrow> list_all (spares first) steps \<Longrightarrow>
   map_of (fold greylist_step_run steps entries) key = Some first"
  by (induction steps arbitrary: entries) (auto simp: step_keeps_first)

text \<open>C40: The first attempt of a triplet is deferred. Whatever other attempts follow, and whatever sweeps that do
  not reach back to it, an attempt of the same triplet, in any letter case, is accepted exactly when the
  delay has passed since the first one: retrying early does not start the delay again.\<close>

theorem greylist_retry_accepted:
  assumes "map_of entries (triplet_key t) = None" "triplet_key t' = triplet_key t" "list_all (spares first) steps"
  shows "snd (memory_decide t first delay_secs entries) = GreyDefer
    \<and> (snd (memory_decide t' now delay_secs (fold greylist_step_run steps (fst (memory_decide t first delay_secs entries))))
         = GreyAccept \<longleftrightarrow> now - first \<ge> delay_secs)"
proof -
  have "map_of (fst (memory_decide t first delay_secs entries)) (triplet_key t) = Some first"
    using assms(1) by (simp add: memory_decide_def greylist_decide_def greylist_record_def)
  from steps_keep_first [OF this assms(3)] show ?thesis
    using assms(1,2) by (simp add: memory_decide_def greylist_decide_def)
qed

definition demo_triplet :: triplet where
  "demo_triplet = \<lparr>tr_client_ip = V4 16909060, tr_sender = lit ''a@b.org'', tr_recipient = lit ''c@d.org''\<rparr>"

theorem greylist_retry_accepted_witness:
  "snd (memory_decide demo_triplet 100 60 []) = GreyDefer
   \<and> snd (memory_decide demo_triplet 200 60
       (fold greylist_step_run [Attempt demo_triplet 110 60, Sweep 150 3600] (fst (memory_decide demo_triplet 100 60 []))))
     = GreyAccept"
  using greylist_retry_accepted [of "[]" demo_triplet demo_triplet 100 "[Attempt demo_triplet 110 60, Sweep 150 3600]" 60 200]
  by (simp add: spares_def)

end
