(* ===== verification/Delivery_Arm.thy ===== *)
theory Delivery_Arm
  imports Complex_Main Submission_Headers Dmarc Session_Auth Greylist
begin

section \<open>From the end of the data to the sink\<close>

text \<open>
  The screens and stamps of the delivery arm of \<^verbatim>\<open>src/src/smtp/server/run.rs\<close>, in its order, with
  \<^verbatim>\<open>dnsbl_check.rs\<close>, \<^verbatim>\<open>run_auth.rs\<close>, \<^verbatim>\<open>run_attachments.rs\<close>, \<^verbatim>\<open>run_band/mod.rs\<close>, \<^verbatim>\<open>run_class.rs\<close> and \<^verbatim>\<open>run_sent.rs\<close> of the
  same directory. The record \<open>server\<close> holds what the arm asks: the resolver, block lists, scanner, corpus
  and sink are objects behind traits or other services, and are functions here. Spam scores are rationals. What the
  arm tells the outside is a list of events; training, metrics and the DMARC report file leave no event.
\<close>

subsection \<open>What the arm asks\<close>

datatype screen = ScreenReject | ScreenFirstTime | ScreenKnown

datatype hook_verdict = HookAccept | HookReject | HookQuarantine | HookDefer | HookRefuse

datatype attachment_action = AttachDeliver | AttachFlag | AttachQuarantine | AttachReject

datatype sink_error =
  MailboxFull | Unavailable | VirusDetected rstr | AttachmentRefused | ScanUnavailable | ScanTooLarge
| EvidenceUnavailable | SinkTooManyHeaderFields | Gone

fun sink_reply :: "sink_error \<Rightarrow> reply" where
  "sink_reply MailboxFull = reply_single 552 (lit ''5.2.2 mailbox full'')"
| "sink_reply Unavailable = reply_single 451 (lit ''4.3.0 temporary storage failure, try again'')"
| "sink_reply Gone = reply_single 451 (lit ''4.3.0 temporary storage failure, try again'')"
| "sink_reply EvidenceUnavailable =
     reply_single 451 (lit ''4.3.0 transactional mail cannot be recorded as evidence right now, try again later'')"
| "sink_reply (VirusDetected signature) =
     reply_single 554 (lit ''5.7.1 message rejected: virus detected ('' @ signature @ lit '')'')"
| "sink_reply AttachmentRefused = reply_single 550 (lit ''5.7.1 attachment type not accepted'')"
| "sink_reply ScanUnavailable = reply_single 451 (lit ''4.7.1 content scan unavailable, try again later'')"
| "sink_reply ScanTooLarge = reply_single 552 (lit ''5.3.4 message too large for the content scan'')"
| "sink_reply SinkTooManyHeaderFields = reply_single 554 (lit ''5.6.0 too many header fields in this message'')"

record bayes =
  by_trusted :: "rstr \<Rightarrow> bool"
  by_score :: "rstr \<Rightarrow> octets \<Rightarrow> rat option"
  by_shown :: "rat \<Rightarrow> rstr"

record server =
  sv_hostname :: rstr
  sv_peer :: "ipaddr option"
  sv_directory :: directory
  sv_readers :: readers
  sv_headers :: "octets \<Rightarrow> (rstr \<times> octets option) list option"
  sv_now :: nat
  sv_date :: rstr
  sv_uuid :: rstr
  sv_octet :: nat
  sv_dns :: "dns option"
  sv_psl :: "rstr \<Rightarrow> rstr option"
  sv_dkim :: "octets \<Rightarrow> dkim_result list"
  sv_tlsrpt :: "octets \<Rightarrow> bool"
  sv_arc :: "(octets \<Rightarrow> rstr \<Rightarrow> rstr option) option"
  sv_listed_ip :: "(ipaddr \<Rightarrow> bool) option"
  sv_listed_domain :: "(rstr \<Rightarrow> bool) option"
  sv_listed_links :: "(octets \<Rightarrow> bool) option"
  sv_knows :: "(rstr \<Rightarrow> rstr \<Rightarrow> bool) option"
  sv_greylist :: "((rstr \<Rightarrow> nat option option) \<times> nat) option"
  sv_reputation :: "(rstr \<Rightarrow> screen) option"
  sv_hook :: "(octets \<Rightarrow> hook_verdict) option"
  sv_attachments :: "(octets \<Rightarrow> (attachment_action \<times> rstr option) option) option"
  sv_bayes :: "bayes option"
  sv_junk_at :: rat
  sv_reject_at :: "rat option"
  sv_llm :: "((rat \<Rightarrow> bool) \<times> (octets \<Rightarrow> hook_verdict option)) option"
  sv_subjectpass :: "((rstr option \<Rightarrow> rstr \<Rightarrow> rstr \<Rightarrow> bool) \<times> (rstr \<Rightarrow> rstr \<Rightarrow> rstr)) option"
  sv_classes :: "((rstr \<Rightarrow> mail_class option) \<times> (rstr \<Rightarrow> mail_class option)) option"
  sv_suppressed :: "(rstr \<Rightarrow> rstr \<Rightarrow> bool) option"
  sv_policy :: id_policy
  sv_submit :: "accepted_message \<Rightarrow> rstr \<Rightarrow> mail_class \<Rightarrow> sink_error option"
  sv_deliver :: "accepted_message \<Rightarrow> sink_error option"

datatype event =
  Sent reply
| Handed accepted_message
| Reported accepted_message
| SentCopy rstr octets
| Greylisted rstr nat
| TlsHandshake

abbreviation sv_unicode :: "server \<Rightarrow> unicode_ops" where
  "sv_unicode v \<equiv> rd_unicode (sv_readers v)"

subsection \<open>Screens before authentication\<close>

definition path_domain :: "rstr \<Rightarrow> rstr option" where
  "path_domain path = map_option (\<lambda>(_, d). ascii_lower d) (rsplit_once 64 path)"

datatype dnsbl_rejection = ClientIp | SenderDomain | UrlHost

fun dnsbl_reply :: "dnsbl_rejection \<Rightarrow> reply" where
  "dnsbl_reply ClientIp = reply_single 554 (lit ''5.7.1 client host blocked by DNS blocklist'')"
| "dnsbl_reply SenderDomain = reply_single 554 (lit ''5.7.1 sender domain blocked by DNS blocklist'')"
| "dnsbl_reply UrlHost = reply_single 554 (lit ''5.7.1 message body links blocked by DNS blocklist'')"

definition screen_dnsbl :: "server \<Rightarrow> session \<Rightarrow> accepted_message \<Rightarrow> dnsbl_rejection option" where
  "screen_dnsbl v s m =
     (if sv_dns v = None \<or> s_authenticated s \<noteq> None then None
      else if (case (sv_peer v, sv_listed_ip v) of (Some ip, Some listed) \<Rightarrow> listed ip | _ \<Rightarrow> False) then Some ClientIp
      else if (case (sv_listed_domain v, path_domain (am_reverse_path m)) of (Some listed, Some d) \<Rightarrow> listed d | _ \<Rightarrow> False)
      then Some SenderDomain
      else if (case sv_listed_links v of Some listed \<Rightarrow> listed (am_data m) | None \<Rightarrow> False) then Some UrlHost
      else None)"

definition local_accounts :: "server \<Rightarrow> rstr \<Rightarrow> rstr list" where
  "local_accounts v recipient = (case address_parse (sv_unicode v) recipient of
       Inl _ \<Rightarrow> []
     | Inr a \<Rightarrow> (case resolve (sv_unicode v) (sv_directory v) a of Account n \<Rightarrow> [n] | Alias ns \<Rightarrow> ns | _ \<Rightarrow> []))"

definition known_correspondent :: "server \<Rightarrow> accepted_message \<Rightarrow> bool" where
  "known_correspondent v m = (case sv_knows v of
       None \<Rightarrow> False
     | Some knows \<Rightarrow>
         am_reverse_path m \<noteq> []
         \<and> list_ex (\<lambda>r. list_ex (\<lambda>a. knows a (ascii_lower (am_reverse_path m))) (local_accounts v r)) (am_recipients m))"

definition greylist_screen :: "server \<Rightarrow> session \<Rightarrow> accepted_message \<Rightarrow> event list \<times> reply option" where
  "greylist_screen v s m =
     (case (if known_correspondent v m \<or> s_authenticated s \<noteq> None then None else sv_greylist v, sv_peer v, am_recipients m) of
        (Some (answer, delay_secs), Some ip, recipient # _) \<Rightarrow>
          let key = triplet_key \<lparr>tr_client_ip = ip, tr_sender = am_reverse_path m, tr_recipient = recipient\<rparr>;
              (d, seen) = greylist_decide (answer key) (sv_now v) delay_secs
          in (if seen then [Greylisted key (sv_now v)] else [],
              if d = GreyDefer then Some (reply_single 451 (lit ''4.7.1 greylisted, please retry shortly'')) else None)
      | _ \<Rightarrow> ([], None))"

subsection \<open>Sender authentication\<close>

definition sender_passed :: "(rstr \<Rightarrow> rstr option) \<Rightarrow> spf_outcome \<Rightarrow> rstr option \<Rightarrow> dkim_result list \<Rightarrow> bool" where
  "sender_passed psl spf envelope dkim = (case envelope of
       None \<Rightarrow> False
     | Some e \<Rightarrow>
         spf = SpfPass
         \<or> list_ex (\<lambda>k. dk_outcome k = DkimPass
              \<and> (case dk_domain k of None \<Rightarrow> False
                 | Some d \<Rightarrow> organizational_domain psl (ascii_lower d) = organizational_domain psl e)) dkim)"

definition dkim_methods :: "dkim_result list \<Rightarrow> rstr list" where
  "dkim_methods dkim =
     (if dkim = [] then [lit ''dkim=none'']
      else map (\<lambda>k. lit ''dkim='' @ dkim_str (dk_outcome k)
                   @ (case dk_domain k of None \<Rightarrow> [] | Some d \<Rightarrow> lit '' header.d='' @ d)) dkim)"

definition auth_methods :: "spf_outcome \<Rightarrow> rstr option \<Rightarrow> dkim_result list \<Rightarrow> dmarc_outcome \<Rightarrow> rstr option \<Rightarrow> rstr list" where
  "auth_methods spf domain dkim dmarc sender =
     [lit ''spf='' @ spf_str spf @ (case domain of None \<Rightarrow> [] | Some d \<Rightarrow> lit '' smtp.mailfrom='' @ d)]
     @ dkim_methods dkim
     @ [lit ''dmarc='' @ dmarc_str dmarc @ (case sender of None \<Rightarrow> [] | Some d \<Rightarrow> lit '' header.from='' @ d)]"

definition dmarc_of :: "server \<Rightarrow> dns \<Rightarrow> AuthorDomain \<Rightarrow> spf_outcome \<times> rstr option \<Rightarrow> dkim_result list \<Rightarrow> dmarc_outcome" where
  "dmarc_of v D a spf dkim = (case a of
       OneAuthorDomain d \<Rightarrow> dmarc_evaluate D (sv_psl v) (sv_octet v) d spf dkim
     | SeveralAuthorDomains \<Rightarrow> DmarcFail
     | NoAuthorDomain \<Rightarrow> DmarcPermError)"

text \<open>The trace headers and whether the sender passed, or the refusal.\<close>

definition authenticate_inbound :: "server \<Rightarrow> session \<Rightarrow> accepted_message \<Rightarrow> reply + (rstr \<times> bool)" where
  "authenticate_inbound v s m =
     (case (sv_dns v, sv_peer v, s_authenticated s) of
        (Some D, Some ip, None) \<Rightarrow>
          let domain = spf_domain (am_reverse_path m) (s_helo_domain s);
              spf = (case domain of
                       None \<Rightarrow> SpfNone
                     | Some d \<Rightarrow> snd (check_host D ip d (am_reverse_path m)
                                       (case s_helo_domain s of Some h \<Rightarrow> h | None \<Rightarrow> [])))
          in if spf = SpfFail then Inl (reply_single 550 (lit ''5.7.23 SPF validation failed''))
             else if spf = SpfTempError then Inl (reply_single 451 (lit ''4.4.3 SPF check temporarily failed''))
             else let dkim = sv_dkim v (am_data m);
                      a = author_domain (rd_mailboxes (sv_readers v)) (am_data m);
                      dmarc = dmarc_of v D a (spf, domain) dkim
                  in if dmarc = DmarcReject then Inl (reply_single 550 (lit ''5.7.1 rejected by DMARC policy''))
                     else if dmarc = DmarcTempError then Inl (reply_single 451 (lit ''4.4.3 DMARC check temporarily failed''))
                     else let methods = auth_methods spf domain dkim dmarc
                                (case a of OneAuthorDomain d \<Rightarrow> Some d | _ \<Rightarrow> None);
                              sealed = (case sv_arc v of
                                          None \<Rightarrow> None
                                        | Some seal \<Rightarrow> seal (am_data m) (join_with (lit ''; '') methods))
                          in Inr (lit ''Received-SPF: '' @ spf_str spf @ lit '' (domain of ''
                                    @ (case domain of Some d \<Rightarrow> d | None \<Rightarrow> lit ''unknown'') @ lit '') client-ip='' @ show_ip ip
                                    @ [13, 10]
                                  @ format_auth_results (sv_hostname v) methods
                                  @ (case sealed of Some h \<Rightarrow> h | None \<Rightarrow> []),
                                  sender_passed (sv_psl v) spf (path_domain (am_reverse_path m)) dkim)
      | _ \<Rightarrow> Inr ([], False))"

subsection \<open>Stripping and stamping\<close>

definition check_reserved_name :: "rstr \<Rightarrow> rstr \<Rightarrow> octets option \<Rightarrow> bool" where
  "check_reserved_name name hostname v =
     (let lower = ascii_lower (trim_end (dropWhile (\<lambda>c. c = 58 \<or> is_ascii_whitespace c) name))
      in if lower = lit ''authentication-results''
         then (case v of
                 None \<Rightarrow> True
               | Some bytes \<Rightarrow>
                   (case authserv_id bytes of
                      None \<Rightarrow> True
                    | Some ident \<Rightarrow> eq_ignore_case (without_dots ident) (without_dots hostname)))
         else lower \<in> {lit ''received-spf'', lit ''delivered-to'', lit ''return-path'', lit ''epistle-class'', lit ''x-epistle''}
              \<or> starts_with (lit ''x-spam-'') lower \<or> starts_with (lit ''x-epistle-'') lower)"

definition reserved_remaining :: "server \<Rightarrow> octets \<Rightarrow> bool" where
  "reserved_remaining v d = (case sv_headers v d of
       None \<Rightarrow> False
     | Some hs \<Rightarrow> list_ex (\<lambda>(name, bytes). check_reserved_name name (sv_hostname v) bytes) hs)"

definition stamp_submission :: "server \<Rightarrow> accepted_message \<Rightarrow> accepted_message" where
  "stamp_submission v m =
     (let domain = (case path_domain (am_reverse_path m) of Some d \<Rightarrow> d | None \<Rightarrow> ascii_lower (sv_hostname v));
          d = ensure_submission_headers_in_place (sv_uuid v) (sv_date v) domain (am_data m)
      in m\<lparr>am_data := strip_headers_in_place (strip_bcc_in_place d) [lit ''received'']\<rparr>)"

definition verify_marks :: "server \<Rightarrow> session \<Rightarrow> bool \<Rightarrow> accepted_message \<Rightarrow> accepted_message" where
  "verify_marks v s passed m =
     m\<lparr>am_sender_verified := (s_authenticated s \<noteq> None \<or> passed),
       am_tlsrpt_verified :=
         (if sv_dns v \<noteq> None
             \<and> list_ex (\<lambda>r. case split_once 64 r of None \<Rightarrow> False | Some (l, _) \<Rightarrow> eq_ignore_case l (lit ''tlsrpt'')) (am_recipients m)
          then sv_tlsrpt v (am_data m) else am_tlsrpt_verified m)\<rparr>"

definition trace_step :: "server \<Rightarrow> session \<Rightarrow> rstr \<Rightarrow> accepted_message \<Rightarrow> reply + accepted_message" where
  "trace_step v s auth_headers m =
     (let m = (if s_authenticated s = None then m\<lparr>am_data := strip_inbound (am_data m) (sv_hostname v)\<rparr> else m)
      in if s_authenticated s = None \<and> reserved_remaining v (am_data m)
         then Inl (reply_single 550 (lit ''5.7.1 trust field could not be removed before delivery''))
         else let header = received_header (s_helo_domain s) (sv_peer v) (sv_hostname v) (s_esmtp s) (s_tls_active s)
                    (s_authenticated s \<noteq> None) (sv_date v);
                  m = (if s_authenticated s \<noteq> None then stamp_submission v m else m)
              in Inr (m\<lparr>am_data := utf8_encode header @ utf8_encode auth_headers @ am_data m\<rparr>))"

subsection \<open>Content screens\<close>

definition to_rejects :: "accepted_message \<Rightarrow> accepted_message" where
  "to_rejects m = m\<lparr>am_mailbox := Some (lit ''Rejects'')\<rparr>"

definition reputation_screen :: "server \<Rightarrow> accepted_message \<Rightarrow> accepted_message" where
  "reputation_screen v m =
     (case (sv_reputation v, path_domain (am_reverse_path m)) of
        (Some screen, Some d) \<Rightarrow> if screen d = ScreenReject then to_rejects m else m
      | _ \<Rightarrow> m)"

definition scanner_screen :: "server \<Rightarrow> accepted_message \<Rightarrow> reply + accepted_message" where
  "scanner_screen v m = (case sv_hook v of
       None \<Rightarrow> Inr m
     | Some scan \<Rightarrow>
         (case scan (am_data m) of
            HookReject \<Rightarrow> Inl (reply_single 550 (lit ''5.7.1 rejected by scanner''))
          | HookQuarantine \<Rightarrow> Inr (to_rejects m)
          | HookDefer \<Rightarrow> Inl (reply_single 451 (lit ''4.7.1 content scan unavailable, try again later''))
          | HookRefuse \<Rightarrow> Inl (sink_reply ScanTooLarge)
          | HookAccept \<Rightarrow> Inr m))"

text \<open>The inspection answers nothing when it is busy, fails or takes too long; otherwise an action and the
  warning line, if there is one.\<close>

definition screen_attachments :: "server \<Rightarrow> accepted_message \<Rightarrow> reply + accepted_message" where
  "screen_attachments v m =
     (let d = strip_headers_in_place (am_data m) [lit ''X-Epistle-Attachment-Warning'']
      in case sv_attachments v of
           None \<Rightarrow> Inr (m\<lparr>am_data := d\<rparr>)
         | Some inspect \<Rightarrow>
             (case inspect d of
                None \<Rightarrow> Inl (reply_single 451 (lit ''4.7.1 content scan unavailable, try again later''))
              | Some (act, warning) \<Rightarrow>
                  if act = AttachReject then Inl (reply_single 550 (lit ''5.7.1 attachment type not accepted''))
                  else let d = strip_headers_in_place d [lit ''X-Epistle-Attachment-Warning''];
                           m = m\<lparr>am_data := (case warning of None \<Rightarrow> d | Some w \<Rightarrow> utf8_encode w @ d)\<rparr>
                       in Inr (if act = AttachQuarantine then to_rejects m else m)))"

text \<open>The only local account of an envelope, when it was addressed as itself.\<close>

fun scoring_loop :: "server \<Rightarrow> rstr option \<Rightarrow> rstr list \<Rightarrow> rstr option" where
  "scoring_loop v account [] = account"
| "scoring_loop v account (r # rs) =
     (case address_parse (sv_unicode v) r of
        Inl _ \<Rightarrow> scoring_loop v account rs
      | Inr a \<Rightarrow>
          (case resolve (sv_unicode v) (sv_directory v) a of
             Account n \<Rightarrow>
               (case account of
                  Some first \<Rightarrow> if first \<noteq> n then None else scoring_loop v account rs
                | None \<Rightarrow> scoring_loop v (Some n) rs)
           | Alias ns \<Rightarrow> if ns \<noteq> [] then None else scoring_loop v account rs
           | _ \<Rightarrow> scoring_loop v account rs))"

definition scoring_account :: "server \<Rightarrow> rstr list \<Rightarrow> rstr option" where
  "scoring_account v rs = scoring_loop v None rs"

definition SHARED :: rstr where
  "SHARED = []"

definition handle_bayes_thresholds :: "server \<Rightarrow> accepted_message \<Rightarrow> reply + accepted_message" where
  "handle_bayes_thresholds v m = (case sv_bayes v of
       None \<Rightarrow> Inr m
     | Some b \<Rightarrow>
         if am_reverse_path m = [] \<or> am_mailbox m \<noteq> None then Inr m
         else let own = (case scoring_account v (am_recipients m) of
                           Some n \<Rightarrow> if by_trusted b n then Some n else None
                         | None \<Rightarrow> None);
                  scope = (case own of Some n \<Rightarrow> n | None \<Rightarrow> SHARED);
                  reject_active = (case sv_reject_at v of Some r \<Rightarrow> r \<le> 1 | None \<Rightarrow> False)
              in if own = None \<and> \<not> by_trusted b scope then Inr m
                 else if sv_junk_at v \<ge> 1 \<and> \<not> reject_active then Inr m
                 else case by_score b scope (am_data m) of
                   None \<Rightarrow> Inr m
                 | Some score \<Rightarrow>
                     if (case sv_reject_at v of Some r \<Rightarrow> score \<ge> r | None \<Rightarrow> False)
                     then Inl (reply_single 550 (lit ''5.7.1 message rejected as spam''))
                     else if score \<ge> sv_junk_at v
                     then Inr (m\<lparr>am_data := inject_spam_headers (by_shown b score) (am_data m), am_mailbox := Some (lit ''Junk'')\<rparr>)
                     else Inr m)"

definition subject_prefix :: rstr where
  "subject_prefix = lit ''subject:''"

text \<open>\<^verbatim>\<open>header_value\<close> of \<^verbatim>\<open>src/src/antispam/subjectpass/mod.rs\<close> for the subject.\<close>

fun crlf_lines :: "rstr \<Rightarrow> rstr list" where
  "crlf_lines (a # b # cs) =
     (if a = 13 \<and> b = 10 then [13, 10] # crlf_lines cs
      else case crlf_lines (b # cs) of [] \<Rightarrow> [[a]] | l # ls \<Rightarrow> (a # l) # ls)"
| "crlf_lines [a] = [[a]]"
| "crlf_lines [] = []"

fun subject_line :: "rstr list \<Rightarrow> rstr option" where
  "subject_line [] = None"
| "subject_line (l # ls) =
     (if starts_with subject_prefix (ascii_lower l)
      then Some (trim (drop (length subject_prefix) l)
                 @ concat (map (\<lambda>c. 32 # trim c) (takeWhile (\<lambda>c. c \<noteq> [] \<and> (hd c = 32 \<or> hd c = 9)) ls)))
      else subject_line ls)"

definition subject_of :: "octets \<Rightarrow> rstr option" where
  "subject_of d =
     (let end_at = (case find_crlfcrlf d of Some i \<Rightarrow> i + 2 | None \<Rightarrow> length d)
      in case from_utf8 (take end_at d) of None \<Rightarrow> None | Some t \<Rightarrow> subject_line (crlf_lines t))"

definition challenge_reply :: "(rstr \<Rightarrow> rstr \<Rightarrow> rstr) \<Rightarrow> rstr \<Rightarrow> rstr \<Rightarrow> reply" where
  "challenge_reply issue sender recipient =
     reply_single 550 (lit ''5.7.1 this message needs a human; resend it with '' @ issue sender recipient
       @ lit '' anywhere in the subject'')"

definition consulted :: "hook_verdict option \<Rightarrow> accepted_message \<Rightarrow> accepted_message" where
  "consulted verdict m = (if verdict = Some HookQuarantine then to_rejects m else m)"

definition handle_uncertain_band :: "server \<Rightarrow> accepted_message \<Rightarrow> reply + accepted_message" where
  "handle_uncertain_band v m = (case sv_bayes v of
       None \<Rightarrow> Inr m
     | Some b \<Rightarrow>
         if am_reverse_path m = [] \<or> am_mailbox m \<noteq> None then Inr m
         else case by_score b (case scoring_account v (am_recipients m) of Some n \<Rightarrow> n | None \<Rightarrow> SHARED) (am_data m) of
           None \<Rightarrow> Inr m
         | Some score \<Rightarrow>
             if \<not> (case sv_llm v of Some (uncertain, _) \<Rightarrow> uncertain score | None \<Rightarrow> True) then Inr m
             else case sv_subjectpass v of
               None \<Rightarrow> Inr (case sv_llm v of None \<Rightarrow> m | Some (_, consult) \<Rightarrow> consulted (consult (am_data m)) m)
             | Some (accepts, issue) \<Rightarrow>
                 (let missing = List.find (\<lambda>r. \<not> accepts (subject_of (am_data m)) (am_reverse_path m) r) (am_recipients m)
                  in if am_recipients m \<noteq> [] \<and> missing = None then Inr m
                     else let challenge = challenge_reply issue (am_reverse_path m) (case missing of Some r \<Rightarrow> r | None \<Rightarrow> [])
                          in case sv_llm v of
                               None \<Rightarrow> Inl challenge
                             | Some (_, consult) \<Rightarrow>
                                 (case consult (am_data m) of
                                    None \<Rightarrow> Inl challenge
                                  | Some verdict \<Rightarrow> Inr (consulted (Some verdict) m))))"

definition content_screens :: "server \<Rightarrow> session \<Rightarrow> accepted_message \<Rightarrow> reply + accepted_message" where
  "content_screens v s m =
     (if s_authenticated s \<noteq> None then Inr m
      else case scanner_screen v (reputation_screen v m) of
        Inl r \<Rightarrow> Inl r
      | Inr m \<Rightarrow>
          (case screen_attachments v m of
             Inl r \<Rightarrow> Inl r
           | Inr m \<Rightarrow> (case handle_bayes_thresholds v m of Inl r \<Rightarrow> Inl r | Inr m \<Rightarrow> handle_uncertain_band v m)))"

subsection \<open>Handing the message on\<close>

definition app_password_hash :: "directory \<Rightarrow> rstr \<Rightarrow> rstr \<Rightarrow> rstr option" where
  "app_password_hash d account label = (case map_of (d_app_passwords d) (ascii_lower account) of
       None \<Rightarrow> None
     | Some es \<Rightarrow> map_option ap_hash (List.find (\<lambda>e. ap_label e = label) es))"

definition prepare_submission :: "server \<Rightarrow> session \<Rightarrow> rstr \<Rightarrow> accepted_message \<Rightarrow> reply + (prepared \<times> accepted_message)" where
  "prepare_submission v s account m =
     (let cs = (case sv_classes v of
                  None \<Rightarrow> \<lparr>cs_explicit = None, cs_credential = None, cs_account = None\<rparr>
                | Some (of_credential, of_account) \<Rightarrow>
                    \<lparr>cs_explicit = None,
                     cs_credential = Option.bind (s_auth_label s)
                       (\<lambda>label. Option.bind (app_password_hash (sv_directory v) account label) of_credential),
                     cs_account = of_account account\<rparr>)
      in case prepare (sv_readers v) cs (sv_suppressed v) (sv_policy v) (Some (sv_directory v)) m of
           Inl refusal \<Rightarrow> Inl (refusal_reply refusal)
         | Inr r \<Rightarrow> Inr r)"

definition save_sent_enabled_for :: "server \<Rightarrow> session \<Rightarrow> bool" where
  "save_sent_enabled_for v s = (case s_authenticated s of
       None \<Rightarrow> False
     | Some account \<Rightarrow>
         (case Option.bind (s_auth_label s) (\<lambda>label. app_password_save_sent (sv_directory v) account (Some label)) of
            Some b \<Rightarrow> b
          | None \<Rightarrow> (case save_sent_for (sv_directory v) account of Some b \<Rightarrow> b | None \<Rightarrow> True)))"

text \<open>The events of the handover and the number of suppressed recipients, or the refusal.\<close>

definition hand_on :: "server \<Rightarrow> session \<Rightarrow> accepted_message \<Rightarrow> event list \<times> (reply + nat)" where
  "hand_on v s m = (case s_authenticated s of
       None \<Rightarrow>
         (case sv_deliver v m of Some e \<Rightarrow> ([], Inl (sink_reply e)) | None \<Rightarrow> ([Handed m], Inr 0))
     | Some account \<Rightarrow>
         (case prepare_submission v s account m of
            Inl r \<Rightarrow> ([], Inl r)
          | Inr (p, m) \<Rightarrow>
              if am_recipients m = []
              then ([], Inl (reply_single 550 (lit ''5.7.1 every recipient is on the suppression list'')))
              else case sv_submit v m account (pr_class p) of
                Some e \<Rightarrow> ([], Inl (sink_reply e))
              | None \<Rightarrow>
                  (Handed m # (if pr_class p \<noteq> Transactional \<and> save_sent_enabled_for v s then [SentCopy account (am_data m)] else []),
                   Inr (length (pr_suppressed p)))))"

definition inbound_screens :: "server \<Rightarrow> session \<Rightarrow> accepted_message \<Rightarrow> event list \<times> (reply + accepted_message)" where
  "inbound_screens v s m =
     (if refuse_padded_headers (am_data m) then ([], Inl (sink_reply SinkTooManyHeaderFields))
      else case screen_dnsbl v s m of
        Some rejection \<Rightarrow> ([], Inl (dnsbl_reply rejection))
      | None \<Rightarrow>
          (case greylist_screen v s m of
             (ev, Some r) \<Rightarrow> (ev, Inl r)
           | (ev, None) \<Rightarrow>
               (ev, case authenticate_inbound v s m of
                      Inl r \<Rightarrow> Inl r
                    | Inr (auth_headers, passed) \<Rightarrow>
                        (case trace_step v s auth_headers (verify_marks v s passed m) of
                           Inl r \<Rightarrow> Inl r
                         | Inr m \<Rightarrow> content_screens v s m))))"

definition accepted_reply :: "reply \<Rightarrow> nat \<Rightarrow> reply" where
  "accepted_reply r dropped =
     (if dropped = 0 then r
      else reply_single 250 (lit ''2.0.0 queued; '' @ show_nat dropped @ lit '' suppressed recipient''
             @ (if dropped = 1 then [] else lit ''s'') @ lit '' dropped''))"

definition deliver_message :: "server \<Rightarrow> session \<Rightarrow> accepted_message \<Rightarrow> event list \<times> (reply + nat)" where
  "deliver_message v s m = (case inbound_screens v s m of
       (ev, Inl r) \<Rightarrow> (ev, Inl r)
     | (ev, Inr m) \<Rightarrow> (case hand_on v s m of (ev', r) \<Rightarrow> (ev @ ev', r)))"

subsection \<open>What reaches the sink\<close>

definition same_envelope :: "accepted_message \<Rightarrow> accepted_message \<Rightarrow> bool" where
  "same_envelope m m' \<longleftrightarrow> am_reverse_path m' = am_reverse_path m \<and> am_recipients m' = am_recipients m
     \<and> am_require_tls m' = am_require_tls m \<and> am_no_dsn m' = am_no_dsn m
     \<and> am_sender_verified m' = am_sender_verified m"

lemma same_envelope_trans: "same_envelope a b \<Longrightarrow> same_envelope b c \<Longrightarrow> same_envelope a c"
  by (simp add: same_envelope_def)

lemma same_envelope_refl [simp]: "same_envelope m m"
  by (simp add: same_envelope_def)

lemma to_rejects_envelope [simp]: "same_envelope m (to_rejects m)"
  by (simp add: same_envelope_def to_rejects_def)

lemma reputation_envelope [simp]: "same_envelope m (reputation_screen v m)"
  by (simp add: reputation_screen_def split: option.splits)

lemma scanner_envelope: "scanner_screen v m = Inr m' \<Longrightarrow> same_envelope m m'"
  by (auto simp: scanner_screen_def split: option.splits hook_verdict.splits)

lemma attachments_envelope: "screen_attachments v m = Inr m' \<Longrightarrow> same_envelope m m'"
  by (auto simp: screen_attachments_def Let_def to_rejects_def same_envelope_def split: option.splits if_splits prod.splits)

lemma bayes_envelope: "handle_bayes_thresholds v m = Inr m' \<Longrightarrow> same_envelope m m'"
  by (auto simp: handle_bayes_thresholds_def Let_def same_envelope_def split: option.splits if_splits)

lemma consulted_envelope [simp]: "same_envelope m (consulted verdict m)"
  by (simp add: consulted_def)

lemma band_envelope: "handle_uncertain_band v m = Inr m' \<Longrightarrow> same_envelope m m'"
  by (auto simp: handle_uncertain_band_def Let_def split: option.splits if_splits prod.splits)

lemma content_screens_envelope:
  assumes "content_screens v s m = Inr m'"
  shows "same_envelope m m'"
proof (cases "s_authenticated s")
  case None
  obtain a b c where "scanner_screen v (reputation_screen v m) = Inr a" "screen_attachments v a = Inr b"
    "handle_bayes_thresholds v b = Inr c" "handle_uncertain_band v c = Inr m'"
    using assms None by (auto simp: content_screens_def split: sum.splits)
  then show ?thesis
    by (meson scanner_envelope attachments_envelope bayes_envelope band_envelope reputation_envelope same_envelope_trans)
qed (use assms in \<open>simp add: content_screens_def\<close>)

lemma trace_step_envelope: "trace_step v s h m = Inr m' \<Longrightarrow> same_envelope m m'"
  by (auto simp: trace_step_def Let_def stamp_submission_def same_envelope_def split: if_splits)

lemma inbound_screens_Inr:
  assumes "inbound_screens v s m = (ev, Inr m')"
  obtains auth_headers passed where "screen_dnsbl v s m = None" "authenticate_inbound v s m = Inr (auth_headers, passed)"
    "\<not> refuse_padded_headers (am_data m)"
    "am_reverse_path m' = am_reverse_path m" "am_recipients m' = am_recipients m"
    "am_sender_verified m' \<longleftrightarrow> s_authenticated s \<noteq> None \<or> passed"
    "\<exists>d. trace_step v s auth_headers (verify_marks v s passed m) = Inr d \<and> content_screens v s d = Inr m'"
proof -
  obtain h p d where st: "screen_dnsbl v s m = None" "authenticate_inbound v s m = Inr (h, p)" "\<not> refuse_padded_headers (am_data m)"
    "trace_step v s h (verify_marks v s p m) = Inr d" "content_screens v s d = Inr m'"
    using assms by (auto simp: inbound_screens_def split: if_splits option.splits prod.splits sum.splits)
  have "same_envelope (verify_marks v s p m) m'"
    using same_envelope_trans [OF trace_step_envelope [OF st(4)] content_screens_envelope [OF st(5)]] .
  then show ?thesis
    using that [OF st(1-3)] st(4,5) by (auto simp: same_envelope_def verify_marks_def)
qed

definition quiet :: "event \<Rightarrow> bool" where
  "quiet e \<longleftrightarrow> (case e of Greylisted _ _ \<Rightarrow> True | _ \<Rightarrow> False)"

lemma inbound_screens_events: "inbound_screens v s m = (ev, r) \<Longrightarrow> list_all quiet ev"
  by (auto simp: inbound_screens_def greylist_screen_def quiet_def Let_def split: if_splits option.splits prod.splits list.splits)

lemma hand_on_Inr:
  assumes "hand_on v s m = (ev, Inr n)"
  obtains m' copies where "ev = Handed m' # copies" "am_reverse_path m' = am_reverse_path m"
    "set (am_recipients m') \<subseteq> set (am_recipients m)" "am_sender_verified m' = am_sender_verified m"
    "\<forall>e\<in>set copies. \<exists>a d. e = SentCopy a d \<and> s_authenticated s = Some a"
    "s_authenticated s = None \<Longrightarrow> m' = m" "s_authenticated s \<noteq> None \<Longrightarrow> am_recipients m' \<noteq> []"
proof (cases "s_authenticated s")
  case None
  then show ?thesis
    using assms that [of m "[]"] by (auto simp: hand_on_def split: option.splits)
next
  case (Some account)
  obtain p m' where p: "prepare_submission v s account m = Inr (p, m')" and ne: "am_recipients m' \<noteq> []"
    and ev: "ev = Handed m' # (if pr_class p \<noteq> Transactional \<and> save_sent_enabled_for v s then [SentCopy account (am_data m')] else [])"
    using assms Some by (auto simp: hand_on_def split: option.splits sum.splits prod.splits if_splits)
  from p obtain cs where "prepare (sv_readers v) cs (sv_suppressed v) (sv_policy v) (Some (sv_directory v)) m = Inr (p, m')"
    by (auto simp: prepare_submission_def Let_def split: sum.splits)
  from prepare_keeps(2) [OF this] obtain d where
    "m' = m\<lparr>am_data := d, am_recipients := filter (\<lambda>r. r \<notin> set (pr_suppressed p)) (am_recipients m)\<rparr>" by blast
  then show ?thesis
    using that [of m' "if pr_class p \<noteq> Transactional \<and> save_sent_enabled_for v s then [SentCopy account (am_data m')] else []"]
      ev Some ne by auto
qed

text \<open>One message at most reaches the sink, and only when the arm accepts.\<close>

lemma deliver_message_cases:
  assumes "deliver_message v s m = (ev, r)"
  obtains (refused) reply where "r = Inl reply" "list_all quiet ev"
  | (taken) quiet_ev m' copies n d where "r = Inr n" "ev = quiet_ev @ Handed m' # copies" "list_all quiet quiet_ev"
    "inbound_screens v s m = (quiet_ev, Inr d)" "hand_on v s d = (Handed m' # copies, Inr n)"
    "am_reverse_path m' = am_reverse_path m" "set (am_recipients m') \<subseteq> set (am_recipients m)"
    "\<forall>e\<in>set copies. \<exists>a x. e = SentCopy a x \<and> s_authenticated s = Some a"
proof -
  obtain ev1 r1 where i: "inbound_screens v s m = (ev1, r1)" by (cases "inbound_screens v s m")
  note q = inbound_screens_events [OF i]
  show ?thesis
  proof (cases r1)
    case (Inl reply)
    then show ?thesis using assms i q refused [of reply] by (simp add: deliver_message_def)
  next
    case (Inr d)
    obtain ev2 r2 where h: "hand_on v s d = (ev2, r2)" by (cases "hand_on v s d")
    then have ev: "ev = ev1 @ ev2" "r = r2" using assms i Inr by (simp_all add: deliver_message_def)
    show ?thesis
    proof (cases r2)
      case (Inl reply)
      then have "ev2 = []"
        using h by (auto simp: hand_on_def split: option.splits sum.splits prod.splits if_splits)
      then show ?thesis using ev q Inl refused by simp
    next
      case (Inr n)
      have env: "am_reverse_path d = am_reverse_path m" "am_recipients d = am_recipients m"
        using i \<open>r1 = Inr d\<close> by (auto elim: inbound_screens_Inr)
      from hand_on_Inr [OF h [unfolded Inr]] obtain m' copies where
        "ev2 = Handed m' # copies" "am_reverse_path m' = am_reverse_path d" "set (am_recipients m') \<subseteq> set (am_recipients d)"
        "\<forall>e\<in>set copies. \<exists>a x. e = SentCopy a x \<and> s_authenticated s = Some a" by metis
      then show ?thesis
        using taken [of n ev1 m' copies d] ev q i h env Inr \<open>r1 = Inr d\<close> by simp
    qed
  qed
qed

definition spf_of :: "dns \<Rightarrow> ipaddr \<Rightarrow> session \<Rightarrow> accepted_message \<Rightarrow> spf_outcome" where
  "spf_of D ip s m = (case spf_domain (am_reverse_path m) (s_helo_domain s) of
       None \<Rightarrow> SpfNone
     | Some d \<Rightarrow> snd (check_host D ip d (am_reverse_path m) (case s_helo_domain s of Some h \<Rightarrow> h | None \<Rightarrow> [])))"

definition dmarc_verdict :: "server \<Rightarrow> dns \<Rightarrow> ipaddr \<Rightarrow> session \<Rightarrow> accepted_message \<Rightarrow> dmarc_outcome" where
  "dmarc_verdict v D ip s m =
     dmarc_of v D (author_domain (rd_mailboxes (sv_readers v)) (am_data m))
       (spf_of D ip s m, spf_domain (am_reverse_path m) (s_helo_domain s)) (sv_dkim v (am_data m))"

lemma authenticate_inbound_Inr:
  assumes "sv_dns v = Some D" "sv_peer v = Some ip" "s_authenticated s = None" "authenticate_inbound v s m = Inr (h, passed)"
  shows "spf_of D ip s m \<notin> {SpfFail, SpfTempError}" "dmarc_verdict v D ip s m \<notin> {DmarcReject, DmarcTempError}"
    "passed = sender_passed (sv_psl v) (spf_of D ip s m) (path_domain (am_reverse_path m)) (sv_dkim v (am_data m))"
  using assms unfolding authenticate_inbound_def spf_of_def [symmetric] dmarc_verdict_def [symmetric] Let_def
  by (auto simp: spf_of_def [symmetric] dmarc_verdict_def [symmetric] split: if_splits)


definition demo_server :: server where
  "demo_server = \<lparr>sv_hostname = lit ''mx.b.org'', sv_peer = Some (V4 16909060),
     sv_directory = directory_new ascii_ops [lit ''b.org''] [(lit ''a@b.org'', lit ''a'')],
     sv_readers = demo_readers, sv_headers = (\<lambda>_. None), sv_now = 0, sv_date = lit ''today'', sv_uuid = lit ''u'', sv_octet = 0,
     sv_dns = Some \<lparr>dns_txt = (\<lambda>_. Some []), dns_mx = (\<lambda>_. Some []), dns_addresses = (\<lambda>_. Some [])\<rparr>, sv_psl = (\<lambda>_. None),
     sv_dkim = (\<lambda>_. []), sv_tlsrpt = (\<lambda>_. False), sv_arc = None, sv_listed_ip = Some (\<lambda>_. False), sv_listed_domain = None,
     sv_listed_links = None, sv_knows = None, sv_greylist = None, sv_reputation = None, sv_hook = Some (\<lambda>_. HookAccept),
     sv_attachments = None, sv_bayes = None, sv_junk_at = 1, sv_reject_at = None, sv_llm = None, sv_subjectpass = None,
     sv_classes = None, sv_suppressed = None, sv_policy = demo_policy, sv_submit = (\<lambda>_ _ _. None), sv_deliver = (\<lambda>_. None)\<rparr>"

definition demo_visitor :: session where
  "demo_visitor = session_new ascii_ops (lit ''mx.b.org'')"

lemma demo_visitor_fields [simp]: "s_authenticated demo_visitor = None" "s_helo_domain demo_visitor = None"
  by (simp_all add: demo_visitor_def session_new_def)

definition demo_bounce :: accepted_message where
  "demo_bounce = demo_accepted\<lparr>am_reverse_path := [], am_recipients := [lit ''a@b.org'']\<rparr>"


end
