(* ===== verification/Smtp_Connection.thy ===== *)
theory Smtp_Connection
  imports Delivery_Arm
begin

section \<open>The SMTP connection loop\<close>

text \<open>
  \<^verbatim>\<open>Server::run\<close> of \<^verbatim>\<open>src/src/smtp/server/run.rs\<close> with the chunk readers of \<^verbatim>\<open>src/src/smtp/server/mod.rs\<close>: octets
  from the client go into the line decoder, each line goes to the session, and the session's action
  decides what is read next. One call of \<open>conn_line\<close> is one turn of the loop on a complete line;
  \<open>conn_octets\<close> is a read from the socket. Reading a chunk across several reads is a mode of the
  connection. Timeouts, the drain and the session clock are the step \<open>conn_close\<close>, which may happen at any
  time.
\<close>

subsection \<open>The code\<close>

datatype mode =
  ModeCommands
| ModeData
| ModeAuth
| ModeChunk nat bool octets
| ModeDiscard nat reply
| ModeClosed

record conn =
  cn_session :: session
  cn_decoder :: line_decoder
  cn_mode :: mode
  cn_error_streak :: nat

type_synonym turn = "conn \<times> world \<times> event list"

definition MAX_ERROR_STREAK :: nat where
  "MAX_ERROR_STREAK = 20"

definition conn_new :: "session \<Rightarrow> conn" where
  "conn_new s = \<lparr>cn_session = s, cn_decoder = ld_with_limit MAX_LINE_LENGTH, cn_mode = ModeCommands, cn_error_streak = 0\<rparr>"

text \<open>The session goes with the connection, and its claims on the memory budget with it.\<close>

definition conn_close :: "conn \<Rightarrow> world \<Rightarrow> conn \<times> world" where
  "conn_close c w =
     (let s = cn_session c
      in (c\<lparr>cn_mode := ModeClosed,
            cn_session := s\<lparr>s_state := Connected, s_chunk_reservation := res_none,
                            s_delivery_reservation := res_none\<rparr>\<rparr>,
          release (s_delivery_reservation s)
            (release (s_chunk_reservation s) (release (state_reserved (s_state s)) w))))"

definition close_with :: "reply \<Rightarrow> conn \<Rightarrow> world \<Rightarrow> turn" where
  "close_with r c w = (case conn_close c w of (c, w) \<Rightarrow> (c, w, [Sent r]))"

definition too_many_errors :: reply where
  "too_many_errors = reply_single 421 (lit ''4.7.0 too many errors, closing connection'')"

definition looping :: reply where
  "looping = reply_single 554 (lit ''5.4.6 too many hops, this message is looping'')"

definition deliver_arm :: "server \<Rightarrow> reply \<Rightarrow> accepted_message \<Rightarrow> conn \<Rightarrow> world \<Rightarrow> turn" where
  "deliver_arm v r m c w =
     (let (s, held) = take_delivery_reservation (cn_session c);
          (s, reports) = take_quota_reports s;
          (s, charge) = take_charge s;
          c = c\<lparr>cn_session := s\<rparr>;
          refunded = w\<lparr>w_limiters := pending_drop charge (w_limiters w)\<rparr>
      in case received_hop_count (am_data m) of
           None \<Rightarrow> (case conn_close c (release held refunded) of (c, w) \<Rightarrow> (c, w, []))
         | Some hops \<Rightarrow>
             if hops \<ge> RECEIVED_HOP_LIMIT then (c, release held refunded, [Sent looping])
             else case deliver_message v s m of
               (ev, Inl refusal) \<Rightarrow> (c, release held refunded, ev @ [Sent refusal])
             | (ev, Inr dropped) \<Rightarrow>
                 (c\<lparr>cn_session := message_delivered s\<rparr>, release held w,
                  ev @ map Reported reports @ [Sent (accepted_reply r dropped)]))"

definition dispatch_action :: "server \<Rightarrow> rstr option \<Rightarrow> action \<Rightarrow> conn \<Rightarrow> world \<Rightarrow> turn" where
  "dispatch_action v identity a c w =
     (case a of
        Continue r \<Rightarrow>
          if r_code r \<ge> 400 then
            (if cn_error_streak c + 1 \<ge> MAX_ERROR_STREAK then close_with too_many_errors c w
             else (c\<lparr>cn_error_streak := cn_error_streak c + 1\<rparr>, w, [Sent r]))
          else (c\<lparr>cn_error_streak := 0\<rparr>, w, [Sent r])
      | CollectData r \<Rightarrow> (c\<lparr>cn_mode := ModeData\<rparr>, w, [Sent r])
      | CollectAuthResponse r \<Rightarrow> (c\<lparr>cn_mode := ModeAuth\<rparr>, w, [Sent r])
      | Deliver r m \<Rightarrow> deliver_arm v r m c w
      | UpgradeTls r \<Rightarrow>
          (case tls_started ((cn_session c)\<lparr>s_client_identity := identity\<rparr>) w of
             (s, w) \<Rightarrow> (c\<lparr>cn_session := s, cn_decoder := ld_with_limit MAX_LINE_LENGTH\<rparr>, w, [Sent r, TlsHandshake]))
      | Close r \<Rightarrow> close_with r c w
      | CollectChunk _ _ \<Rightarrow> (c, w, [])
      | DiscardChunk _ _ \<Rightarrow> (c, w, []))"

definition discard_from :: "server \<Rightarrow> nat \<Rightarrow> reply \<Rightarrow> conn \<Rightarrow> world \<Rightarrow> turn" where
  "discard_from v left r c w =
     (if left = 0 then dispatch_action v None (Continue r) (c\<lparr>cn_mode := ModeCommands\<rparr>) w
      else (c\<lparr>cn_mode := ModeDiscard left r\<rparr>, w, []))"

text \<open>Octets of a chunk as they arrive: charged before they are kept; the chunk goes to the session
  when it is whole.\<close>

definition chunk_octets :: "server \<Rightarrow> senv \<Rightarrow> nat \<Rightarrow> bool \<Rightarrow> octets \<Rightarrow> octets
    \<Rightarrow> conn \<Rightarrow> world \<Rightarrow> turn" where
  "chunk_octets v e sz is_last have new c w =
     (case reserve_chunk (length new) (cn_session c) w of
        (s, w, False) \<Rightarrow>
          (case refuse_chunk s w of
             (s, w, a) \<Rightarrow>
               let left = sz - length have - length new;
                   (d, n) = ld_discard_buffered left (cn_decoder c)
               in discard_from v (left - n) budget_refusal (c\<lparr>cn_session := s, cn_decoder := d\<rparr>) w)
      | (s, w, True) \<Rightarrow>
          let chunk = have @ new; c = c\<lparr>cn_session := s\<rparr>
          in if length chunk < sz then (c\<lparr>cn_mode := ModeChunk sz is_last chunk\<rparr>, w, [])
             else (case bdat_chunk e chunk is_last s w of
                     (s, w, a) \<Rightarrow>
                       dispatch_action v None a (c\<lparr>cn_session := s, cn_mode := ModeCommands\<rparr>) w))"

definition resolve_action :: "server \<Rightarrow> senv \<Rightarrow> rstr option \<Rightarrow> action \<Rightarrow> conn \<Rightarrow> world \<Rightarrow> turn" where
  "resolve_action v e identity a c w =
     (case a of
        CollectChunk sz is_last \<Rightarrow>
          (case ld_take_buffered sz (cn_decoder c) of
             (d, got) \<Rightarrow> chunk_octets v e sz is_last [] got (c\<lparr>cn_decoder := d\<rparr>) w)
      | DiscardChunk sz r \<Rightarrow>
          (case ld_discard_buffered sz (cn_decoder c) of
             (d, n) \<Rightarrow> discard_from v (sz - n) r (c\<lparr>cn_decoder := d\<rparr>) w)
      | _ \<Rightarrow> dispatch_action v identity a c w)"

definition non_ascii_auth :: reply where
  "non_ascii_auth = reply_single 501 (lit ''5.5.2 non-ASCII in AUTH response'')"

definition line_outcome :: "senv \<Rightarrow> directory \<Rightarrow> octets \<Rightarrow> mode \<Rightarrow> session \<Rightarrow> world \<Rightarrow> session \<times> world \<times> action option" where
  "line_outcome e d line m s w =
     (case m of
        ModeData \<Rightarrow> data_line e line s w
      | ModeCommands \<Rightarrow>
          (case (case from_utf8 line of
                   None \<Rightarrow> unreadable_command s w
                 | Some text \<Rightarrow> command_line e text (with_directory d s) w) of
             (s, w, a) \<Rightarrow> (s, w, Some a))
      | ModeAuth \<Rightarrow>
          (case from_utf8 line of
             None \<Rightarrow> (s, w, Some (Close non_ascii_auth))
           | Some text \<Rightarrow> (case auth_line e text (with_directory d s) w of (s, w, a) \<Rightarrow> (s, w, Some a)))
      | _ \<Rightarrow> (s, w, None))"

definition conn_line :: "server \<Rightarrow> senv \<Rightarrow> directory \<Rightarrow> rstr option \<Rightarrow> octets \<Rightarrow> conn \<Rightarrow> world \<Rightarrow> turn" where
  "conn_line v e d identity line c w =
     (case line_outcome e d line (cn_mode c) (cn_session c) w of
        (s, w, None) \<Rightarrow> (c\<lparr>cn_session := s\<rparr>, w, [])
      | (s, w, Some a) \<Rightarrow>
          resolve_action v e identity a (c\<lparr>cn_session := s, cn_mode := ModeCommands\<rparr>) w)"

text \<open>A read of \<open>bytes\<close> from the socket: into the chunk being read, away with a refused one, or into the
  decoder; what a chunk leaves over is fed to the decoder.\<close>

definition conn_octets :: "server \<Rightarrow> senv \<Rightarrow> octets \<Rightarrow> conn \<Rightarrow> world \<Rightarrow> turn" where
  "conn_octets v e bytes c w =
     (case cn_mode c of
        ModeChunk sz is_last have \<Rightarrow>
          let need = sz - length have
          in chunk_octets v e sz is_last have (take need bytes)
               (c\<lparr>cn_decoder := ld_feed (drop need bytes) (cn_decoder c)\<rparr>) w
      | ModeDiscard left r \<Rightarrow>
          discard_from v (left - length bytes) r
            (c\<lparr>cn_decoder := ld_feed (drop left bytes) (cn_decoder c)\<rparr>) w
      | ModeClosed \<Rightarrow> (c, w, [])
      | _ \<Rightarrow> (c\<lparr>cn_decoder := ld_feed bytes (cn_decoder c)\<rparr>, w, []))"

definition reads_lines :: "mode \<Rightarrow> bool" where
  "reads_lines m = (case m of ModeCommands \<Rightarrow> True | ModeData \<Rightarrow> True | ModeAuth \<Rightarrow> True | _ \<Rightarrow> False)"

text \<open>One turn of the loop: the next line of the decoder, if there is one.\<close>

definition conn_turn :: "server \<Rightarrow> senv \<Rightarrow> directory \<Rightarrow> rstr option \<Rightarrow> conn \<Rightarrow> world \<Rightarrow> turn" where
  "conn_turn v e d identity c w =
     (if \<not> reads_lines (cn_mode c) then (c, w, [])
      else case next_line (cn_decoder c) of
        (dec, Inl err) \<Rightarrow> close_with (line_error_reply err) (c\<lparr>cn_decoder := dec\<rparr>) w
      | (dec, Inr None) \<Rightarrow> (c\<lparr>cn_decoder := dec\<rparr>, w, [])
      | (dec, Inr (Some line)) \<Rightarrow> conn_line v e d identity line (c\<lparr>cn_decoder := dec\<rparr>) w)"

end
