(* ===== verification/Session_Invariant.thy ===== *)
theory Session_Invariant
  imports Smtp_Connection
begin

section \<open>What a connection can do\<close>

text \<open>
  Invariants of a session and of the connection around it, over every sequence of reads, turns and
  directory reloads. \<open>D\<close> is the set of directories published while the connection lasts: a recipient
  was accepted by one of them, and a sender was found to be owned under one of them.
\<close>

subsection \<open>Replies\<close>

definition reply_good :: "reply \<Rightarrow> bool" where
  "reply_good r \<longleftrightarrow> reply_ok r \<and> list_all line_clean (r_lines r)"

lemma line_clean_lit [simp]: "line_clean (lit s) \<longleftrightarrow> list_all (\<lambda>c. of_char c \<noteq> (13 :: nat) \<and> of_char c \<noteq> (10 :: nat)) s"
  by (auto simp: line_clean_def lit_def list_all_iff)

lemma line_clean_append [simp]: "line_clean (a @ b) \<longleftrightarrow> line_clean a \<and> line_clean b"
  by (auto simp: line_clean_def)

lemma line_clean_Nil [simp]: "line_clean []"
  by (simp add: line_clean_def)

lemma line_clean_show_nat [simp]: "line_clean (show_nat n)"
  using show_nat_digits [of n] by (auto simp: line_clean_def list_all_iff is_digit_def)

lemma reply_good_single [simp]: "reply_good (reply_single c t) \<longleftrightarrow> 200 \<le> c \<and> c \<le> 599 \<and> line_clean t"
  by (simp add: reply_good_def reply_ok_def reply_single_def reply_new_def)

lemma good_replies [simp]:
  "reply_good reply_ok_250" "reply_good reply_closing" "reply_good syntax_error" "reply_good invalid_arguments"
  "reply_good bad_sequence" "reply_good vrfy_not_disclosed" "reply_good start_mail_input"
  "reply_good too_large" "reply_good rate_limited" "reply_good limited_reply" "reply_good budget_refusal"
  "reply_good invalid_credentials" "reply_good auth_successful" "reply_good too_much_junk"
  by (simp_all add: reply_defs too_large_def rate_limited_def RATE_LIMITED_def limited_reply_def
      budget_refusal_def invalid_credentials_def auth_successful_def too_much_junk_def)

lemma good_line_error [simp]: "reply_good (line_error_reply err)"
  by (cases err) (simp_all add: line_error_reply_def)

lemma good_parse_refusal [simp]: "reply_good (parse_refusal err)"
  by (cases err) (simp_all add: parse_refusal_def)

subsection \<open>The invariant\<close>

text \<open>The readers that stay the same through the life of a connection.\<close>

record kit =
  k_unicode :: unicode_ops
  k_reader :: "octets \<Rightarrow> nat \<times> nat \<times> nat"
  k_mailboxes :: "octets \<Rightarrow> rstr list"

definition env_ok :: "kit \<Rightarrow> senv \<Rightarrow> bool" where
  "env_ok U e \<longleftrightarrow> ae_unicode (e_auth e) = k_unicode U \<and> e_reader e = k_reader U \<and> e_mailboxes e = k_mailboxes U
     \<and> (\<forall>bs. line_clean (so_encode (e_scram e) bs))"

definition sender_ok :: "kit \<Rightarrow> directory set \<Rightarrow> rstr option \<Rightarrow> rstr \<Rightarrow> bool" where
  "sender_ok U D account path = (case account of
       None \<Rightarrow> path = [] \<or> (\<exists>a. address_parse (k_unicode U) path = Inr a)
     | Some acct \<Rightarrow> \<exists>a. \<exists>d\<in>D. address_parse (k_unicode U) path = Inr a \<and> owns_address (k_unicode U) d acct a)"

definition recipient_ok :: "kit \<Rightarrow> directory set \<Rightarrow> rstr option \<Rightarrow> rstr \<Rightarrow> bool" where
  "recipient_ok U D account r \<longleftrightarrow>
     (\<exists>raw a. \<exists>d\<in>D. address_parse (k_unicode U) raw = Inr a \<and> r = address_show a
        \<and> (case resolve (k_unicode U) d a of NotLocal \<Rightarrow> account \<noteq> None | UnknownUser \<Rightarrow> False | _ \<Rightarrow> True))"

text \<open>The parts of a session the invariant reads beside the state: who is signed in, the limits, TLS, and the
  name the server answers with.\<close>

record frame =
  f_account :: "rstr option"
  f_recipients :: nat
  f_octets :: nat
  f_tls :: bool
  f_protocol :: protocol
  f_tls_offered :: bool
  f_hostname :: rstr
  f_directory :: directory

definition frame_of :: "session \<Rightarrow> frame" where
  "frame_of s = \<lparr>f_account = s_authenticated s, f_recipients = s_max_recipients s,
     f_octets = s_max_message_size s, f_tls = s_tls_active s, f_protocol = s_auth_protocol s,
     f_tls_offered = s_tls_available s, f_hostname = s_hostname s, f_directory = s_directory s\<rparr>"

definition envelope_ok :: "kit \<Rightarrow> directory set \<Rightarrow> frame \<Rightarrow> accepted_message \<Rightarrow> bool" where
  "envelope_ok U D f m \<longleftrightarrow> sender_ok U D (f_account f) (am_reverse_path m)
     \<and> am_recipients m \<noteq> [] \<and> length (am_recipients m) \<le> max 1 (f_recipients f)
     \<and> (\<forall>r\<in>set (am_recipients m). recipient_ok U D (f_account f) r)
     \<and> length (am_data m) \<le> f_octets f
     \<and> (am_require_tls m \<longrightarrow> f_tls f)"

definition data_ok :: "kit \<Rightarrow> directory set \<Rightarrow> frame \<Rightarrow> receiving_data \<Rightarrow> bool" where
  "data_ok U D f t \<longleftrightarrow> envelope_ok U D f (message_of t) \<and> length (rd_body t) \<le> rd_size t"

fun state_ok :: "kit \<Rightarrow> directory set \<Rightarrow> frame \<Rightarrow> state \<Rightarrow> bool" where
  "state_ok U D f (ReceivingRecipients path require_tls) =
     (sender_ok U D (f_account f) path \<and> (require_tls \<longrightarrow> f_tls f))"
| "state_ok U D f (ReceivingData t) = data_ok U D f t"
| "state_ok U D f Connected = True"
| "state_ok U D f Greeted = True"

definition frame_ok :: "directory set \<Rightarrow> frame \<Rightarrow> bool" where
  "frame_ok D f \<longleftrightarrow> (\<forall>a. f_account f = Some a \<longrightarrow> f_tls f \<and> (\<exists>d\<in>D. \<exists>k. admit_login d a (f_protocol f) k))
     \<and> (f_tls f \<longrightarrow> \<not> f_tls_offered f) \<and> line_clean (f_hostname f)
     \<and> f_directory f \<in> D"

definition session_ok :: "kit \<Rightarrow> directory set \<Rightarrow> session \<Rightarrow> bool" where
  "session_ok U D s \<longleftrightarrow> frame_ok D (frame_of s) \<and> state_ok U D (frame_of s) (s_state s)"

definition author_ok :: "kit \<Rightarrow> directory set \<Rightarrow> rstr option \<Rightarrow> octets \<Rightarrow> bool" where
  "author_ok U D account body = (case account of
       None \<Rightarrow> True
     | Some acct \<Rightarrow> \<exists>raw a. \<exists>d\<in>D. reject_ambiguous_headers (k_reader U) body = Inr ()
         \<and> author (k_mailboxes U) body = AuthorAddresses [raw]
         \<and> address_parse (k_unicode U) raw = Inr a \<and> owns_address (k_unicode U) d acct a)"

definition message_ok :: "kit \<Rightarrow> directory set \<Rightarrow> frame \<Rightarrow> accepted_message \<Rightarrow> bool" where
  "message_ok U D f m \<longleftrightarrow> envelope_ok U D f m \<and> author_ok U D (f_account f) (am_data m)"

text \<open>What the session's action promises about the state it leaves.\<close>

definition awaiting_auth :: "session \<Rightarrow> bool" where
  "awaiting_auth s \<longleftrightarrow> s_authenticated s = None \<and> s_state s = Greeted \<and> s_tls_active s"

definition action_ok :: "kit \<Rightarrow> directory set \<Rightarrow> session \<Rightarrow> action \<Rightarrow> bool" where
  "action_ok U D s a = (case a of
       Continue r \<Rightarrow> reply_good r
     | CollectData r \<Rightarrow> reply_good r \<and> is_receiving_data (s_state s)
     | CollectChunk _ _ \<Rightarrow> is_receiving_data (s_state s)
     | DiscardChunk _ r \<Rightarrow> reply_good r
     | Deliver r m \<Rightarrow> reply_good r \<and> message_ok U D (frame_of s) m
     | UpgradeTls r \<Rightarrow> reply_good r \<and> s_authenticated s = None
     | CollectAuthResponse r \<Rightarrow> reply_good r \<and> awaiting_auth s
     | Close r \<Rightarrow> reply_good r)"

definition outcome_ok :: "kit \<Rightarrow> directory set \<Rightarrow> outcome \<Rightarrow> bool" where
  "outcome_ok U D out = (case out of (s, w, a) \<Rightarrow> session_ok U D s \<and> action_ok U D s a)"

lemmas inv_defs = outcome_ok_def session_ok_def action_ok_def frame_of_def frame_ok_def

subsection \<open>The state changes that keep it\<close>

lemma session_ok_frame:
  assumes "session_ok U D s" "frame_of s' = frame_of s" "s_state s' = s_state s"
  shows "session_ok U D s'"
  using assms by (simp add: session_ok_def)

lemma outcome_ok_frame:
  assumes "frame_of s' = frame_of s" "s_state s' = s_state s"
  shows "outcome_ok U D (s', w', a) = outcome_ok U D (s, w, a)"
proof -
  have "awaiting_auth s' = awaiting_auth s" "s_authenticated s' = s_authenticated s"
    using assms by (auto simp: awaiting_auth_def frame_of_def)
  then show ?thesis
    using assms by (simp add: outcome_ok_def session_ok_def action_ok_def split: action.split)
qed

lemma session_ok_Greeted: "session_ok U D s \<Longrightarrow> session_ok U D (s\<lparr>s_state := Greeted\<rparr>)"
  by (simp add: inv_defs)

lemma reset_ok:
  assumes "session_ok U D s" "reset s w = (s', w')"
  shows "session_ok U D s'" "s_authenticated s' = s_authenticated s"
    "s_state s' = (if s_state s = Connected then Connected else Greeted)" "s_tls_active s' = s_tls_active s"
  using assms by (auto simp: reset_def set_state_def Let_def inv_defs split: if_splits)

lemma outcome_ok_same: "session_ok U D s \<Longrightarrow> reply_good r \<Longrightarrow> outcome_ok U D (s, w, Continue r)"
  by (simp add: outcome_ok_def action_ok_def)

lemma greet_ok:
  assumes "session_ok U D s"
  shows "outcome_ok U D (greet domain esmtp s w)"
proof -
  have "line_clean (mechanism_name m)" for m
    by (cases m) (simp_all add: mechanism_name_def)
  then have "line_clean (auth_capability s)" for s
    by (auto simp: auth_capability_def line_clean_def lit_def)
  then show ?thesis
    using assms by (auto simp: greet_def set_state_def inv_defs reply_good_def reply_ok_def reply_new_def
        reply_single_def ehlo_lines_def Let_def)
qed

lemma start_tls_ok:
  assumes "session_ok U D s"
  shows "outcome_ok U D (start_tls s w)"
  using assms by (auto simp: start_tls_def inv_defs)

lemma data_ok_cmd: "session_ok U D s \<Longrightarrow> outcome_ok U D (data s w)"
  by (auto simp: data_def inv_defs is_receiving_data_def split: state.splits)

lemma sender_refusal_ok:
  assumes "env_ok U e" "s_directory s \<in> D"
  shows "sender_refusal e s path = None \<Longrightarrow> sender_ok U D (s_authenticated s) path"
    "sender_refusal e s path = Some r \<Longrightarrow> reply_good r"
  using assms by (auto simp: sender_refusal_def sender_ok_def env_ok_def split: option.splits sum.splits if_splits)

lemma check_inbound_good: "check_inbound p path ip now w = (w', Some r) \<Longrightarrow> reply_good r"
  by (auto simp: check_inbound_def Let_def split: option.splits prod.splits if_splits)

lemma mail_from_ok:
  assumes "session_ok U D s" "env_ok U e" "s_directory s \<in> D"
  shows "outcome_ok U D (mail_from e path sz require_tls s w)"
proof (cases "s_state s = Greeted \<and> \<not> (require_tls \<and> \<not> s_tls_active s)")
  case False
  then show ?thesis
    using assms(1) by (auto simp: mail_from_def intro!: outcome_ok_same)
next
  case ready: True
  show ?thesis
  proof (cases "sender_refusal e s path")
    case (Some r)
    then show ?thesis
      using ready assms(1) sender_refusal_ok(2) [OF assms(2,3) Some] by (simp add: mail_from_def outcome_ok_same)
  next
    case None
    have "session_ok U D (s\<lparr>s_state := ReceivingRecipients path require_tls\<rparr>)"
      using assms(1) ready sender_refusal_ok(1) [OF assms(2,3) None] by (auto simp: inv_defs)
    then show ?thesis
      using assms(1) ready None
      by (auto simp: mail_from_def set_state_def Let_def intro!: outcome_ok_same
          split: option.splits prod.splits if_splits dest: check_inbound_good)
  qed
qed

subsection \<open>Recipients and data\<close>

lemma rcpt_refusal_ok:
  assumes "env_ok U e" "s_directory s \<in> D" "address_parse (k_unicode U) raw = Inr a"
  shows "rcpt_refusal e s a = None \<Longrightarrow> recipient_ok U D (s_authenticated s) (address_show a)"
    "rcpt_refusal e s a = Some r \<Longrightarrow> reply_good r"
proof -
  have u: "ae_unicode (e_auth e) = k_unicode U"
    using assms(1) by (simp add: env_ok_def)
  show "recipient_ok U D (s_authenticated s) (address_show a)" if "rcpt_refusal e s a = None"
  proof -
    have "(case resolve (k_unicode U) (s_directory s) a of
        NotLocal \<Rightarrow> s_authenticated s \<noteq> None | UnknownUser \<Rightarrow> False | _ \<Rightarrow> True)"
      using that u by (auto simp: rcpt_refusal_def split: resolution.splits if_splits)
    then show ?thesis
      using assms(2,3) unfolding recipient_ok_def by blast
  qed
  show "reply_good r" if "rcpt_refusal e s a = Some r"
    using that by (auto simp: rcpt_refusal_def split: resolution.splits option.splits if_splits)
qed

lemma rcpt_to_ok:
  assumes ok: "session_ok U D s" and e: "env_ok U e" "s_directory s \<in> D"
  shows "outcome_ok U D (rcpt_to e path n s w)"
proof (cases "address_parse (k_unicode U) path")
  case (Inl err)
  have "ae_unicode (e_auth e) = k_unicode U"
    using e by (simp add: env_ok_def)
  then show ?thesis
    using ok Inl by (simp add: rcpt_to_def outcome_ok_same)
next
  case (Inr a)
  have u: "ae_unicode (e_auth e) = k_unicode U"
    using e by (simp add: env_ok_def)
  show ?thesis
  proof (cases "rcpt_refusal e s a")
    case (Some r)
    then show ?thesis
      using ok rcpt_refusal_ok(2) [OF e Inr Some] Inr u by (simp add: rcpt_to_def outcome_ok_same)
  next
    case None
    have rcpt: "recipient_ok U D (s_authenticated s) (address_show a)"
      using rcpt_refusal_ok(1) [OF e Inr None] .
    show ?thesis
    proof (cases "s_state s")
      case (ReceivingRecipients rp tls)
      then show ?thesis
        using ok rcpt None Inr u by (simp add: rcpt_to_def inv_defs data_ok_def envelope_ok_def message_of_def Let_def)
    next
      case (ReceivingData t)
      then show ?thesis
        using ok rcpt None Inr u by (auto simp: rcpt_to_def inv_defs data_ok_def envelope_ok_def message_of_def Let_def)
    qed (use ok in \<open>simp_all add: rcpt_to_def outcome_ok_same\<close>)
  qed
qed

lemma author_check_ok:
  assumes "env_ok U e" "s_directory s \<in> D"
  shows "author_check e s body = None \<Longrightarrow> author_ok U D (s_authenticated s) body"
    "author_check e s body = Some r \<Longrightarrow> reply_good r"
proof -
  show "author_ok U D (s_authenticated s) body" if none: "author_check e s body = None"
  proof (cases "s_authenticated s")
    case (Some acct)
    then obtain raw a where "reject_ambiguous_headers (e_reader e) body = Inr ()"
      "author (e_mailboxes e) body = AuthorAddresses [raw]"
      "address_parse (ae_unicode (e_auth e)) raw = Inr a"
      "owns_address (ae_unicode (e_auth e)) (s_directory s) acct a"
      using none by (auto simp: author_check_def split: option.splits Author.splits list.splits sum.splits if_splits)
    then show ?thesis
      using assms Some by (auto simp: author_ok_def env_ok_def)
  qed (simp add: author_ok_def)
  show "reply_good r" if some: "author_check e s body = Some r"
  proof (cases "reject_ambiguous_headers (e_reader e) body")
    case (Inl refusal)
    have "reply_good (refusal_reply refusal)"
      by (cases refusal) (simp_all add: refusal_reply_def)
    then show ?thesis
      using some Inl by (auto simp: author_check_def split: option.splits)
  next
    case (Inr u)
    then show ?thesis
      using some by (auto simp: author_check_def Let_def split: option.splits if_splits)
  qed
qed

lemma exclude_over_quota_frame:
  assumes "exclude_over_quota e s m full = (s', m')"
  shows "frame_of s' = frame_of s" "s_state s' = s_state s" "s_delivery_reservation s' = s_delivery_reservation s"
    "s_chunk_reservation s' = s_chunk_reservation s"
  using assms by (auto simp: exclude_over_quota_def push_quota_report_def frame_of_def Let_def
      split: if_splits option.splits)

lemma exclude_over_quota_message:
  assumes "exclude_over_quota e s m (filter P (am_recipients m)) = (s', Some m')" "message_ok U D f m"
  shows "message_ok U D f m'"
proof (cases "filter P (am_recipients m) = []")
  case True
  then show ?thesis using assms by (simp add: exclude_over_quota_def)
next
  case False
  define kept where "kept = filter (\<lambda>r. r \<notin> set (filter P (am_recipients m))) (am_recipients m)"
  have n: "length (filter P (am_recipients m)) \<noteq> length (am_recipients m)"
    and m': "m' = m\<lparr>am_recipients := kept\<rparr>"
    using assms(1) False by (auto simp: exclude_over_quota_def kept_def Let_def split: if_splits option.splits)
  have "\<exists>r\<in>set (am_recipients m). \<not> P r"
    using n by (metis filter_True)
  then have "kept \<noteq> []"
    by (auto simp: kept_def filter_empty_conv)
  moreover have "length kept \<le> length (am_recipients m)" "set kept \<subseteq> set (am_recipients m)"
    by (auto simp: kept_def)
  ultimately show ?thesis
    using assms(2) m' by (auto simp: message_ok_def envelope_ok_def)
qed

lemma split_over_quota_frame:
  assumes "split_over_quota e s m sz = (s', m')"
  shows "frame_of s' = frame_of s" "s_state s' = s_state s" "s_delivery_reservation s' = s_delivery_reservation s"
    "s_chunk_reservation s' = s_chunk_reservation s"
  using assms exclude_over_quota_frame by (auto simp: split_over_quota_def split: option.splits)

lemma split_over_quota_message:
  assumes "split_over_quota e s m sz = (s', Some m')" "message_ok U D f m"
  shows "message_ok U D f m'"
proof (cases "tp_quota (s_policy s)")
  case None
  then show ?thesis using assms by (simp add: split_over_quota_def)
next
  case (Some b)
  then show ?thesis
    using assms(1) exclude_over_quota_message [OF _ assms(2)]
    by (simp add: split_over_quota_def overflowing_def)
qed

subsection \<open>The end of the data\<close>

lemma inner_finalise_ok:
  assumes ok: "session_ok U D s" and e: "env_ok U e" "s_directory s \<in> D" and m: "envelope_ok U D (frame_of s) m"
  shows "outcome_ok U D (inner_finalise e s w m n exhausted r)"
proof (cases "exhausted \<or> n > s_max_message_size s")
  case True
  then show ?thesis
    using ok by (auto simp: inner_finalise_def intro!: outcome_ok_same)
next
  case sized: False
  show ?thesis
  proof (cases "author_check e s (am_data m)")
    case (Some q)
    then show ?thesis
      using ok sized author_check_ok(2) [OF e Some] by (simp add: inner_finalise_def outcome_ok_same)
  next
    case owned: None
    have msg: "message_ok U D (frame_of s) m"
      using m author_check_ok(1) [OF e owned] by (simp add: message_ok_def frame_of_def)
    obtain w1 charge where charge: "take_charge_of e s w (length (am_recipients m)) = (w1, charge)"
      by force
    obtain s1 kept where split: "split_over_quota e s m n = (s1, kept)"
      by force
    note frame = split_over_quota_frame [OF split]
    have ok1: "session_ok U D s1"
      using session_ok_frame [OF ok] frame by simp
    have deliver: "outcome_ok U D (s1\<lparr>s_policy := p, s_delivery_reservation := r\<rparr>, w2, Deliver reply_ok_250 m1)"
      if "kept = Some m1" for m1 p w2
    proof -
      have "message_ok U D (frame_of s1) m1"
        using split_over_quota_message [OF _ msg] split that frame by simp
      then show ?thesis
        using ok1 by (simp add: outcome_ok_def session_ok_def action_ok_def frame_of_def)
    qed
    show ?thesis
      using ok ok1 sized owned charge split deliver
      by (auto simp: inner_finalise_def cap_check_or_reply_def hold_charge_def Let_def intro!: outcome_ok_same
          split: option.splits sum.splits)
  qed
qed

lemma finalise_ok:
  assumes ok: "session_ok U D s" and e: "env_ok U e" "s_directory s \<in> D"
  shows "outcome_ok U D (finalise_from_state e s w)"
    "s_state s = ReceivingData t \<Longrightarrow> outcome_ok U D (finalise e s w (message_of t) (rd_size t))"
proof -
  have g: "session_ok U D (s\<lparr>s_state := Greeted\<rparr>)" "frame_of (s\<lparr>s_state := Greeted\<rparr>) = frame_of s"
    using ok by (simp_all add: session_ok_def frame_of_def)
  have t: "envelope_ok U D (frame_of s) (message_of t)" if "s_state s = ReceivingData t" for t
    using ok that by (simp add: session_ok_def data_ok_def)
  show "outcome_ok U D (finalise_from_state e s w)"
    using g e t by (auto simp: finalise_from_state_def intro!: inner_finalise_ok outcome_ok_same split: state.splits)
  show "outcome_ok U D (finalise e s w (message_of t) (rd_size t))" if "s_state s = ReceivingData t"
    using g e t that by (auto simp: finalise_def intro!: inner_finalise_ok)
qed

lemma data_line_ok:
  assumes ok: "session_ok U D s" and e: "env_ok U e" "s_directory s \<in> D" and line: "data_line e line s w = (s', w', a)"
  shows "a = Some b \<Longrightarrow> outcome_ok U D (s', w', b)"
    "a = None \<Longrightarrow> session_ok U D s' \<and> is_receiving_data (s_state s')"
proof -
  show "outcome_ok U D (s', w', b)" if "a = Some b"
    using line that finalise_ok(1) [OF ok e, of w] reset_ok(1) [OF ok]
    by (auto simp: data_line_def Let_def intro!: outcome_ok_same split: if_splits state.splits prod.splits)
  show "session_ok U D s' \<and> is_receiving_data (s_state s')" if none: "a = None"
  proof -
    obtain t where t: "s_state s = ReceivingData t" and more: "line \<noteq> [46]"
      using line none by (auto simp: data_line_def split: if_splits prod.splits state.splits)
    have "data_ok U D (frame_of s) t"
      using ok t by (simp add: session_ok_def)
    then show ?thesis
      using ok line none t more
      by (auto simp: data_line_def is_receiving_data_def session_ok_def frame_of_def data_ok_def envelope_ok_def
          message_of_def Let_def split: if_splits prod.splits option.splits)
  qed
qed

subsection \<open>Chunks\<close>

lemma bdat_ok:
  assumes ok: "session_ok U D s"
  shows "outcome_ok U D (bdat sz is_last s w)"
proof -
  have "outcome_ok U D (s', w', Close too_large) \<and> outcome_ok U D (s', w', DiscardChunk sz bad_sequence)"
    if "reset s w = (s', w')" for s' w'
    using reset_ok(1) [OF ok that] by (simp add: outcome_ok_def action_ok_def)
  moreover have "outcome_ok U D (s\<lparr>s_chunk_reservation := res_none\<rparr>, w', CollectChunk sz is_last)"
    if "s_state s = ReceivingData t" for w' t
    using ok that by (simp add: inv_defs is_receiving_data_def)
  ultimately show ?thesis
    by (auto simp: bdat_def Let_def split: state.splits prod.splits)
qed

lemma reserve_chunk_frame:
  assumes "reserve_chunk n s w = (s', w', b)"
  shows "frame_of s' = frame_of s" "s_state s' = s_state s" "s_directory s' = s_directory s"
    "s_delivery_reservation s' = s_delivery_reservation s"
  using assms by (auto simp: reserve_chunk_def frame_of_def split: prod.splits)

lemma refuse_chunk_ok:
  assumes "session_ok U D s"
  shows "outcome_ok U D (refuse_chunk s w)"
  using reset_ok(1) [OF assms] by (auto simp: refuse_chunk_def Let_def intro!: outcome_ok_same split: prod.splits)

lemma chunk_body_ok:
  assumes ok: "session_ok U D s" and t: "s_state s = ReceivingData t" and e: "env_ok U e" "s_directory s \<in> D"
  shows "outcome_ok U D (chunk_body e bytes is_last t s w)"
proof -
  have d: "data_ok U D (frame_of s) t"
    using ok t by (simp add: session_ok_def)
  have moved: "session_ok U D (s\<lparr>s_chunk_reservation := res_none, s_state := ReceivingData t'\<rparr>)"
    if "data_ok U D (frame_of s) t'" for t'
    using ok that by (simp add: session_ok_def frame_of_def)
  have grown: "data_ok U D (frame_of s) (t\<lparr>rd_chunking := True, rd_line_check := lc, rd_size := n,
      rd_body := b, rd_reserved := r\<rparr>)" if "length b \<le> n" "n \<le> s_max_message_size s" for lc n b r
    using d that by (simp add: data_ok_def envelope_ok_def message_of_def frame_of_def)
  have kept: "data_ok U D (frame_of s) (t\<lparr>rd_chunking := True, rd_line_check := lc\<rparr>)"
    "data_ok U D (frame_of s) (t\<lparr>rd_chunking := True, rd_line_check := lc, rd_size := rd_size t + n\<rparr>)" for lc n
    using d by (simp_all add: data_ok_def envelope_ok_def message_of_def)
  have size: "length (rd_body t) \<le> rd_size t"
    using d by (simp add: data_ok_def)
  have closed: "outcome_ok U D (s', w', Close (line_error_reply err)) \<and> outcome_ok U D (s', w', Continue too_large)"
    if "reset s1 w1 = (s', w1')" "session_ok U D s1" for s1 s' w1 w1' w' err
    using reset_ok(1) [OF that(2,1)] by (simp add: outcome_ok_def action_ok_def)
  obtain lc framing where framing: "(case lc_feed MAX_LINE_LENGTH bytes (rd_line_check t) of
      (lc, Inl err) \<Rightarrow> (lc, Inl err)
    | (lc, Inr u) \<Rightarrow> (lc, if is_last then lc_finish MAX_LINE_LENGTH lc else Inr u)) = (lc, framing)"
    by (rule prod.exhaust)
  define r where "r = (case w_memory w of
      None \<Rightarrow> (fst (absorb (rd_reserved t) (s_chunk_reservation s) (mb_with_cap 0)), w)
    | Some mb \<Rightarrow> (case absorb (rd_reserved t) (s_chunk_reservation s) mb of (r, mb) \<Rightarrow> (r, w\<lparr>w_memory := Some mb\<rparr>)))"
  define t' where "t' = t\<lparr>rd_chunking := True, rd_line_check := lc, rd_size := rd_size t + length bytes,
      rd_body := rd_body t @ bytes, rd_reserved := fst r\<rparr>"
  show ?thesis
  proof (cases framing)
    case (Inl err)
    then show ?thesis
      using framing closed [OF _ moved [OF kept(1)]]
      by (simp add: chunk_body_def split: prod.split)
  next
    case fine: (Inr u)
    show ?thesis
    proof (cases "s_max_message_size s < rd_size t + length bytes")
      case True
      then show ?thesis
        using framing fine closed [OF _ moved [OF kept(2)]]
        by (simp add: chunk_body_def split: prod.split)
    next
      case False
      then have new: "session_ok U D (s\<lparr>s_chunk_reservation := res_none, s_state := ReceivingData t'\<rparr>)"
        using moved [OF grown] size by (simp add: t'_def)
      have "chunk_body e bytes is_last t s w = (if \<not> is_last
          then (s\<lparr>s_chunk_reservation := res_none, s_state := ReceivingData t'\<rparr>, snd r,
                Continue (reply_single 250 (lit ''2.0.0 chunk received'')))
          else finalise e (s\<lparr>s_chunk_reservation := res_none, s_state := ReceivingData t'\<rparr>) (snd r) (message_of t') (rd_size t'))"
        using framing fine False
        by (cases "w_memory w") (simp_all add: chunk_body_def Let_def r_def t'_def split: prod.split)
      then show ?thesis
        using new finalise_ok(2) [OF new e(1)] e(2) by (simp add: outcome_ok_same)
    qed
  qed
qed

lemma bdat_chunk_ok:
  assumes ok: "session_ok U D s" and e: "env_ok U e" "s_directory s \<in> D"
  shows "outcome_ok U D (bdat_chunk e bytes is_last s w)"
proof -
  obtain s1 w1 charged where c: "(if length bytes - r_bytes (s_chunk_reservation s) > 0 \<and> is_receiving_data (s_state s)
      then reserve_chunk (length bytes - r_bytes (s_chunk_reservation s)) s w else (s, w, True)) = (s1, w1, charged)"
    using prod_cases3 by blast
  then have s1: "frame_of s1 = frame_of s" "s_state s1 = s_state s" "s_directory s1 = s_directory s"
    using reserve_chunk_frame by (auto split: if_splits)
  then have ok1: "session_ok U D s1" "s_directory s1 \<in> D"
    using session_ok_frame [OF ok] e by simp_all
  have "session_ok U D (s1\<lparr>s_chunk_reservation := res_none\<rparr>)"
    using ok1 by (simp add: session_ok_def frame_of_def)
  then show ?thesis
    using c ok1 e(1) chunk_body_ok [OF ok1(1)] refuse_chunk_ok [OF ok1(1)] reset_ok(1)
    by (auto simp: bdat_chunk_def Let_def intro!: outcome_ok_same split: state.split prod.split)
qed

subsection \<open>Authentication\<close>

text \<open>The fields an exchange keeps between its lines are outside the frame.\<close>

lemma auth_fail_ok: "session_ok U D s \<Longrightarrow> outcome_ok U D (auth_fail s w)"
  by (simp add: auth_fail_def auth_fail_counted_def inv_defs)

lemma scram_failure_ok: "session_ok U D s \<Longrightarrow> outcome_ok U D (scram_failure s w)"
  by (simp add: scram_failure_def auth_fail_ok session_ok_def frame_of_def)

lemma auth_busy_ok: "session_ok U D s \<Longrightarrow> outcome_ok U D (auth_busy s w)"
  by (simp add: auth_busy_def outcome_ok_same)

lemma admitted_ok:
  assumes "session_ok U D s" "awaiting_auth s" "d \<in> D" "admit_login d account (s_auth_protocol s) k"
  shows "outcome_ok U D (s\<lparr>s_authenticated := Some account\<rparr>, w, Continue auth_successful)"
    "outcome_ok U D (auth_success account label s w)"
  using assms by (auto simp: inv_defs awaiting_auth_def auth_success_def)

lemma challenge_ok:
  assumes "session_ok U D s" "awaiting_auth s" "line_clean text"
  shows "outcome_ok U D (s, w, challenge text)"
  using assms by (simp add: outcome_ok_def action_ok_def challenge_def)

lemma check_password_ok:
  assumes ok: "session_ok U D s" and a: "awaiting_auth s" and d: "s_directory s \<in> D"
  shows "outcome_ok U D (check_password e login password s w)"
proof -
  obtain v bans where v: "authenticate_verdict (e_auth e) (s_directory s) (w_bans w) login password (s_peer_ip s)
      (s_auth_protocol s) (e_clock e) (e_gate_full e) = (v, bans)"
    by force
  show ?thesis
  proof (cases v)
    case (Admitted account label)
    then have "admit_login (s_directory s) account (s_auth_protocol s) ProofPassword"
      using v verdict_admitted by blast
    then show ?thesis
      using v Admitted admitted_ok(2) [OF ok a d] by (simp add: check_password_def Let_def)
  qed (use v ok auth_fail_ok auth_busy_ok in \<open>simp_all add: check_password_def Let_def\<close>)
qed

lemma verify_plain_ok:
  assumes "session_ok U D s" "awaiting_auth s" "s_directory s \<in> D"
  shows "outcome_ok U D (verify_plain e text s w)"
  using assms check_password_ok auth_fail_ok by (auto simp: verify_plain_def split: sum.split)

lemma login_ok:
  assumes "session_ok U D s" "awaiting_auth s" "s_directory s \<in> D"
  shows "outcome_ok U D (login_username e text s w)" "outcome_ok U D (login_password e user text s w)"
proof -
  show "outcome_ok U D (login_password e user text s w)"
    using assms check_password_ok auth_fail_ok by (auto simp: login_password_def split: option.split)
  have "session_ok U D (s\<lparr>s_pending_login := x\<rparr>)" "awaiting_auth (s\<lparr>s_pending_login := x\<rparr>)" for x
    using assms by (simp_all add: session_ok_def frame_of_def awaiting_auth_def)
  then show "outcome_ok U D (login_username e text s w)"
    using assms auth_fail_ok by (auto simp: login_username_def intro!: challenge_ok split: option.split)
qed

lemma verify_external_ok:
  assumes "session_ok U D s" "awaiting_auth s" "s_directory s \<in> D"
  shows "outcome_ok U D (verify_external e text s w)"
proof (cases "external_account e text s")
  case None
  then show ?thesis using assms auth_fail_ok by (simp add: verify_external_def)
next
  case (Some account)
  then have "admit_login (s_directory s) account (s_auth_protocol s) ProofFederated"
    by (auto simp: external_account_def split: option.splits sum.splits if_splits)
  then show ?thesis
    using Some admitted_ok(2) [OF assms] by (simp add: verify_external_def)
qed

lemma oauth_bearer_ok:
  assumes "session_ok U D s" "awaiting_auth s" "s_directory s \<in> D"
  shows "outcome_ok U D (oauth_bearer e initial s w)"
proof -
  have "outcome_ok U D (s\<lparr>s_authenticated := Some account\<rparr>, w, Continue auth_successful)"
    if "oauth_account e attested initial s = Some account" for attested account
    using that admitted_ok(1) [OF assms] by (auto simp: oauth_account_def split: option.splits if_splits)
  moreover have "outcome_ok U D (s, w, Continue (reply_single 504 (lit ''5.5.4 mechanism not supported'')))"
    using assms by (simp add: outcome_ok_same)
  ultimately show ?thesis
    using assms auth_fail_ok by (auto simp: oauth_bearer_def split: option.split)
qed

lemma pending_ok:
  assumes "session_ok U D s" "awaiting_auth s"
  shows "session_ok U D (s\<lparr>s_pending_scram := x\<rparr>)" "awaiting_auth (s\<lparr>s_pending_scram := x\<rparr>)"
    "session_ok U D (s\<lparr>s_pending_login := y\<rparr>)" "awaiting_auth (s\<lparr>s_pending_login := y\<rparr>)"
    "session_ok U D (s\<lparr>s_pending_external := z\<rparr>)" "awaiting_auth (s\<lparr>s_pending_external := z\<rparr>)"
    "session_ok U D (s\<lparr>s_pending_scram := x, s_pending_login := y, s_pending_external := z\<rparr>)"
  using assms by (simp_all add: session_ok_def frame_of_def awaiting_auth_def)

lemma encoded_clean: "env_ok U e \<Longrightarrow> line_clean (so_encode (e_scram e) bs)"
  by (simp add: env_ok_def)

lemma scram_client_first_ok:
  assumes "session_ok U D s" "awaiting_auth s" "env_ok U e"
  shows "outcome_ok U D (scram_client_first e text binding s w)"
  using assms scram_failure_ok [OF assms(1)] encoded_clean [OF assms(3)]
  by (auto simp: scram_client_first_def Let_def intro!: challenge_ok pending_ok split: option.split prod.split sum.split)

lemma scram_begin_ok:
  assumes "session_ok U D s" "awaiting_auth s" "env_ok U e"
  shows "outcome_ok U D (scram_begin e initial is_plus s w)"
  using assms scram_client_first_ok by (auto simp: scram_begin_def Let_def intro!: challenge_ok pending_ok split: option.split)

lemma scram_client_final_ok:
  assumes "session_ok U D s" "awaiting_auth s" "env_ok U e"
  shows "outcome_ok U D (scram_client_final e text server keys account refusal original s w)"
  using assms scram_failure_ok [OF assms(1)] encoded_clean [OF assms(3)]
  by (auto simp: scram_client_final_def intro!: challenge_ok pending_ok
      split: option.split scram_refusal.split sum.split)

lemma scram_server_final_ok:
  assumes "session_ok U D s" "awaiting_auth s" "s_directory s \<in> D"
  shows "outcome_ok U D (scram_server_final e text account original s w)"
proof -
  have "outcome_ok U D (s\<lparr>s_authenticated := Some account\<rparr>, w', Continue auth_successful)"
    if "scram_credentials_current e (s_directory s) account original (s_auth_protocol s)" for w'
  proof -
    have "admit_login (s_directory s) account (s_auth_protocol s) ProofScram"
      using that by (auto simp: scram_credentials_current_def split: option.splits prod.splits)
    then show ?thesis by (rule admitted_ok(1) [OF assms])
  qed
  moreover have "outcome_ok U D (s, w, Continue (reply_single 501 (lit ''5.5.2 invalid authentication response'')))"
    using assms by (simp add: outcome_ok_same)
  ultimately show ?thesis
    using scram_failure_ok [OF assms(1)] by (auto simp: scram_server_final_def Let_def split: ban_outcome.split)
qed

lemma auth_ok:
  assumes ok: "session_ok U D s" and e: "env_ok U e" "s_directory s \<in> D"
  shows "outcome_ok U D (auth e name initial s w)"
proof (cases "awaiting_auth s")
  case False
  then show ?thesis
    using ok by (auto simp: auth_def awaiting_auth_def intro!: outcome_ok_same)
next
  case True
  have "outcome_ok U D (s, w, Continue (reply_single 504 (lit ''5.5.4 mechanism not supported'')))"
    using ok by (simp add: outcome_ok_same)
  moreover have "outcome_ok U D (s\<lparr>s_pending_external := True\<rparr>, w, challenge [])" "outcome_ok U D (s, w, challenge [])"
    "outcome_ok U D (s\<lparr>s_pending_login := Some None\<rparr>, w, challenge (lit ''VXNlcm5hbWU6''))"
    using ok True by (simp_all add: challenge_ok pending_ok)
  ultimately show ?thesis
    using True verify_external_ok [OF ok True e(2)] verify_plain_ok [OF ok True e(2)] scram_begin_ok [OF ok True e(1)]
      oauth_bearer_ok [OF ok True e(2)] login_ok(1) [OF ok True e(2)]
    by (simp add: auth_def awaiting_auth_def split: option.split mechanism.split)
qed

lemma auth_response_ok:
  assumes ok: "session_ok U D s" "awaiting_auth s" and e: "env_ok U e" "s_directory s \<in> D"
  shows "outcome_ok U D (auth_response e line s w)"
proof -
  note p = pending_ok [OF ok]
  have "outcome_ok U D (s\<lparr>s_pending_scram := None, s_pending_login := None, s_pending_external := False\<rparr>, w,
      Continue (reply_single 501 (lit ''5.7.0 authentication cancelled'')))"
    using p(7) by (simp add: outcome_ok_same)
  then show ?thesis
    using e verify_external_ok [OF p(5,6)] login_ok [OF p(3,4)] scram_client_first_ok [OF p(1,2)]
      scram_client_final_ok [OF p(1,2)] scram_server_final_ok [OF p(1,2)] verify_plain_ok [OF p(1,2)]
    by (simp add: auth_response_def Let_def split: option.split pending_scram.split)
qed

subsection \<open>Dispatch\<close>

lemma count_junk_ok:
  assumes "outcome_ok U D out"
  shows "outcome_ok U D (count_junk junk out)"
proof -
  obtain s w a where out: "out = (s, w, a)"
    by (cases out)
  have "outcome_ok U D (s\<lparr>s_junk := j\<rparr>, w, a)" for j
    using assms out outcome_ok_frame [of "s\<lparr>s_junk := j\<rparr>" s U D w a w] by (simp add: frame_of_def)
  moreover have "outcome_ok U D (s', w', Close too_much_junk)" if "reset (s\<lparr>s_junk := j\<rparr>) w = (s', w')" for j s' w'
  proof -
    have "session_ok U D (s\<lparr>s_junk := j\<rparr>)"
      using assms out by (simp add: outcome_ok_def session_ok_def frame_of_def)
    then show ?thesis
      using reset_ok(1) [OF _ that] by (simp add: outcome_ok_def action_ok_def)
  qed
  ultimately show ?thesis
    by (simp add: count_junk_def out Let_def split: prod.split)
qed

lemma apply_command_ok:
  assumes ok: "session_ok U D s" and e: "env_ok U e" "s_directory s \<in> D"
  shows "outcome_ok U D (apply_command e c s w)"
proof -
  have "outcome_ok U D (s, w, Close reply_closing)"
    using ok by (simp add: outcome_ok_def action_ok_def)
  moreover have "outcome_ok U D (s', w', Continue reply_ok_250)" if "reset s w = (s', w')" for s' w'
    using reset_ok(1) [OF ok that] by (simp add: outcome_ok_same)
  ultimately show ?thesis
    using greet_ok [OF ok] mail_from_ok [OF ok e] rcpt_to_ok [OF ok e] data_ok_cmd [OF ok] bdat_ok [OF ok]
      start_tls_ok [OF ok] auth_ok [OF ok e] ok
    by (simp add: apply_command_def outcome_ok_same Let_def split: command.split prod.split)
qed

lemma command_line_ok:
  assumes "session_ok U D s" "env_ok U e" "s_directory s \<in> D"
  shows "outcome_ok U D (command_line e line s w)" "outcome_ok U D (unreadable_command s w)"
  using apply_command_ok [OF assms] assms(1)
  by (auto simp: command_line_def unreadable_command_def dispatch_def Let_def intro!: count_junk_ok outcome_ok_same
      split: sum.split)

lemma auth_line_ok:
  assumes "session_ok U D s" "awaiting_auth s" "env_ok U e" "s_directory s \<in> D"
  shows "outcome_ok U D (auth_line e line s w)"
  using auth_response_ok [OF assms] by (simp add: auth_line_def count_junk_ok)

end
