(* ===== verification/Connection_Safety.thy ===== *)
theory Connection_Safety
  imports Session_Invariant
begin

section \<open>The steps of a connection\<close>

text \<open>
  The invariant of a connection: of its session, and of the mode it reads in. Every read from the socket, every
  turn of the loop and every close keeps it, and every event is one the session was entitled to.
\<close>

text \<open>What services outside the server put into replies has no line end in it: the name of a virus signature,
  and the token of a challenge.\<close>

definition server_ok :: "server \<Rightarrow> bool" where
  "server_ok v \<longleftrightarrow> (\<forall>m a k sig. sv_submit v m a k = Some (VirusDetected sig) \<longrightarrow> line_clean sig)
     \<and> (\<forall>m sig. sv_deliver v m = Some (VirusDetected sig) \<longrightarrow> line_clean sig)
     \<and> (\<forall>accepts issue a b. sv_subjectpass v = Some (accepts, issue) \<longrightarrow> line_clean (issue a b))"

definition mode_ok :: "session \<Rightarrow> mode \<Rightarrow> bool" where
  "mode_ok s md = (case md of
       ModeData \<Rightarrow> is_receiving_data (s_state s)
     | ModeChunk _ _ _ \<Rightarrow> is_receiving_data (s_state s)
     | ModeAuth \<Rightarrow> awaiting_auth s
     | ModeDiscard _ r \<Rightarrow> reply_good r
     | _ \<Rightarrow> True)"

definition conn_ok :: "kit \<Rightarrow> directory set \<Rightarrow> conn \<Rightarrow> bool" where
  "conn_ok U D c \<longleftrightarrow> session_ok U D (cn_session c) \<and> mode_ok (cn_session c) (cn_mode c)"

definition handed_ok :: "kit \<Rightarrow> directory set \<Rightarrow> frame \<Rightarrow> accepted_message \<Rightarrow> bool" where
  "handed_ok U D f m' \<longleftrightarrow> (\<exists>v s m ev n. message_ok U D f m \<and> frame_of s = f
     \<and> deliver_message v s m = (ev, Inr n) \<and> Handed m' \<in> set ev)"

fun event_ok :: "kit \<Rightarrow> directory set \<Rightarrow> frame \<Rightarrow> event \<Rightarrow> bool" where
  "event_ok U D f (Sent r) = reply_good r"
| "event_ok U D f (Handed m) = handed_ok U D f m"
| "event_ok U D f (SentCopy account _) = (f_account f = Some account)"
| "event_ok U D f _ = True"

definition turn_ok :: "kit \<Rightarrow> directory set \<Rightarrow> turn \<Rightarrow> bool" where
  "turn_ok U D t = (case t of (c, w, ev) \<Rightarrow>
     conn_ok U D c \<and> list_all (event_ok U D (frame_of (cn_session c))) ev)"

lemma conn_close_ok:
  assumes "session_ok U D (cn_session c)"
  shows "conn_ok U D (fst (conn_close c w))"
proof -
  have "frame_of ((cn_session c)\<lparr>s_state := Connected, s_chunk_reservation := res_none, s_delivery_reservation := res_none\<rparr>)
      = frame_of (cn_session c)"
    by (simp add: frame_of_def)
  then show ?thesis
    using assms by (simp add: conn_close_def Let_def conn_ok_def session_ok_def mode_ok_def)
qed

lemma close_with_ok: "session_ok U D (cn_session c) \<Longrightarrow> reply_good r \<Longrightarrow> turn_ok U D (close_with r c w)"
  using conn_close_ok [of U D c w] by (cases "conn_close c w") (simp add: close_with_def turn_ok_def)

lemma good_dnsbl [simp]: "reply_good (dnsbl_reply x)"
  by (cases x) simp_all

lemma good_refusal_reply [simp]: "reply_good (refusal_reply x)"
  by (cases x) (simp_all add: refusal_reply_def)

lemma good_sink_reply: "(\<And>sig. x = VirusDetected sig \<Longrightarrow> line_clean sig) \<Longrightarrow> reply_good (sink_reply x)"
  by (cases x) simp_all

lemma good_inbound_reply:
  assumes "server_ok v" "inbound_screens v s m = (ev, Inl r)"
  shows "reply_good r"
proof -
  have auth: "authenticate_inbound v s m = Inl q \<Longrightarrow> reply_good q" for q
    by (auto simp: authenticate_inbound_def Let_def split: option.splits if_splits)
  have trace: "trace_step v s h x = Inl q \<Longrightarrow> reply_good q" for h x q
    by (auto simp: trace_step_def Let_def split: if_splits)
  have scan: "scanner_screen v x = Inl q \<Longrightarrow> reply_good q" for x q
    by (auto simp: scanner_screen_def split: option.splits hook_verdict.splits)
  have attach: "screen_attachments v x = Inl q \<Longrightarrow> reply_good q" for x q
    by (auto simp: screen_attachments_def Let_def split: option.splits if_splits prod.splits)
  have bayes: "handle_bayes_thresholds v x = Inl q \<Longrightarrow> reply_good q" for x q
    by (auto simp: handle_bayes_thresholds_def Let_def split: option.splits if_splits)
  have band: "handle_uncertain_band v x = Inl q \<Longrightarrow> reply_good q" for x q
    using assms(1)
    by (auto simp: handle_uncertain_band_def challenge_reply_def server_ok_def Let_def split: option.splits if_splits prod.splits)
  have content: "content_screens v s x = Inl q \<Longrightarrow> reply_good q" for x q
    using scan attach bayes band by (auto simp: content_screens_def split: if_splits sum.splits)
  have grey: "greylist_screen v s m = (e, Some q) \<Longrightarrow> reply_good q" for e q
    by (auto simp: greylist_screen_def Let_def split: option.splits prod.splits list.splits if_splits)
  show ?thesis
    using assms(2) auth trace content grey
    by (auto simp: inbound_screens_def split: if_splits option.splits prod.splits sum.splits)
qed

lemma good_hand_on_reply:
  assumes "server_ok v" "hand_on v s m = (ev, Inl r)"
  shows "reply_good r"
  using assms
  by (auto simp: hand_on_def prepare_submission_def server_ok_def Let_def intro!: good_sink_reply
      split: option.splits sum.splits prod.splits if_splits)

lemma good_deliver_reply:
  assumes "server_ok v" "deliver_message v s m = (ev, Inl r)"
  shows "reply_good r"
  using assms good_inbound_reply good_hand_on_reply
  by (auto simp: deliver_message_def split: prod.splits sum.splits)

lemma good_accepted_reply: "reply_good r \<Longrightarrow> reply_good (accepted_reply r n)"
  by (simp add: accepted_reply_def)

lemma deliver_arm_ok:
  assumes ok: "session_ok U D (cn_session c)" and mode: "cn_mode c = ModeCommands" and v: "server_ok v"
    and r: "reply_good r" and m: "message_ok U D (frame_of (cn_session c)) m"
  shows "turn_ok U D (deliver_arm v r m c w)"
proof -
  define s where "s = (cn_session c)\<lparr>s_delivery_reservation := res_none,
     s_policy := (s_policy (cn_session c))\<lparr>tp_quota_reports := [], tp_pending_charge := None\<rparr>\<rparr>"
  have f: "frame_of s = frame_of (cn_session c)" "s_state s = s_state (cn_session c)"
    by (simp_all add: s_def frame_of_def)
  then have s: "session_ok U D s" by (intro session_ok_frame [OF ok])
  have f': "frame_of (message_delivered s) = frame_of s" "s_state (message_delivered s) = s_state s"
    by (simp_all add: message_delivered_def frame_of_def)
  have s': "session_ok U D (message_delivered s)" by (rule session_ok_frame [OF s f'])
  have closed: "turn_ok U D (case conn_close (c\<lparr>cn_session := s\<rparr>) x of (c, w) \<Rightarrow> (c, w, []))" for x
    using conn_close_ok [of U D "c\<lparr>cn_session := s\<rparr>" x] s by (auto simp: turn_ok_def split: prod.splits)
  have kept: "turn_ok U D (c\<lparr>cn_session := s\<rparr>, x, ev)" if "list_all (event_ok U D (frame_of s)) ev" for x ev
    using that s mode by (simp add: turn_ok_def conn_ok_def mode_ok_def)
  have finished: "turn_ok U D (c\<lparr>cn_session := message_delivered s\<rparr>, x, ev)" if "list_all (event_ok U D (frame_of s)) ev" for x ev
    using that s' f' mode by (simp add: turn_ok_def conn_ok_def mode_ok_def)
  have quiet: "list_all (event_ok U D (frame_of s)) ev" if "list_all quiet ev" for ev
  proof -
    have "event_ok U D (frame_of s) x" if "quiet x" for x
      using that by (cases x) (simp_all add: quiet_def)
    with that show ?thesis by (auto simp: list_all_iff)
  qed
  have delivered: "turn_ok U D (case deliver_message v s m of
        (ev, Inl refusal) \<Rightarrow> (c\<lparr>cn_session := s\<rparr>, x, ev @ [Sent refusal])
      | (ev, Inr dropped) \<Rightarrow> (c\<lparr>cn_session := message_delivered s\<rparr>, y, ev @ map Reported reports @ [Sent (accepted_reply r dropped)]))"
    for x y reports
  proof -
    obtain ev res where dm: "deliver_message v s m = (ev, res)" by (cases "deliver_message v s m")
    then show ?thesis
    proof (cases rule: deliver_message_cases)
      case (refused reply)
      then have "reply_good reply" using good_deliver_reply [OF v] dm by blast
      then show ?thesis using dm refused quiet by (simp add: kept)
    next
      case (taken quiet_ev m' copies n d)
      have "Handed m' \<in> set ev" using taken(2) by simp
      then have "handed_ok U D (frame_of s) m'"
        using m f dm taken(1) unfolding handed_ok_def by metis
      moreover have "list_all (event_ok U D (frame_of s)) copies"
        using taken(8) by (auto simp: list_all_iff frame_of_def)
      moreover have "list_all (event_ok U D (frame_of s)) (map Reported reports)"
        by (simp add: list_all_iff)
      ultimately show ?thesis
        using dm taken(1,2) quiet [OF taken(3)] good_accepted_reply [OF r] by (simp add: finished)
    qed
  qed
  show ?thesis
    unfolding deliver_arm_def take_delivery_reservation_def take_quota_reports_def take_charge_def Let_def
    using closed kept delivered
    by (simp add: s_def [symmetric] looping_def split: option.split)
qed

lemma tls_started_ok:
  assumes "session_ok U D s" "s_authenticated s = None" "tls_started (s\<lparr>s_client_identity := i\<rparr>) w = (s', w')"
  shows "session_ok U D s'" "s_state s' = Connected"
  using assms by (auto simp: tls_started_def reset_def set_state_def Let_def inv_defs split: if_splits)

lemma dispatch_action_ok:
  assumes ok: "session_ok U D (cn_session c)" and a: "action_ok U D (cn_session c) a"
    and mode: "cn_mode c = ModeCommands" and v: "server_ok v"
  shows "turn_ok U D (dispatch_action v identity a c w)"
proof (cases a)
  case (Continue r)
  then show ?thesis
    using ok a mode close_with_ok [OF ok, of too_many_errors w]
    by (simp add: dispatch_action_def action_ok_def turn_ok_def conn_ok_def mode_ok_def too_many_errors_def)
next
  case (Deliver r m)
  then show ?thesis using deliver_arm_ok [OF ok mode v] a by (simp add: dispatch_action_def action_ok_def)
next
  case (UpgradeTls r)
  obtain s' w' where t: "tls_started ((cn_session c)\<lparr>s_client_identity := identity\<rparr>) w = (s', w')"
    by (cases "tls_started ((cn_session c)\<lparr>s_client_identity := identity\<rparr>) w")
  then show ?thesis
    using UpgradeTls a mode tls_started_ok [OF ok _ t]
    by (simp add: dispatch_action_def action_ok_def turn_ok_def conn_ok_def mode_ok_def)
next
  case (Close r)
  then show ?thesis using close_with_ok [OF ok] a by (simp add: dispatch_action_def action_ok_def)
qed (use ok a mode in \<open>simp_all add: dispatch_action_def action_ok_def turn_ok_def conn_ok_def mode_ok_def\<close>)

lemma discard_from_ok:
  assumes "session_ok U D (cn_session c)" "reply_good r" "server_ok v"
  shows "turn_ok U D (discard_from v left r c w)"
  using assms dispatch_action_ok [of U D "c\<lparr>cn_mode := ModeCommands\<rparr>" "Continue r" v None w]
  by (simp add: discard_from_def action_ok_def turn_ok_def conn_ok_def mode_ok_def)

lemma chunk_octets_ok:
  assumes ok: "session_ok U D (cn_session c)" and rd: "is_receiving_data (s_state (cn_session c))"
    and e: "env_ok U e" and v: "server_ok v"
  shows "turn_ok U D (chunk_octets v e sz is_last got new c w)"
proof -
  obtain s1 w1 b where r: "reserve_chunk (length new) (cn_session c) w = (s1, w1, b)"
    using prod_cases3 by blast
  note f = reserve_chunk_frame [OF r]
  have ok1: "session_ok U D s1" by (rule session_ok_frame [OF ok f(1,2)])
  show ?thesis
  proof (cases b)
    case False
    obtain s2 w2 a where q: "refuse_chunk s1 w1 = (s2, w2, a)" using prod_cases3 by blast
    then have "session_ok U D s2" using refuse_chunk_ok [OF ok1, of w1] by (simp add: outcome_ok_def)
    then show ?thesis
      using r q False v by (auto simp: chunk_octets_def Let_def intro!: discard_from_ok split: prod.splits)
  next
    case True
    obtain s2 w2 a where q: "bdat_chunk e (got @ new) is_last s1 w1 = (s2, w2, a)" using prod_cases3 by blast
    have dir: "s_directory s1 \<in> D" using ok1 by (simp add: session_ok_def frame_ok_def frame_of_def)
    have "session_ok U D s2 \<and> action_ok U D s2 a"
      using bdat_chunk_ok [OF ok1 e dir, of "got @ new" is_last w1] q by (simp add: outcome_ok_def)
    moreover have "turn_ok U D (c\<lparr>cn_session := s1, cn_mode := ModeChunk sz is_last (got @ new)\<rparr>, w1, [])"
      using ok1 rd f(2) by (simp add: turn_ok_def conn_ok_def mode_ok_def)
    ultimately show ?thesis
      using r q True dispatch_action_ok [of U D "c\<lparr>cn_session := s2, cn_mode := ModeCommands\<rparr>" a v None w2] v
      by (simp add: chunk_octets_def Let_def)
  qed
qed

lemma resolve_action_ok:
  assumes ok: "session_ok U D (cn_session c)" and a: "action_ok U D (cn_session c) a"
    and mode: "cn_mode c = ModeCommands" and e: "env_ok U e" and v: "server_ok v"
  shows "turn_ok U D (resolve_action v e identity a c w)"
proof (cases a)
  case (CollectChunk sz is_last)
  then show ?thesis
    using ok a e v by (auto simp: resolve_action_def action_ok_def intro!: chunk_octets_ok split: prod.splits)
next
  case (DiscardChunk sz r)
  then show ?thesis
    using ok a v by (auto simp: resolve_action_def action_ok_def intro!: discard_from_ok split: prod.splits)
qed (use dispatch_action_ok [OF ok a mode v] in \<open>simp_all add: resolve_action_def\<close>)

lemma with_directory_ok:
  assumes "session_ok U D s" "d \<in> D"
  shows "session_ok U D (with_directory d s)" "s_directory (with_directory d s) \<in> D" "awaiting_auth (with_directory d s) = awaiting_auth s"
proof -
  have "frame_of (with_directory d s) = (frame_of s)\<lparr>f_directory := d\<rparr>" "s_state (with_directory d s) = s_state s"
    by (simp_all add: with_directory_def frame_of_def)
  moreover have "state_ok U D (f\<lparr>f_directory := d\<rparr>) st = state_ok U D f st" for f st
    by (cases st) (simp_all add: data_ok_def envelope_ok_def)
  ultimately show "session_ok U D (with_directory d s)"
    using assms by (simp add: session_ok_def frame_ok_def)
  show "s_directory (with_directory d s) \<in> D" "awaiting_auth (with_directory d s) = awaiting_auth s"
    using assms by (simp_all add: with_directory_def awaiting_auth_def)
qed

lemma line_outcome_ok:
  assumes ok: "session_ok U D s" and mode: "mode_ok s md" and d: "d \<in> D" and e: "env_ok U e"
    and out: "line_outcome e d line md s w = (s', w', a)"
  shows "a = Some b \<Longrightarrow> session_ok U D s' \<and> action_ok U D s' b"
    "a = None \<Longrightarrow> session_ok U D s' \<and> mode_ok s' md"
proof -
  have dir: "s_directory s \<in> D" using ok by (simp add: session_ok_def frame_ok_def frame_of_def)
  note wd = with_directory_ok [OF ok d]
  have cmd: "outcome_ok U D (command_line e t (with_directory d s) w)" "outcome_ok U D (unreadable_command s w)" for t
    using command_line_ok(1) [OF wd(1) e wd(2)] command_line_ok(2) [OF ok e dir] by blast+
  have auth: "outcome_ok U D (auth_line e t (with_directory d s) w)" if "md = ModeAuth" for t
    using auth_line_ok [OF wd(1) _ e wd(2)] wd(3) mode that by (simp add: mode_ok_def)
  show "session_ok U D s' \<and> action_ok U D s' b" if a: "a = Some b"
  proof (cases md)
    case ModeCommands
    show ?thesis
    proof (cases "from_utf8 line")
      case None
      then have "unreadable_command s w = (s', w', b)"
        using out a ModeCommands by (auto simp: line_outcome_def split: prod.splits)
      then show ?thesis using cmd(2) by (simp add: outcome_ok_def)
    next
      case (Some t)
      then have "command_line e t (with_directory d s) w = (s', w', b)"
        using out a ModeCommands by (auto simp: line_outcome_def split: prod.splits)
      then show ?thesis using cmd(1) [of t] by (simp add: outcome_ok_def)
    qed
  next
    case ModeAuth
    show ?thesis
    proof (cases "from_utf8 line")
      case None
      then show ?thesis
        using out a ModeAuth ok by (auto simp: line_outcome_def action_ok_def non_ascii_auth_def)
    next
      case (Some t)
      then have "auth_line e t (with_directory d s) w = (s', w', b)"
        using out a ModeAuth by (auto simp: line_outcome_def split: prod.splits)
      then show ?thesis using auth [OF ModeAuth, of t] by (simp add: outcome_ok_def)
    qed
  next
    case ModeData
    then show ?thesis
      using out a data_line_ok(1) [OF ok e dir, of line w s' w' a b] by (simp add: line_outcome_def outcome_ok_def)
  qed (use out a in \<open>simp_all add: line_outcome_def\<close>)
  show "session_ok U D s' \<and> mode_ok s' md" if a: "a = None"
  proof (cases md)
    case ModeData
    then show ?thesis
      using out a data_line_ok(2) [OF ok e dir, of line w s' w' a] by (simp add: line_outcome_def mode_ok_def)
  qed (use out a ok mode in \<open>auto simp: line_outcome_def split: option.splits prod.splits\<close>)
qed

lemma conn_line_ok:
  assumes "conn_ok U D c" "d \<in> D" "env_ok U e" "server_ok v"
  shows "turn_ok U D (conn_line v e d identity line c w)"
proof -
  obtain s' w' a where out: "line_outcome e d line (cn_mode c) (cn_session c) w = (s', w', a)"
    using prod_cases3 by blast
  note l = line_outcome_ok [OF _ _ assms(2,3) out]
  show ?thesis
  proof (cases a)
    case None
    then show ?thesis
      using l(2) assms(1) out by (simp add: conn_line_def conn_ok_def turn_ok_def)
  next
    case (Some b)
    then show ?thesis
      using l(1) [of b] assms(1,3,4) out
      by (auto simp: conn_line_def conn_ok_def intro!: resolve_action_ok)
  qed
qed

lemma conn_turn_ok:
  assumes "conn_ok U D c" "d \<in> D" "env_ok U e" "server_ok v"
  shows "turn_ok U D (conn_turn v e d identity c w)"
proof -
  have dec: "conn_ok U D (c\<lparr>cn_decoder := x\<rparr>)" for x
    using assms(1) by (simp add: conn_ok_def)
  have closed: "turn_ok U D (close_with (line_error_reply err) (c\<lparr>cn_decoder := x\<rparr>) w)" for err x
    using assms(1) by (intro close_with_ok) (simp_all add: conn_ok_def)
  have idle: "turn_ok U D (c\<lparr>cn_decoder := x\<rparr>, w, [])" "turn_ok U D (c, w, [])" for x
    using assms(1) dec by (simp_all add: turn_ok_def)
  show ?thesis
    unfolding conn_turn_def using closed idle conn_line_ok [OF dec assms(2-4)]
    by (simp split: prod.split sum.split option.split)
qed

lemma conn_octets_ok:
  assumes "conn_ok U D c" "env_ok U e" "server_ok v"
  shows "turn_ok U D (conn_octets v e bytes c w)"
proof (cases "cn_mode c")
  case (ModeChunk sz is_last got)
  then show ?thesis
    using assms by (auto simp: conn_octets_def Let_def conn_ok_def mode_ok_def intro!: chunk_octets_ok)
next
  case (ModeDiscard left r)
  then show ?thesis
    using assms by (auto simp: conn_octets_def conn_ok_def mode_ok_def intro!: discard_from_ok)
qed (use assms in \<open>simp_all add: conn_octets_def turn_ok_def conn_ok_def\<close>)

end
