(* ===== verification/Connection_Runs.thy ===== *)
theory Connection_Runs
  imports Connection_Safety
begin

section \<open>Runs of a connection\<close>

text \<open>
  Every run of a connection: reads from the socket, turns of the loop and closing, in any order, with whatever the
  peer sends. Directories may be published anew between two turns, and the shared state (limiters, bans, the
  memory budget) may be anything at each step, since other connections change it meanwhile. The trace of a
  run is the list of its events, each with who was signed in when it happened. Two concrete runs, a visitor's and
  an account's, are at the end.
\<close>

subsection \<open>Runs\<close>

type_synonym trace = "(frame \<times> event) list"

definition note_events :: "conn \<Rightarrow> event list \<Rightarrow> trace" where
  "note_events c ev = map (Pair (frame_of (cn_session c))) ev"

inductive conn_run :: "kit \<Rightarrow> directory set \<Rightarrow> session \<Rightarrow> conn \<Rightarrow> trace \<Rightarrow> bool"
  for U :: kit and D :: "directory set" and s :: session where
  start: "conn_run U D s (conn_new s) []"
| octets_read: "conn_run U D s c tr \<Longrightarrow> env_ok U e \<Longrightarrow> server_ok v \<Longrightarrow> conn_octets v e bytes c w = (c', w', ev) \<Longrightarrow>
    conn_run U D s c' (tr @ note_events c' ev)"
| turn: "conn_run U D s c tr \<Longrightarrow> env_ok U e \<Longrightarrow> server_ok v \<Longrightarrow> d \<in> D \<Longrightarrow> conn_turn v e d identity c w = (c', w', ev) \<Longrightarrow>
    conn_run U D s c' (tr @ note_events c' ev)"
| closing: "conn_run U D s c tr \<Longrightarrow> conn_close c w = (c', w') \<Longrightarrow> conn_run U D s c' tr"

text \<open>A session as a connection starts with it.\<close>

definition fresh_session :: "directory set \<Rightarrow> session \<Rightarrow> bool" where
  "fresh_session D s \<longleftrightarrow> s_state s = Connected \<and> s_authenticated s = None \<and> (s_tls_active s \<longrightarrow> \<not> s_tls_available s)
     \<and> line_clean (s_hostname s) \<and> s_directory s \<in> D"

lemma fresh_conn_ok: "fresh_session D s \<Longrightarrow> conn_ok U D (conn_new s)"
  by (simp add: fresh_session_def conn_ok_def conn_new_def mode_ok_def session_ok_def frame_ok_def frame_of_def)

lemma conn_run_ok:
  assumes "conn_run U D s c tr" "fresh_session D s"
  shows "conn_ok U D c \<and> (\<forall>(f, e)\<in>set tr. event_ok U D f e \<and> frame_ok D f)"
  using assms(1)
proof induction
  case start
  then show ?case using fresh_conn_ok [OF assms(2)] by simp
next
  case (octets_read c tr e v bytes w c' w' ev)
  then show ?case
    using conn_octets_ok [of U D c e v bytes w] by (auto simp: turn_ok_def note_events_def list_all_iff conn_ok_def session_ok_def)
next
  case (turn c tr e v d identity w c' w' ev)
  then show ?case
    using conn_turn_ok [of U D c d e v identity w] by (auto simp: turn_ok_def note_events_def list_all_iff conn_ok_def session_ok_def)
next
  case (closing c tr w c' w')
  then show ?case using conn_close_ok [of U D c w] by (simp add: conn_ok_def)
qed

subsection \<open>What every run keeps\<close>

lemma handed_envelope:
  assumes "handed_ok U D f m'"
  obtains v s m ev n where "message_ok U D f m" "deliver_message v s m = (ev, Inr n)" "Handed m' \<in> set ev"
    "am_reverse_path m' = am_reverse_path m" "set (am_recipients m') \<subseteq> set (am_recipients m)"
proof -
  from assms obtain v s m ev n where ok: "message_ok U D f m" "Handed m' \<in> set ev" and dm: "deliver_message v s m = (ev, Inr n)"
    unfolding handed_ok_def by metis
  from dm have "am_reverse_path m' = am_reverse_path m \<and> set (am_recipients m') \<subseteq> set (am_recipients m)"
  proof (cases rule: deliver_message_cases)
    case (taken quiet_ev m'' copies k d)
    then have "m' = m''" using ok(2) by (auto simp: list_all_iff quiet_def)
    then show ?thesis using taken by simp
  qed simp
  then show ?thesis using that ok dm by blast
qed


text \<open>C1: The server is no open relay. In every run, a message handed to the sink while nobody is signed in is
  only for recipients that some directory published during the connection resolves as its own: an account or an
  alias, never a foreign domain and never an unknown user.\<close>

theorem no_open_relay:
  assumes "conn_run U D s c tr" "fresh_session D s" "(f, Handed m) \<in> set tr" "f_account f = None" "r \<in> set (am_recipients m)"
  shows "\<exists>a. \<exists>d\<in>D. r = address_show a \<and> resolve (k_unicode U) d a \<noteq> NotLocal \<and> resolve (k_unicode U) d a \<noteq> UnknownUser"
proof -
  have "event_ok U D f (Handed m)" using conn_run_ok [OF assms(1,2)] assms(3) by blast
  then have "handed_ok U D f m" by simp
  then obtain m0 where "message_ok U D f m0" "set (am_recipients m) \<subseteq> set (am_recipients m0)"
    by (rule handed_envelope) blast
  then have "recipient_ok U D None r"
    using assms(4,5) by (auto simp: message_ok_def envelope_ok_def)
  then show ?thesis by (fastforce simp: recipient_ok_def split: resolution.splits)
qed

text \<open>C2: Mail sent under an account is that account's mail. In every run, a message handed to the sink while an
  account is signed in went over TLS, under an account a published directory neither disables nor bars from this service; the account owns
  the envelope sender; and the message as the client sent it passed the check for ambiguous headers and has a
  single author address, which the account owns as well.\<close>

theorem submitted_mail_is_owned:
  assumes "conn_run U D s c tr" "fresh_session D s" "(f, Handed m) \<in> set tr" "f_account f = Some account"
  shows "f_tls f \<and> (\<exists>d\<in>D. \<not> is_disabled d account \<and> is_protocol_allowed d account (f_protocol f))
     \<and> (\<exists>a. \<exists>d\<in>D. address_parse (k_unicode U) (am_reverse_path m) = Inr a \<and> owns_address (k_unicode U) d account a)
     \<and> (\<exists>v s m0 ev n raw a. \<exists>d\<in>D. deliver_message v s m0 = (ev, Inr n) \<and> Handed m \<in> set ev
          \<and> reject_ambiguous_headers (k_reader U) (am_data m0) = Inr () \<and> author (k_mailboxes U) (am_data m0) = AuthorAddresses [raw]
          \<and> address_parse (k_unicode U) raw = Inr a \<and> owns_address (k_unicode U) d account a)"
proof -
  have "event_ok U D f (Handed m) \<and> frame_ok D f" using conn_run_ok [OF assms(1,2)] assms(3) by blast
  then have "handed_ok U D f m" and fr: "f_tls f" "\<exists>d\<in>D. \<not> is_disabled d account \<and> is_protocol_allowed d account (f_protocol f)"
    using assms(4) by (auto simp: frame_ok_def admit_login_rules)
  then obtain v s' m0 ev n where dm: "deliver_message v s' m0 = (ev, Inr n)" "Handed m \<in> set ev"
      and ok: "message_ok U D f m0" "am_reverse_path m = am_reverse_path m0"
    by (elim handed_envelope)
  have "sender_ok U D (Some account) (am_reverse_path m)" "author_ok U D (Some account) (am_data m0)"
    using ok assms(4) by (simp_all add: message_ok_def envelope_ok_def)
  then show ?thesis using fr dm unfolding sender_ok_def author_ok_def option.case by blast
qed

subsection \<open>Running line by line\<close>

lemma next_line_whole:
  assumes "list_all plain l" "length l \<le> m"
  shows "next_line (ld_feed (l @ [13, 10]) (ld_with_limit m)) = (ld_with_limit m, Inr (Some l))"
proof -
  have "next_line_loop m (l @ [13, 10]) 0 (lc_resume 0) = next_line_loop m [13, 10] (length l) (lc_resume (length l))"
    using next_line_loop_plain [OF assms(1), of m "[13, 10]" 0 0] by simp
  then show ?thesis
    using assms(2) by (simp add: next_line_def ld_feed_def ld_with_limit_def lc_step_def lc_resume_def)
qed

definition conn_at :: "session \<Rightarrow> mode \<Rightarrow> conn" where
  "conn_at s md = \<lparr>cn_session = s, cn_decoder = ld_with_limit MAX_LINE_LENGTH, cn_mode = md, cn_error_streak = 0\<rparr>"

lemma run_line:
  assumes "conn_run U D s0 (conn_at s md) tr" "env_ok U e" "server_ok v" "d \<in> D" "reads_lines md"
    and "list_all plain l" "length l \<le> MAX_LINE_LENGTH" "conn_line v e d identity l (conn_at s md) w = (c', w', ev)"
  shows "conn_run U D s0 c' (tr @ note_events c' ev)"
proof -
  define c where "c = (conn_at s md)\<lparr>cn_decoder := ld_feed (l @ [13, 10]) (ld_with_limit MAX_LINE_LENGTH)\<rparr>"
  have "conn_octets v e (l @ [13, 10]) (conn_at s md) w = (c, w, [])"
    using assms(5) by (auto simp: conn_octets_def c_def conn_at_def reads_lines_def split: mode.splits)
  then have run: "conn_run U D s0 c tr"
    using conn_run.octets_read [OF assms(1-3)] by (fastforce simp: note_events_def)
  have "conn_turn v e d identity c w = (c', w', ev)"
    using assms(5,8) next_line_whole [OF assms(6,7)] by (simp add: conn_turn_def c_def conn_at_def)
  with conn_run.turn [OF run assms(2-4)] show ?thesis by blast
qed

lemma run_command:
  assumes "conn_run U D s0 (conn_at s ModeCommands) tr" "env_ok U e" "server_ok v" "d \<in> D"
    and "list_all plain (olit t)" "length t \<le> MAX_LINE_LENGTH" "from_utf8 (olit t) = Some (lit t)"
    and "command_line e (lit t) (with_directory d s) w = (s', w', Continue r)" "r_code r < 400"
  shows "conn_run U D s0 (conn_at s' ModeCommands) (tr @ [(frame_of s', Sent r)])"
proof -
  have "conn_line v e d None (olit t) (conn_at s ModeCommands) w = (conn_at s' ModeCommands, w', [Sent r])"
    using assms(7-9) by (simp add: conn_line_def line_outcome_def resolve_action_def dispatch_action_def conn_at_def)
  from run_line [OF assms(1-4) _ assms(5) _ this] show ?thesis
    using assms(6) by (simp add: reads_lines_def note_events_def conn_at_def olit_def)
qed

lemma run_data:
  assumes "conn_run U D s0 (conn_at s ModeCommands) tr" "env_ok U e" "server_ok v" "d \<in> D"
    and "command_line e (lit ''DATA'') (with_directory d s) w = (s', w', CollectData r)"
  shows "conn_run U D s0 (conn_at s' ModeData) (tr @ [(frame_of s', Sent r)])"
proof -
  have "from_utf8 (olit ''DATA'') = Some (lit ''DATA'')" by (simp add: olit_def lit_def utf8_eval)
  then have "conn_line v e d None (olit ''DATA'') (conn_at s ModeCommands) w = (conn_at s' ModeData, w', [Sent r])"
    using assms(5) by (simp add: conn_line_def line_outcome_def resolve_action_def dispatch_action_def conn_at_def)
  from run_line [OF assms(1-4) _ _ _ this] show ?thesis
    by (simp add: reads_lines_def note_events_def conn_at_def olit_def plain_def MAX_LINE_LENGTH_def)
qed


subsection \<open>Two runs\<close>

lemma count_junk_quiet: "\<not> refuses a \<Longrightarrow> count_junk False (s, w, a) = (s, w, a)"
  by (simp add: count_junk_def jc_count_def)

definition demo_home :: directory where
  "demo_home = directory_new ascii_ops [lit ''b.org''] [(lit ''a@b.org'', lit ''a'')]"

definition demo_open :: session where
  "demo_open = (session_new ascii_ops (lit ''mx.b.org''))\<lparr>s_directory := demo_home, s_tls_active := True,
     s_client_identity := Some (lit ''a@b.org'')\<rparr>"

definition demo_at :: "rstr option \<Rightarrow> state \<Rightarrow> session" where
  "demo_at account st = demo_open\<lparr>s_state := st, s_helo_domain := Some (lit ''c''), s_authenticated := account\<rparr>"

text \<open>A reader that finds the fields the header check finds.\<close>

definition demo_count :: "octets \<Rightarrow> nat \<times> nat \<times> nat" where
  "demo_count d = (case (check_header_lines None (False, 0, 0) (lf_lines d), from_fields d) of
       (Inr (_, n, senders), Some from_list) \<Rightarrow> (length from_list, senders, n)
     | _ \<Rightarrow> (0, 0, 0))"

definition demo_senv :: senv where
  "demo_senv = \<lparr>e_auth = demo_env, e_scram = \<lparr>so_pbkdf2 = (\<lambda>_ _ _. []), so_hmac = (\<lambda>_ _. []), so_sha256 = (\<lambda>_. []),
      so_encode = (\<lambda>_. []), so_decode = (\<lambda>_. None)\<rparr>, e_decoy_salt = (\<lambda>_. []), e_clock = demo_clock,
     e_gate_full = False, e_nonce = None, e_now = 0, e_has_room = (\<lambda>_. True), e_usage = (\<lambda>_. 0),
     e_cap_limited = (\<lambda>_ _ _. False), e_reader = demo_count, e_mailboxes = rd_mailboxes demo_readers,
     e_bounce = (\<lambda>_ _ _ _. None), e_token = (\<lambda>_ _ _. None)\<rparr>"

definition demo_kit :: kit where
  "demo_kit = \<lparr>k_unicode = ascii_ops, k_reader = demo_count, k_mailboxes = rd_mailboxes demo_readers\<rparr>"

definition demo_limiter :: window_limiter where
  "demo_limiter = \<lparr>wl_window_secs = 60, wl_authenticated_keys = False, wl_entries = [], wl_windows = []\<rparr>"

definition demo_world :: world where
  "demo_world = \<lparr>w_memory = None, w_limiters = (\<lambda>_. demo_limiter), w_inbound_ip = demo_limiter, w_inbound_sender = demo_limiter,
     w_bans = None\<rparr>"

lemma demo_env_ok: "env_ok demo_kit demo_senv"
  by (simp add: env_ok_def demo_kit_def demo_senv_def demo_env_def)

lemma demo_open_fresh: "fresh_session {demo_home} demo_open"
  by (simp add: fresh_session_def demo_open_def session_new_def)

lemma demo_same [simp]: "with_directory demo_home (demo_at acct st) = demo_at acct st"
  "with_directory demo_home demo_open = demo_open"
  by (simp_all add: with_directory_def demo_at_def demo_open_def session_new_def)

lemma demo_release [simp]: "release r demo_world = demo_world"
  by (simp add: release_def demo_world_def)

lemmas demo_session = demo_at_def demo_open_def session_new_def

lemma demo_helo: "command_line demo_senv (lit ''HELO c'') demo_open demo_world
    = (demo_at None Greeted, demo_world, Continue (reply_single 250 (lit ''mx.b.org'')))"
proof -
  have p: "parse_command (lit ''HELO c'') = Inr (Helo (lit ''c''))"
    by (simp add: parse_command_def parse_domain_arg_def MAX_COMMAND_LINE_def str_simps)
  have j: "\<not> is_junk demo_open (Inr (Helo (lit ''c'')))"
    by (simp add: is_junk_def demo_session)
  have "greet (lit ''c'') False demo_open demo_world = (demo_at None Greeted, demo_world, Continue (reply_single 250 (lit ''mx.b.org'')))"
    by (simp add: greet_def set_state_def demo_session)
  then show ?thesis
    using j by (simp add: command_line_def p dispatch_def apply_command_def count_junk_quiet refuses_def reply_single_def reply_new_def)
qed


lemmas demo_line = command_line_def dispatch_def apply_command_def count_junk_quiet refuses_def reply_defs reply_single_def reply_new_def is_junk_def

lemma demo_owned:
  "address_parse ascii_ops (lit ''a@b.org'') = Inr \<lparr>a_local_part = lit ''a'', a_domain = lit ''b.org''\<rparr>"
  "owns_address ascii_ops demo_home (lit ''a'') \<lparr>a_local_part = lit ''a'', a_domain = lit ''b.org''\<rparr>"
  by (simp_all add: owns_address_def domain_disabled_def demo_home_def address_eval directory_eval)

lemma demo_mail_accepted:
  assumes "parse_command line = Inr (MailFrom rpath None body False ret envid)"
    and "account = None \<and> rpath = [] \<or> account = Some (lit ''a'') \<and> rpath = lit ''a@b.org''"
  shows "command_line demo_senv line (demo_at account Greeted) demo_world
    = (demo_at account (ReceivingRecipients rpath False), demo_world, Continue reply_ok_250)"
proof -
  have "sender_refusal demo_senv (demo_at account Greeted) rpath = None"
    using assms(2)
    by (elim disjE)
      (simp_all add: sender_refusal_def demo_session demo_senv_def demo_env_def demo_owned split: sum.split)
  moreover have "account = Some (lit ''a'') \<Longrightarrow> budget_has_room (submission_budget (s_policy (demo_at account Greeted)) (lit ''a'') demo_home) 0 (\<lambda>_. demo_limiter)"
    by (simp add: demo_session submission_budget_def policy_default_def for_account_def demo_home_def directory_eval budget_has_room_def)
  moreover have "check_inbound policy_default rpath None 0 demo_world = (demo_world, None)"
    by (simp add: check_inbound_def policy_default_def)
  ultimately have "mail_from demo_senv rpath None False (demo_at account Greeted) demo_world
      = (demo_at account (ReceivingRecipients rpath False), demo_world, Continue reply_ok_250)"
    using assms(2) by (auto simp: mail_from_def set_state_def spool_has_room_def policy_default_def demo_session demo_senv_def demo_world_def release_def)
  then show ?thesis by (simp add: assms(1) demo_line)
qed

lemma demo_mail:
  "parse_command (lit ''MAIL FROM:<>'') = Inr (MailFrom [] None None False None None)"
  "parse_command (lit ''MAIL FROM:<a@b.org>'') = Inr (MailFrom (lit ''a@b.org'') None None False None None)"
  by (simp_all add: parse_command_def parse_mail_def parse_path_arg_def parse_mail_parameters_def mail_params_default_def
      split_parameters_def MAX_COMMAND_LINE_def str_simps)


lemma demo_auth:
  "command_line demo_senv (lit ''AUTH EXTERNAL ='') (demo_at None Greeted) demo_world
    = (demo_at (Some (lit ''a'')) Greeted, demo_world, Continue auth_successful)"
proof -
  have p: "parse_command (lit ''AUTH EXTERNAL ='') = Inr (Auth (lit ''EXTERNAL'') (Some []))"
    by (simp add: parse_command_def parse_auth_def MAX_COMMAND_LINE_def str_simps)
  have "external_account demo_senv [] (demo_at None Greeted) = Some (lit ''a'')"
    by (simp add: external_account_def external_authzid_def demo_session demo_senv_def demo_env_def demo_home_def
        admit_login_def is_protocol_allowed_def address_eval directory_eval)
  moreover have "mechanism_parse (lit ''EXTERNAL'') = Some External" "session_offers (demo_at None Greeted) External"
    by (simp_all add: mechanism_parse_def mechanism_name_def session_offers_def is_available_def sasl_available_def demo_session str_simps)
  ultimately have "auth demo_senv (lit ''EXTERNAL'') (Some []) (demo_at None Greeted) demo_world
      = (demo_at (Some (lit ''a'')) Greeted, demo_world, Continue auth_successful)"
    by (simp add: auth_def verify_external_def auth_success_def demo_session)
  then show ?thesis by (simp add: p demo_line auth_successful_def)
qed

definition demo_envelope :: "rstr \<Rightarrow> rstr \<Rightarrow> octets \<Rightarrow> receiving_data" where
  "demo_envelope rpath recipient body = \<lparr>rd_reverse_path = rpath, rd_recipients = [recipient], rd_no_dsn = [], rd_size = length body,
     rd_body = body, rd_require_tls = False, rd_chunking = False, rd_line_check = lc_stored, rd_reserved = res_none,
     rd_budget_exhausted = False\<rparr>"

lemma demo_rcpt_accepted:
  assumes "parse_command line = Inr (RcptTo recipient None None)"
    and "account = None \<and> recipient = lit ''a@b.org'' \<or> account = Some (lit ''a'') \<and> recipient = lit ''x@d.org''"
  shows "command_line demo_senv line (demo_at account (ReceivingRecipients rpath False)) demo_world
    = (demo_at account (ReceivingData (demo_envelope rpath recipient [])), demo_world, Continue reply_ok_250)"
proof -
  obtain a where a: "address_parse ascii_ops recipient = Inr a" "address_show a = recipient"
      "rcpt_refusal demo_senv (demo_at account (ReceivingRecipients rpath False)) a = None"
  proof (cases "account = None")
    case True
    then have "recipient = lit ''a@b.org''" using assms(2) by simp
    show ?thesis
      by (rule that [of "\<lparr>a_local_part = lit ''a'', a_domain = lit ''b.org''\<rparr>"])
        (use True \<open>recipient = _\<close> in \<open>simp_all add: rcpt_refusal_def resolve_def demo_session demo_senv_def demo_env_def policy_default_def
          domain_disabled_def demo_home_def address_eval directory_eval\<close>)
  next
    case False
    then have "recipient = lit ''x@d.org''" "account = Some (lit ''a'')" using assms(2) by auto
    show ?thesis
      by (rule that [of "\<lparr>a_local_part = lit ''x'', a_domain = lit ''d.org''\<rparr>"])
        (use \<open>recipient = _\<close> \<open>account = _\<close> in \<open>simp_all add: rcpt_refusal_def resolve_def demo_session demo_senv_def demo_env_def policy_default_def
          domain_disabled_def demo_home_def address_eval directory_eval\<close>)
  qed
  then have "rcpt_to demo_senv recipient None (demo_at account (ReceivingRecipients rpath False)) demo_world
      = (demo_at account (ReceivingData (demo_envelope rpath recipient [])), demo_world, Continue reply_ok_250)"
    by (simp add: rcpt_to_def demo_senv_def demo_env_def demo_at_def suppresses_dsn_def demo_envelope_def)
  then show ?thesis by (simp add: assms(1) demo_line)
qed

lemma demo_rcpt:
  "parse_command (lit ''RCPT TO:<a@b.org>'') = Inr (RcptTo (lit ''a@b.org'') None None)"
  "parse_command (lit ''RCPT TO:<x@d.org>'') = Inr (RcptTo (lit ''x@d.org'') None None)"
  by (simp_all add: parse_command_def parse_rcpt_def parse_path_arg_def parse_rcpt_parameters_def split_parameters_def
      MAX_COMMAND_LINE_def str_simps)

lemma demo_data:
  "command_line demo_senv (lit ''DATA'') (demo_at account (ReceivingData (demo_envelope rpath recipient []))) demo_world
    = (demo_at account (ReceivingData (demo_envelope rpath recipient [])), demo_world, CollectData start_mail_input)"
proof -
  have "parse_command (lit ''DATA'') = Inr Data"
    by (simp add: parse_command_def parse_no_args_def MAX_COMMAND_LINE_def str_simps)
  then show ?thesis
    by (simp add: demo_line data_def data_open_def demo_envelope_def demo_at_def)
qed


lemma run_body_line:
  assumes "conn_run U D s0 (conn_at s ModeData) tr" "env_ok U e" "server_ok v" "d \<in> D"
    and "list_all plain (olit t)" "length t \<le> MAX_LINE_LENGTH" "data_line e (olit t) s w = (s', w', None)"
  shows "conn_run U D s0 (conn_at s' ModeData) tr"
proof -
  have "conn_line v e d None (olit t) (conn_at s ModeData) w = (conn_at s' ModeData, w', [])"
    using assms(7) by (simp add: conn_line_def line_outcome_def conn_at_def)
  from run_line [OF assms(1-4) _ assms(5) _ this] show ?thesis
    using assms(6) by (simp add: reads_lines_def note_events_def conn_at_def olit_def)
qed

lemma run_end:
  assumes "conn_run U D s0 (conn_at s ModeData) tr" "env_ok U e" "server_ok v" "d \<in> D"
    and "data_line e [46] s w = (s1, w1, Some (Deliver r m))"
    and "deliver_arm v r m (conn_at s1 ModeCommands) w1 = (c', w', ev)"
  shows "conn_run U D s0 c' (tr @ note_events c' ev)"
proof -
  have "conn_line v e d None [46] (conn_at s ModeData) w = (c', w', ev)"
    using assms(5,6) by (simp add: conn_line_def line_outcome_def resolve_action_def dispatch_action_def conn_at_def)
  from run_line [OF assms(1-4) _ _ _ this] show ?thesis
    by (simp add: reads_lines_def plain_def MAX_LINE_LENGTH_def)
qed

lemma demo_body_line:
  assumes "length (body @ olit t) < 1000" "strip_prefix [46] (olit t) = None"
  shows "data_line demo_senv (olit t) (demo_at account (ReceivingData (demo_envelope rpath recipient body))) demo_world
    = (demo_at account (ReceivingData (demo_envelope rpath recipient (body @ olit t @ [13, 10]))), demo_world, None)"
proof -
  have "olit t \<noteq> [46]" using assms(2) by auto
  then show ?thesis
    using assms by (simp add: data_line_def demo_session demo_envelope_def grow_claim_def demo_world_def MAX_MESSAGE_SIZE_def Let_def)
qed

definition demo_message :: "rstr \<Rightarrow> rstr \<Rightarrow> octets \<Rightarrow> accepted_message" where
  "demo_message rpath recipient body = message_of (demo_envelope rpath recipient body)"

lemma demo_end:
  assumes "author_check demo_senv (demo_at account Greeted) body = None" "length body < 1000"
    and "account = None \<or> account = Some (lit ''a'')"
  shows "\<exists>charge. data_line demo_senv [46] (demo_at account (ReceivingData (demo_envelope rpath recipient body))) demo_world
    = ((demo_at account Greeted)\<lparr>s_policy := policy_default\<lparr>tp_pending_charge := charge\<rparr>\<rparr>, demo_world,
       Some (Deliver reply_ok_250 (demo_message rpath recipient body)))"
proof -
  have "\<exists>charge. take_charge_of demo_senv (demo_at account Greeted) demo_world 1 = (demo_world, Inr charge)"
    using assms(3)
    by (elim disjE) (simp_all add: take_charge_of_def demo_session submission_budget_def policy_default_def for_account_def demo_home_def
        directory_eval budget_charge_def demo_senv_def demo_world_def)
  then obtain charge where "take_charge_of demo_senv (demo_at account Greeted) demo_world 1 = (demo_world, Inr charge)" by blast
  then show ?thesis
    using assms(1,2)
    by (simp add: data_line_def finalise_from_state_def inner_finalise_def demo_session demo_envelope_def
        cap_check_or_reply_def cap_enforce_def cap_empty_def split_over_quota_def policy_default_def
        demo_message_def message_of_def MAX_MESSAGE_SIZE_def hold_charge_def Let_def split: option.splits)
qed

definition demo_mx :: server where
  "demo_mx = demo_server\<lparr>sv_dns := None, sv_peer := None, sv_readers := demo_readers\<lparr>rd_reader := demo_count\<rparr>,
     sv_policy := demo_policy\<lparr>ip_feedback_id := False, ip_list_id := False\<rparr>\<rparr>"

lemma demo_mx_ok: "server_ok demo_mx"
  by (simp add: server_ok_def demo_mx_def demo_server_def)

lemmas demo_screens = deliver_message_def inbound_screens_def demo_mx_def demo_server_def demo_message_def message_of_def
  demo_envelope_def demo_session refuse_padded_headers_def field_count_def hb_split_def hb_lines_def MAX_HEADER_FIELDS_def
  screen_dnsbl_def path_domain_def rsplit_once_def greylist_screen_def known_correspondent_def authenticate_inbound_def
  verify_marks_def trace_step_def reserved_remaining_def content_screens_def scanner_screen_def reputation_screen_def
  screen_attachments_def handle_bayes_thresholds_def handle_uncertain_band_def hand_on_def Let_def

lemma demo_visitor_message:
  "\<exists>ev m. deliver_message demo_mx (demo_at None Greeted) (demo_message [] (lit ''a@b.org'') []) = (ev, Inr 0)
     \<and> Handed m \<in> set ev \<and> am_recipients m = [lit ''a@b.org'']"
proof -
  have empty: "strip_inbound [] h = []" for h
    by (simp add: strip_inbound_def strip_pass.simps [of _ "[]"] copy_within_def)
  show ?thesis by (simp add: demo_screens empty)
qed


definition demo_body :: octets where
  "demo_body = olit ''From: a@b.org'' @ [13, 10, 13, 10]"

definition demo_stamped :: octets where
  "demo_stamped = olit ''Message-ID: <u@b.org>'' @ [13, 10] @ olit ''Date: today'' @ [13, 10] @ demo_body"

lemma demo_stamp:
  "ensure_submission_headers_in_place (lit ''u'') (lit ''today'') (lit ''b.org'') demo_body = demo_stamped"
  by (simp add: demo_body_def demo_stamped_def ensure_submission_headers_in_place_def header_block_end_def
      split_at_blank_line_def unterminated_def strip_last_def olit_def utf8_eval utf8_literal trim_def trim_start_def trim_end_def
      is_whitespace_def is_ascii_whitespace_def scan_submission_headers_def strip_cr_def is_continuation_def oct_name_is_def
      oct_eq_ignore_case_def to_lower_def is_upper_def build_prepended_headers_def line_ending_def split_field_def
      fold_trailing_space_def trim_ascii_end_def oct_whitespace_def same_name_def Let_def)

lemma demo_count_agrees:
  assumes "check_header_lines None (False, 0, 0) (lf_lines d) = Inr (x, n, senders)" "from_fields d \<noteq> None" "n < 100"
  shows "reject_ambiguous_headers demo_count d = Inr ()"
  using assms by (auto simp: reject_ambiguous_headers_def demo_count_def compare_header_readers_def MAX_HEADER_FIELDS_def)

lemmas demo_header = olit_def lit_def demo_mailboxes_def author_eval utf8_eval utf8_literal trim_def trim_start_def trim_end_def
  is_whitespace_def is_ascii_whitespace_def begins_from_def check_header_line_def wsp_def is_field_name_byte_def
  oct_eq_ignore_case_def str_simps

lemma demo_author: "author_check demo_senv (demo_at (Some (lit ''a'')) Greeted) demo_body = None"
proof -
  have "author demo_mailboxes demo_body = AuthorAddresses [lit ''a@b.org'']"
    by (simp add: demo_body_def demo_header)
  moreover have "reject_ambiguous_headers demo_count demo_body = Inr ()"
  proof (rule demo_count_agrees)
    show "check_header_lines None (False, 0, 0) (lf_lines demo_body) = Inr (True, 1, 0)"
      by (simp add: demo_body_def demo_header)
    show "from_fields demo_body \<noteq> None"
      by (simp add: demo_body_def demo_header)
  qed simp
  ultimately show ?thesis
    by (simp add: author_check_def demo_session demo_senv_def demo_readers_def demo_env_def demo_owned)
qed

lemma demo_strip: "strip_headers_in_place (strip_bcc_in_place demo_stamped) [lit ''received''] = demo_stamped"
  by (simp add: strip_bcc_in_place_def strip_headers_in_place_def rewrite_in_place_eq rewrite_header_block_def demo_stamped_def
      demo_body_def header_block_end_def split_at_blank_line_def unterminated_def strip_last_def olit_def drop_step_def
      is_continuation_def field_name_def split_field_def fold_trailing_space_def trim_ascii_end_def oct_whitespace_def
      same_name_def named_def oct_eq_ignore_case_def utf8_literal utf8_eval str_simps Let_def)


definition demo_sent :: octets where
  "demo_sent = utf8_encode (received_header (Some (lit ''c'')) None (lit ''mx.b.org'') False True True (lit ''today'')) @ demo_stamped"

lemma demo_sent_eq:
  "demo_sent = olit ''Received: from c ([unknown])'' @ [13, 10, 9] @ olit ''by mx.b.org with SMTP;'' @ [13, 10, 9] @ olit ''today'' @ [13, 10]
     @ demo_stamped"
  by (simp add: demo_sent_def received_header_def received_protocol_def utf8_literal olit_def)

lemma demo_sent_header: "check_header_lines None (False, 0, 0) (lf_lines demo_sent) = Inr (True, 4, 0)"
  by (simp add: demo_sent_eq demo_stamped_def demo_body_def demo_header)

lemma demo_sent_from: "from_fields demo_sent \<noteq> None"
  by (simp add: demo_sent_eq demo_stamped_def demo_body_def demo_header)

lemma demo_sent_crlf: "\<not> has_unframed_byte demo_sent" "outbound_crlf demo_sent = demo_sent"
  by (simp_all add: demo_sent_eq demo_stamped_def demo_body_def olit_def outbound_crlf_def ends_with_def)

lemma demo_sent_class: "header_values demo_sent (lit ''Epistle-Class'') = []"
  by (simp add: header_values_def demo_sent_eq demo_stamped_def demo_body_def header_block_end_def
      split_at_blank_line_def unterminated_def strip_last_def
      is_continuation_def oct_name_is_def split_field_def
      fold_trailing_space_def trim_ascii_end_def oct_whitespace_def same_name_def Let_def demo_header)


lemma demo_prepared:
  "\<exists>p d. prepare (sv_readers demo_mx) demo_sources None (sv_policy demo_mx) (Some (sv_directory demo_mx)) (m\<lparr>am_data := demo_sent\<rparr>)
     = Inr (p, m\<lparr>am_data := d\<rparr>) \<and> pr_suppressed p = []"
proof -
  have r: "rd_reader (sv_readers demo_mx) = demo_count" by (simp add: demo_mx_def)
  have rej: "reject_ambiguous_headers demo_count demo_sent = Inr ()"
    by (rule demo_count_agrees [OF demo_sent_header demo_sent_from]) simp
  then have norm: "normalised demo_count demo_sent = Inr demo_sent"
    by (simp add: normalised_def demo_sent_crlf)
  obtain m1 where m1: "id_apply (sv_readers demo_mx) Personal (sv_policy demo_mx) (Some (sv_directory demo_mx))
      (m\<lparr>am_data := demo_sent\<rparr>) = Inr m1"
    using rej r by (fastforce simp: id_apply_def Let_def split: prod.splits)
  moreover from id_apply_keeps [OF this] obtain d where "m1 = m\<lparr>am_data := d\<rparr>" by auto
  ultimately show ?thesis
    using norm by (simp add: prepare_def r class_resolve_def demo_sent_class granted_def demo_sources_def) blast
qed

lemma demo_submission:
  "\<exists>ev m. deliver_message demo_mx (demo_at (Some (lit ''a'')) Greeted) (demo_message (lit ''a@b.org'') (lit ''x@d.org'') demo_body)
     = (ev, Inr 0) \<and> Handed m \<in> set ev \<and> am_reverse_path m = lit ''a@b.org'' \<and> am_recipients m = [lit ''x@d.org'']"
proof -
  define m where "m = (demo_message (lit ''a@b.org'') (lit ''x@d.org'') demo_body)\<lparr>am_sender_verified := True, am_data := demo_sent\<rparr>"
  have body: "\<not> refuse_padded_headers demo_body"
    by (simp add: refuse_padded_headers_def field_count_def hb_split_def hb_lines_def MAX_HEADER_FIELDS_def demo_body_def
      split_at_blank_line_def unterminated_def strip_last_def olit_def)
  have stamped: "stamp_submission demo_mx x = x\<lparr>am_data := demo_stamped\<rparr>"
    if "am_data x = demo_body" "am_reverse_path x = lit ''a@b.org''" for x
    using that demo_stamp demo_strip
    by (simp add: stamp_submission_def path_domain_def demo_mx_def demo_server_def str_simps)
  have mx: "sv_dns demo_mx = None" "sv_peer demo_mx = None" "sv_hostname demo_mx = lit ''mx.b.org''" "sv_date demo_mx = lit ''today''"
      "sv_classes demo_mx = None" "sv_suppressed demo_mx = None" "sv_submit demo_mx x a k = None" for x a k
    by (simp_all add: demo_mx_def demo_server_def)
  have at: "s_esmtp (demo_at account st) = False" "s_tls_active (demo_at account st)" "s_helo_domain (demo_at account st) = Some (lit ''c'')"
      "s_authenticated (demo_at account st) = account" for account st
    by (simp_all add: demo_session)
  have trace: "inbound_screens demo_mx (demo_at (Some (lit ''a'')) Greeted) (demo_message (lit ''a@b.org'') (lit ''x@d.org'') demo_body)
     = ([], Inr m)"
    using body
    by (simp add: inbound_screens_def screen_dnsbl_def greylist_screen_def authenticate_inbound_def verify_marks_def trace_step_def
        stamped mx at content_screens_def demo_message_def message_of_def demo_envelope_def m_def demo_sent_def)
  obtain p d where "prepare (sv_readers demo_mx) demo_sources None (sv_policy demo_mx) (Some (sv_directory demo_mx)) m
     = Inr (p, m\<lparr>am_data := d\<rparr>)" "pr_suppressed p = []"
    using demo_prepared [of m] by (auto simp: m_def)
  then show ?thesis
    using trace
    by (simp add: deliver_message_def hand_on_def prepare_submission_def mx at demo_sources_def m_def demo_message_def message_of_def
        demo_envelope_def)
qed



lemma demo_hops: "\<exists>n. received_hop_count demo_body = Some n \<and> n < RECEIVED_HOP_LIMIT" "\<exists>n. received_hop_count [] = Some n \<and> n < RECEIVED_HOP_LIMIT"
  by (simp_all add: received_hop_count_def hop_lines_def hop_line_def RECEIVED_HOP_LIMIT_def demo_body_def demo_header Let_def)

lemma demo_handed:
  assumes run: "conn_run demo_kit {demo_home} demo_open
      (conn_at (demo_at account (ReceivingData (demo_envelope rpath recipient body))) ModeData) tr"
    and body: "author_check demo_senv (demo_at account Greeted) body = None" "length body < 1000" "account = None \<or> account = Some (lit ''a'')"
    and dm: "deliver_message demo_mx (demo_at account Greeted) (demo_message rpath recipient body) = (ev, Inr 0)" "Handed m \<in> set ev"
    and hops: "received_hop_count body = Some n" "n < RECEIVED_HOP_LIMIT"
  obtains tr' where "conn_run demo_kit {demo_home} demo_open (conn_at (demo_at account Greeted) ModeCommands) tr'"
    "(frame_of (demo_at account Greeted), Handed m) \<in> set tr'"
proof -
  obtain charge where out: "data_line demo_senv [46] (demo_at account (ReceivingData (demo_envelope rpath recipient body))) demo_world
    = ((demo_at account Greeted)\<lparr>s_policy := policy_default\<lparr>tp_pending_charge := charge\<rparr>\<rparr>, demo_world,
       Some (Deliver reply_ok_250 (demo_message rpath recipient body)))"
    using demo_end [OF body] by blast
  have s: "(demo_at account Greeted)\<lparr>s_delivery_reservation := res_none, s_policy := policy_default\<rparr> = demo_at account Greeted"
    "message_delivered (demo_at account Greeted) = demo_at account Greeted"
    by (simp_all add: demo_session message_delivered_def junk_default_def)
  have "am_data (demo_message rpath recipient body) = body"
    by (simp add: demo_message_def message_of_def demo_envelope_def)
  then have "deliver_arm demo_mx reply_ok_250 (demo_message rpath recipient body)
       (conn_at ((demo_at account Greeted)\<lparr>s_policy := policy_default\<lparr>tp_pending_charge := charge\<rparr>\<rparr>) ModeCommands) demo_world
     = (conn_at (demo_at account Greeted) ModeCommands, demo_world, ev @ [Sent (accepted_reply reply_ok_250 0)])"
    using dm hops s
    by (simp add: deliver_arm_def take_delivery_reservation_def take_quota_reports_def take_charge_def conn_at_def Let_def policy_default_def)
  from run_end [OF run demo_env_ok demo_mx_ok _ out this, of demo_home] dm(2) that show ?thesis
    by (auto simp: note_events_def conn_at_def)
qed

lemma demo_start: "conn_run demo_kit {demo_home} demo_open (conn_at demo_open ModeCommands) []"
  using conn_run.start [of demo_kit "{demo_home}" demo_open] by (simp add: conn_new_def conn_at_def)

lemma demo_greeted:
  obtains tr where "conn_run demo_kit {demo_home} demo_open (conn_at (demo_at None Greeted) ModeCommands) tr"
    "(frame_of (demo_at None Greeted), Sent (reply_single 250 (lit ''mx.b.org''))) \<in> set tr"
proof -
  have "command_line demo_senv (lit ''HELO c'') (with_directory demo_home demo_open) demo_world
      = (demo_at None Greeted, demo_world, Continue (reply_single 250 (lit ''mx.b.org'')))"
    by (simp add: demo_helo)
  note run = run_command [OF demo_start demo_env_ok demo_mx_ok _ _ _ _ this]
  have "conn_run demo_kit {demo_home} demo_open (conn_at (demo_at None Greeted) ModeCommands)
      ([] @ [(frame_of (demo_at None Greeted), Sent (reply_single 250 (lit ''mx.b.org'')))])"
    by (rule run) (simp_all add: olit_def lit_def plain_def utf8_eval MAX_LINE_LENGTH_def reply_single_def reply_new_def)
  then show ?thesis using that by fastforce
qed

lemma demo_recipients:
  assumes "conn_run demo_kit {demo_home} demo_open (conn_at (demo_at account Greeted) ModeCommands) tr"
    and "account = None \<and> rpath = [] \<and> recipient = lit ''a@b.org'' \<or> account = Some (lit ''a'') \<and> rpath = lit ''a@b.org'' \<and> recipient = lit ''x@d.org''"
  obtains tr' where "conn_run demo_kit {demo_home} demo_open (conn_at (demo_at account (ReceivingData (demo_envelope rpath recipient []))) ModeData) tr'"
proof -
  let ?run = "conn_run demo_kit {demo_home} demo_open"
  note say = run_command [where e = demo_senv and v = demo_mx and d = demo_home and w = demo_world and w' = demo_world,
      OF _ demo_env_ok demo_mx_ok]
  have code: "r_code reply_ok_250 < 400" by (simp add: reply_defs reply_single_def reply_new_def)
  have "\<exists>tr. ?run (conn_at (demo_at account (ReceivingRecipients rpath False)) ModeCommands) tr"
    using assms(2)
  proof (elim disjE conjE)
    assume "account = None" "rpath = []"
    then show ?thesis
      using say [OF assms(1), of "''MAIL FROM:<>''"] demo_mail_accepted [OF demo_mail(1), of None] code
      by (fastforce simp: olit_def lit_def plain_def utf8_eval MAX_LINE_LENGTH_def)
  next
    assume "account = Some (lit ''a'')" "rpath = lit ''a@b.org''"
    then show ?thesis
      using say [OF assms(1), of "''MAIL FROM:<a@b.org>''"] demo_mail_accepted [OF demo_mail(2), of "Some (lit ''a'')"] code
      by (fastforce simp: olit_def lit_def plain_def utf8_eval MAX_LINE_LENGTH_def)
  qed
  then obtain tr2 where r2: "?run (conn_at (demo_at account (ReceivingRecipients rpath False)) ModeCommands) tr2" by blast
  have "\<exists>tr. ?run (conn_at (demo_at account (ReceivingData (demo_envelope rpath recipient []))) ModeCommands) tr"
    using assms(2)
  proof (elim disjE conjE)
    assume "account = None" "recipient = lit ''a@b.org''"
    then show ?thesis
      using say [OF r2, of "''RCPT TO:<a@b.org>''"] demo_rcpt_accepted [OF demo_rcpt(1), of None] code
      by (fastforce simp: olit_def lit_def plain_def utf8_eval MAX_LINE_LENGTH_def)
  next
    assume "account = Some (lit ''a'')" "recipient = lit ''x@d.org''"
    then show ?thesis
      using say [OF r2, of "''RCPT TO:<x@d.org>''"] demo_rcpt_accepted [OF demo_rcpt(2), of "Some (lit ''a'')"] code
      by (fastforce simp: olit_def lit_def plain_def utf8_eval MAX_LINE_LENGTH_def)
  qed
  then obtain tr3 where "?run (conn_at (demo_at account (ReceivingData (demo_envelope rpath recipient []))) ModeCommands) tr3" by blast
  from run_data [OF this demo_env_ok demo_mx_ok, of demo_home demo_world] that show ?thesis by (simp add: demo_data)
qed


lemma demo_visitor_run:
  obtains tr m where "conn_run demo_kit {demo_home} demo_open (conn_at (demo_at None Greeted) ModeCommands) tr"
    "(frame_of (demo_at None Greeted), Handed m) \<in> set tr" "am_recipients m = [lit ''a@b.org'']"
proof -
  obtain tr where "conn_run demo_kit {demo_home} demo_open (conn_at (demo_at None Greeted) ModeCommands) tr"
    by (rule demo_greeted)
  then obtain tr2 where r2: "conn_run demo_kit {demo_home} demo_open
      (conn_at (demo_at None (ReceivingData (demo_envelope [] (lit ''a@b.org'') []))) ModeData) tr2"
    by (rule demo_recipients) auto
  obtain ev m where dm: "deliver_message demo_mx (demo_at None Greeted) (demo_message [] (lit ''a@b.org'') []) = (ev, Inr 0)"
      "Handed m \<in> set ev" and m: "am_recipients m = [lit ''a@b.org'']"
    using demo_visitor_message by blast
  obtain n where hops: "received_hop_count [] = Some n" "n < RECEIVED_HOP_LIMIT" using demo_hops(2) by blast
  show ?thesis
    by (rule demo_handed [OF r2 _ _ _ dm hops]) (use that m in \<open>auto simp: author_check_def demo_session\<close>)
qed

lemma demo_account_run:
  obtains tr m where "conn_run demo_kit {demo_home} demo_open (conn_at (demo_at (Some (lit ''a'')) Greeted) ModeCommands) tr"
    "(frame_of (demo_at (Some (lit ''a'')) Greeted), Handed m) \<in> set tr" "am_reverse_path m = lit ''a@b.org''"
    "am_recipients m = [lit ''x@d.org'']"
proof -
  let ?run = "conn_run demo_kit {demo_home} demo_open" and ?data = "\<lambda>b. ReceivingData (demo_envelope (lit ''a@b.org'') (lit ''x@d.org'') b)"
  obtain tr where r0: "?run (conn_at (demo_at None Greeted) ModeCommands) tr" by (rule demo_greeted)
  have "command_line demo_senv (lit ''AUTH EXTERNAL ='') (with_directory demo_home (demo_at None Greeted)) demo_world
      = (demo_at (Some (lit ''a'')) Greeted, demo_world, Continue auth_successful)"
    by (simp add: demo_auth)
  note signed = run_command [OF r0 demo_env_ok demo_mx_ok _ _ _ _ this]
  have "?run (conn_at (demo_at (Some (lit ''a'')) Greeted) ModeCommands)
      (tr @ [(frame_of (demo_at (Some (lit ''a'')) Greeted), Sent auth_successful)])"
    by (rule signed) (simp_all add: olit_def lit_def plain_def utf8_eval MAX_LINE_LENGTH_def auth_successful_def reply_single_def reply_new_def)
  then obtain tr2 where r2: "?run (conn_at (demo_at (Some (lit ''a'')) (?data [])) ModeData) tr2"
    by (rule demo_recipients) auto
  note line = run_body_line [OF _ demo_env_ok demo_mx_ok _ _ _ demo_body_line]
  have r3: "?run (conn_at (demo_at (Some (lit ''a'')) (?data ([] @ olit ''From: a@b.org'' @ [13, 10]))) ModeData) tr2"
    by (rule line [OF r2]) (simp_all add: olit_def plain_def MAX_LINE_LENGTH_def)
  have r4: "?run (conn_at (demo_at (Some (lit ''a'')) (?data (([] @ olit ''From: a@b.org'' @ [13, 10]) @ olit [] @ [13, 10]))) ModeData) tr2"
    by (rule line [OF r3]) (simp_all add: olit_def plain_def MAX_LINE_LENGTH_def)
  have "([] @ olit ''From: a@b.org'' @ [13, 10]) @ olit [] @ [13, 10] = demo_body"
    by (simp add: demo_body_def olit_def)
  note r5 = r4 [unfolded this]
  obtain ev m where dm: "deliver_message demo_mx (demo_at (Some (lit ''a'')) Greeted) (demo_message (lit ''a@b.org'') (lit ''x@d.org'') demo_body)
      = (ev, Inr 0)" "Handed m \<in> set ev" and m: "am_reverse_path m = lit ''a@b.org''" "am_recipients m = [lit ''x@d.org'']"
    using demo_submission by blast
  obtain n where hops: "received_hop_count demo_body = Some n" "n < RECEIVED_HOP_LIMIT" using demo_hops(1) by blast
  show ?thesis
    by (rule demo_handed [OF r5 demo_author _ _ dm hops]) (use that m in \<open>auto simp: demo_body_def olit_def\<close>)
qed


theorem no_open_relay_witness:
  "\<exists>c tr f m. conn_run demo_kit {demo_home} demo_open c tr \<and> (f, Handed m) \<in> set tr \<and> lit ''a@b.org'' \<in> set (am_recipients m)
     \<and> (\<exists>a. lit ''a@b.org'' = address_show a \<and> resolve ascii_ops demo_home a \<noteq> NotLocal)"
proof -
  obtain tr m where run: "conn_run demo_kit {demo_home} demo_open (conn_at (demo_at None Greeted) ModeCommands) tr"
    "(frame_of (demo_at None Greeted), Handed m) \<in> set tr" and m: "am_recipients m = [lit ''a@b.org'']"
    by (rule demo_visitor_run)
  have "f_account (frame_of (demo_at None Greeted)) = None" by (simp add: frame_of_def demo_session)
  from no_open_relay [OF run(1) demo_open_fresh run(2) this, of "lit ''a@b.org''"] m run show ?thesis
    by (fastforce simp: demo_kit_def)
qed

theorem submitted_mail_is_owned_witness:
  "\<exists>c tr f m. conn_run demo_kit {demo_home} demo_open c tr \<and> (f, Handed m) \<in> set tr \<and> am_recipients m = [lit ''x@d.org'']
     \<and> (\<exists>a. address_parse ascii_ops (am_reverse_path m) = Inr a \<and> owns_address ascii_ops demo_home (lit ''a'') a)"
proof -
  obtain tr m where run: "conn_run demo_kit {demo_home} demo_open (conn_at (demo_at (Some (lit ''a'')) Greeted) ModeCommands) tr"
    "(frame_of (demo_at (Some (lit ''a'')) Greeted), Handed m) \<in> set tr" and m: "am_recipients m = [lit ''x@d.org'']"
    by (rule demo_account_run)
  have "f_account (frame_of (demo_at (Some (lit ''a'')) Greeted)) = Some (lit ''a'')" by (simp add: frame_of_def demo_session)
  from submitted_mail_is_owned [OF run(1) demo_open_fresh run(2) this] m run show ?thesis
    by (fastforce simp: demo_kit_def)
qed

end
