(* ===== verification/Spec2Isabelle.thy ===== *)
theory Spec2Isabelle
  imports Prelude Smtp_Line Net_Cidr Rate_Limit Submission_Budget Memory_Budget Per_Ip
    Domain_Address Smtp_Command Smtp_Command_Print
    Directory Totp Ban_Store Auth_Gate Auth_Lockout
    Utf8 Scram Smtp_Reply Ip_Show Header_Block Inbound_Headers Spf Dmarc_Author Header_Check Dmarc
    Smtp_Session Session_Auth Submission_Headers Greylist Delivery_Arm Smtp_Connection Session_Invariant
    Connection_Safety Connection_Runs
begin

text \<open>
  Verification of the epistle mail server.
\<close>

end
